(* ===== verification/Prelude.thy ===== *)
theory Prelude
  imports Main "HOL-Library.Word"
begin

text \<open>
  Vocabulary shared by every component of the development.

  \<^item> Go's fixed-width integers as words: \<open>uint64\<close> and \<open>int64\<close> are both 64-bit words, read by
    \<open>unat\<close> and by \<open>sint\<close>; the conversion between them is the identity on the bits, as it is in Go.
  \<^item> A call that returns is \<open>Ret v\<close>; one that panics is \<open>Panic p\<close>. Go functions return their
    value together with an error, so a fallible function has a result of type \<open>('a \<times> go_error
    option) go\<close>: the value is there even when the error is set, and callers look at it.
  \<^item> Go's errors: \<open>errors.New\<close>, \<open>fmt.Errorf\<close> with and without \<open>%w\<close>, the error value
    \<open>errUnknownMessageType\<close> of \<^verbatim>\<open>src/api/transaction.go\<close>, and errors that come from code outside
    the repository.
  \<^item> A \<open>for\<close> loop over a slice with early return on an error or a panic is \<open>for_go\<close>.
  \<^item> \<open>transition_system\<close> is the contract every state machine of the development fulfils, \<open>terminating_system\<close>
    that of one whose steps lower a rank.
\<close>

named_theorems go_simps "unfolding of the Go control structures"
named_theorems go_inv "what the operations of a component keep invariant"

type_synonym uint64 = "64 word"
type_synonym int64 = "64 word"
type_synonym uint32 = "32 word"
type_synonym int32 = "32 word"

text \<open>A \<open>[]byte\<close> and a \<open>string\<close> of Go are both byte sequences; Isabelle's \<open>char\<close> is a byte.\<close>

type_synonym bytes = string

subsection \<open>Results of Go calls\<close>

datatype panic =
    NilDereference
  | IndexOutOfRange
  | CloseOfNilChannel
  | CloseOfClosedChannel
  | SendOnClosedChannel
  | MakeChanSize
  | InvalidPattern

datatype 'a go = Ret 'a | Panic panic

primrec bind_go :: "'a go \<Rightarrow> ('a \<Rightarrow> 'b go) \<Rightarrow> 'b go" where
  "bind_go (Ret x) f = f x"
| "bind_go (Panic p) f = Panic p"

primrec returns :: "'a go \<Rightarrow> bool" where
  "returns (Ret x) = True"
| "returns (Panic p) = False"

datatype go_error =
    ErrUnknownMessageType
  | NewError string
  | WrapError string go_error
  | ExtError string

text \<open>\<open>WrapError s e\<close> is \<open>fmt.Errorf\<close> with a \<open>%w\<close> verb: \<open>s\<close> is the whole formatted text,
  \<open>e\<close> the error it unwraps to.\<close>

primrec Error :: "go_error \<Rightarrow> string" where
  "Error ErrUnknownMessageType = ''unknown message type''"
| "Error (NewError s) = s"
| "Error (WrapError s e) = s"
| "Error (ExtError s) = s"

primrec errors_Is :: "go_error \<Rightarrow> go_error \<Rightarrow> bool" where
  "errors_Is ErrUnknownMessageType t = (t = ErrUnknownMessageType)"
| "errors_Is (NewError s) t = (t = NewError s)"
| "errors_Is (WrapError s e) t = (t = WrapError s e \<or> errors_Is e t)"
| "errors_Is (ExtError s) t = (t = ExtError s)"

text \<open>\<open>Errorf_w pre e suf\<close> is \<open>fmt.Errorf(pre + "%w" + suf, e)\<close>.\<close>

definition Errorf_w :: "string \<Rightarrow> go_error \<Rightarrow> string \<Rightarrow> go_error" where
  "Errorf_w pre e suf = WrapError (pre @ Error e @ suf) e"

type_synonym 'a result = "('a \<times> go_error option) go"

subsection \<open>Loops over a slice\<close>

primrec for_go :: "('a \<Rightarrow> 's \<Rightarrow> 's result) \<Rightarrow> 'a list \<Rightarrow> 's \<Rightarrow> 's result" where
  "for_go f [] s = Ret (s, None)"
| "for_go f (x # xs) s =
     bind_go (f x s) (\<lambda>(s', err). case err of Some e \<Rightarrow> Ret (s', Some e) | None \<Rightarrow> for_go f xs s')"

subsection \<open>Generic facts\<close>

lemma bind_go_Ret_iff [go_simps]:
  "bind_go m f = Ret y \<longleftrightarrow> (\<exists>x. m = Ret x \<and> f x = Ret y)"
  by (cases m) auto

lemma bind_go_Panic_iff [go_simps]:
  "bind_go m f = Panic p \<longleftrightarrow> m = Panic p \<or> (\<exists>x. m = Ret x \<and> f x = Panic p)"
  by (cases m) auto

lemma bind_go_assoc: "bind_go (bind_go m f) g = bind_go m (\<lambda>x. bind_go (f x) g)"
  by (cases m) auto

lemma returns_iff: "returns m \<longleftrightarrow> (\<exists>x. m = Ret x)"
  by (cases m) auto

lemma errors_Is_Errorf_w [simp]:
  "errors_Is (Errorf_w pre e suf) ErrUnknownMessageType = errors_Is e ErrUnknownMessageType"
  by (simp add: Errorf_w_def)

lemma Error_Errorf_w [simp]: "Error (Errorf_w pre e suf) = pre @ Error e @ suf"
  by (simp add: Errorf_w_def)

text \<open>An iteration of a loop that never fails: the loop is a fold.\<close>

lemma for_go_total:
  assumes "\<And>x s. x \<in> set xs \<Longrightarrow> f x s = Ret (g x s, None)"
  shows "for_go f xs s = Ret (fold g xs s, None)"
  using assms by (induction xs arbitrary: s) auto

text \<open>What every iteration keeps, the loop keeps, whether it ends, fails or is cut short.\<close>

lemma for_go_invariant:
  assumes "for_go f xs s = Ret (t, err)" and "I s"
    and "\<And>x s s' e. x \<in> set xs \<Longrightarrow> I s \<Longrightarrow> f x s = Ret (s', e) \<Longrightarrow> I s'"
  shows "I t"
  using assms
proof (induction xs arbitrary: s)
  case Nil
  then show ?case by simp
next
  case (Cons x xs)
  from Cons.prems(1) obtain s' e where step: "f x s = Ret (s', e)"
    and rest: "(case e of Some e' \<Rightarrow> Ret (s', Some e') | None \<Rightarrow> for_go f xs s') = Ret (t, err)"
    by (auto simp: go_simps)
  from Cons.prems(2,3) step have "I s'" by (meson list.set_intros(1))
  then show ?case
  proof (cases e)
    case None
    with rest have "for_go f xs s' = Ret (t, err)" by simp
    then show ?thesis using \<open>I s'\<close> Cons.prems(3) by (rule Cons.IH) auto
  next
    case (Some e')
    with rest \<open>I s'\<close> show ?thesis by simp
  qed
qed

lemma for_go_returns:
  "(\<And>x s. x \<in> set xs \<Longrightarrow> returns (f x s)) \<Longrightarrow> returns (for_go f xs s)"
proof (induction xs arbitrary: s)
  case Nil
  then show ?case by simp
next
  case (Cons x xs)
  then obtain s' e where "f x s = Ret (s', e)" by (fastforce simp: returns_iff)
  with Cons show ?case by (auto split: option.splits)
qed

lemma for_go_error:
  "for_go f xs s = Ret (t, Some e) \<Longrightarrow> \<exists>x s. x \<in> set xs \<and> f x s = Ret (t, Some e)"
proof (induction xs arbitrary: s)
  case Nil
  then show ?case by simp
next
  case (Cons x xs)
  then obtain s' e' where "f x s = Ret (s', e')" by (auto simp: go_simps)
  with Cons show ?case by (cases e') fastforce+
qed

lemma for_go_append:
  "for_go f (xs @ ys) s =
     bind_go (for_go f xs s) (\<lambda>(t, err). case err of Some e \<Rightarrow> Ret (t, Some e) | None \<Rightarrow> for_go f ys t)"
  by (induction xs arbitrary: s) (auto simp: bind_go_assoc split: option.splits intro!: arg_cong2 [where f = bind_go])

lemma fold_snoc_map: "fold (\<lambda>x ys. ys @ [h x]) xs ys = ys @ map h xs"
  by (induction xs arbitrary: ys) auto

text \<open>Filling a map in a loop \<open>for i, x := range xs { m[key(i)] = f(x) }\<close> with an injective key.\<close>

definition fill_map :: "(nat \<Rightarrow> 'k) \<Rightarrow> ('a \<Rightarrow> 'v) \<Rightarrow> 'a list \<Rightarrow> ('k \<rightharpoonup> 'v)" where
  "fill_map key f xs = fold (\<lambda>(i, x) m. m(key i \<mapsto> f x)) (enumerate 0 xs) Map.empty"

lemma fill_map_Nil [simp]: "fill_map key f [] = Map.empty"
  by (simp add: fill_map_def)

lemma fill_map_snoc [simp]: "fill_map key f (xs @ [x]) = (fill_map key f xs)(key (length xs) \<mapsto> f x)"
  by (simp add: fill_map_def enumerate_append_eq)

lemma fill_map_at:
  "inj key \<Longrightarrow> i < length xs \<Longrightarrow> fill_map key f xs (key i) = Some (f (xs ! i))"
  by (induction xs rule: rev_induct) (auto simp: inj_eq nth_append less_Suc_eq)

lemma dom_fill_map: "dom (fill_map key f xs) = key ` {..<length xs}"
  by (induction xs rule: rev_induct) (simp_all add: lessThan_Suc del: fun_upd_apply)

lemma unat_uint64_less [simp]: "unat (x :: uint64) < 18446744073709551616"
  using unsigned_less [of x] by simp

subsection \<open>Transition systems\<close>

text \<open>
  A state machine is a set of initial states and a step relation. \<open>reach\<close> is the least set of
  states that holds the initial ones and is closed under steps. An invariant holds initially and is
  kept by every step; every reachable state has it.
\<close>

inductive reach :: "('s \<Rightarrow> bool) \<Rightarrow> ('s \<Rightarrow> 's \<Rightarrow> bool) \<Rightarrow> 's \<Rightarrow> bool" for init step where
  reach_init: "init s \<Longrightarrow> reach init step s"
| reach_step: "reach init step s \<Longrightarrow> step s t \<Longrightarrow> reach init step t"

locale transition_system =
  fixes init :: "'s \<Rightarrow> bool" and step :: "'s \<Rightarrow> 's \<Rightarrow> bool" and invariant :: "'s \<Rightarrow> bool"
  assumes invariant_init: "init s \<Longrightarrow> invariant s"
    and invariant_step: "invariant s \<Longrightarrow> step s t \<Longrightarrow> invariant t"
begin

lemma reachable_invariant: "reach init step s \<Longrightarrow> invariant s"
  by (induction rule: reach.induct) (auto intro: invariant_init invariant_step)

lemma reachable_steps:
  "reach init step s \<Longrightarrow> step\<^sup>*\<^sup>* s t \<Longrightarrow> reach init step t"
  by (rotate_tac, induction rule: rtranclp_induct) (auto intro: reach_step)

end

text \<open>A system in which every step lowers a rank: its runs are bounded, and each can be continued to an end.\<close>

locale terminating_system = transition_system init step invariant
  for init :: "'s \<Rightarrow> bool" and step :: "'s \<Rightarrow> 's \<Rightarrow> bool" and invariant :: "'s \<Rightarrow> bool" +
  fixes rank :: "'s \<Rightarrow> nat"
  assumes rank_step: "invariant s \<Longrightarrow> step s t \<Longrightarrow> rank t < rank s"
begin

lemma reaches_end: "invariant s \<Longrightarrow> \<exists>t. step\<^sup>*\<^sup>* s t \<and> (\<forall>u. \<not> step t u)"
proof (induction "rank s" arbitrary: s rule: less_induct)
  case less
  show ?case
  proof (cases "\<exists>u. step s u")
    case True
    then obtain u where "step s u" by blast
    with less.hyps [of u] less.prems rank_step invariant_step show ?thesis by (meson converse_rtranclp_into_rtranclp)
  qed blast
qed

lemma run_bounded:
  assumes "(step ^^ n) s t" and "invariant s"
  shows "n + rank t \<le> rank s"
  using assms
proof (induction n arbitrary: s)
  case (Suc n)
  from Suc.prems(1) obtain u where u: "step s u" "(step ^^ n) u t" by (rule relpowp_Suc_E2) blast
  from Suc.IH [OF u(2)] Suc.prems(2) u(1) rank_step [of s u] invariant_step [of s u] show ?case by simp
qed simp

end

end
