(* ===== verification/Go_Strings.thy ===== *)
theory Go_Strings
  imports Prelude "HOL-Library.Sublist"
begin

text \<open>
  The parts of Go's standard library the worker's text handling rests on: \<open>strings.Split\<close> and
  \<open>strings.Replace\<close> with one-byte arguments, \<open>strconv.FormatUint\<close>, \<open>FormatInt\<close> and \<open>Itoa\<close> in base
  10, \<open>big.Int.SetString\<close> in base 10, and \<open>regexp.FindStringSubmatch\<close> for the shape of pattern the
  repository uses (a sequence of greedy character-class repetitions, some captured, anchored by
  \<open>$\<close> at the end of the text). Each comes with the laws the components use: splitting loses nothing,
  printing and parsing are inverse, a match decomposes its text and takes the leftmost start.
\<close>

subsection \<open>Splitting and replacing\<close>

fun Split :: "string \<Rightarrow> char \<Rightarrow> string list" where
  "Split [] c = [[]]"
| "Split (x # xs) c =
     (if x = c then [] # Split xs c
      else case Split xs c of p # ps \<Rightarrow> (x # p) # ps | [] \<Rightarrow> [[x]])"

fun Join :: "string list \<Rightarrow> char \<Rightarrow> string" where
  "Join [] c = []"
| "Join [p] c = p"
| "Join (p # ps) c = p @ c # Join ps c"

definition Replace_all :: "string \<Rightarrow> char \<Rightarrow> char \<Rightarrow> string" where
  "Replace_all s old new = map (\<lambda>x. if x = old then new else x) s"

subsection \<open>Decimal numbers\<close>

definition is_digit :: "char \<Rightarrow> bool" where
  "is_digit c \<longleftrightarrow> 48 \<le> (of_char c :: nat) \<and> (of_char c :: nat) \<le> 57"

definition digit_val :: "char \<Rightarrow> nat" where
  "digit_val c = of_char c - 48"

definition digit_char :: "nat \<Rightarrow> char" where
  "digit_char n = char_of (48 + n)"

fun format_nat :: "nat \<Rightarrow> string" where
  "format_nat n = (if n < 10 then [digit_char n] else format_nat (n div 10) @ [digit_char (n mod 10)])"

declare format_nat.simps [simp del]

definition format_int :: "int \<Rightarrow> string" where
  "format_int i = (if i < 0 then CHR ''-'' # format_nat (nat (- i)) else format_nat (nat i))"

definition FormatUint :: "uint64 \<Rightarrow> string" where
  "FormatUint u = format_nat (unat u)"

definition FormatInt :: "int64 \<Rightarrow> string" where
  "FormatInt i = format_int (sint i)"

text \<open>\<open>strconv.Itoa\<close> on a slice index, which is never negative.\<close>

definition Itoa :: "nat \<Rightarrow> string" where
  "Itoa n = format_nat n"

primrec scan_digits :: "nat \<Rightarrow> string \<Rightarrow> nat option" where
  "scan_digits acc [] = Some acc"
| "scan_digits acc (c # cs) = (if is_digit c then scan_digits (10 * acc + digit_val c) cs else None)"

text \<open>\<open>SetString(s, 10)\<close>: an optional sign and at least one digit, the whole text consumed;
  \<open>None\<close> is the failure, after which Go leaves the number undefined.\<close>

definition SetString10 :: "string \<Rightarrow> int option" where
  "SetString10 s =
     (case s of
        [] \<Rightarrow> None
      | c # cs \<Rightarrow>
          if c = CHR ''-'' then (if cs = [] then None else map_option (\<lambda>n. - int n) (scan_digits 0 cs))
          else if c = CHR ''+'' then (if cs = [] then None else map_option int (scan_digits 0 cs))
          else map_option int (scan_digits 0 s))"

subsection \<open>Regular expressions\<close>

text \<open>One item of a pattern: whether it is a capturing group, the least number of repetitions
  (1 for \<open>+\<close>, 0 for \<open>*\<close>) and its character class.\<close>

record rx_item =
  rx_capture :: bool
  rx_min :: nat
  rx_class :: "char \<Rightarrow> bool"

text \<open>\<open>greedy m k K s\<close> takes \<open>k\<close> characters and, as long as the rest of the pattern \<open>K\<close> does not
  match what follows, gives one back, down to \<open>m\<close>.\<close>

fun greedy :: "nat \<Rightarrow> nat \<Rightarrow> (string \<Rightarrow> 'r option) \<Rightarrow> string \<Rightarrow> (string \<times> 'r) option" where
  "greedy m 0 K s = (if m = 0 then map_option (Pair []) (K s) else None)"
| "greedy m (Suc k) K s =
     (if Suc k < m then None
      else case K (drop (Suc k) s) of
             Some r \<Rightarrow> Some (take (Suc k) s, r)
           | None \<Rightarrow> greedy m k K s)"

primrec rx_match :: "rx_item list \<Rightarrow> string \<Rightarrow> string list option" where
  "rx_match [] s = (if s = [] then Some [] else None)"
| "rx_match (it # its) s =
     (case greedy (rx_min it) (length (takeWhile (rx_class it) s)) (rx_match its) s of
        None \<Rightarrow> None
      | Some (t, gs) \<Rightarrow> Some (if rx_capture it then t # gs else gs))"

text \<open>Leftmost start; the whole match reaches the end of the text because of \<open>$\<close>. The empty list
  is Go's \<open>nil\<close> for no match.\<close>

fun FindStringSubmatch :: "rx_item list \<Rightarrow> string \<Rightarrow> string list" where
  "FindStringSubmatch its s =
     (case rx_match its s of
        Some gs \<Rightarrow> s # gs
      | None \<Rightarrow> (case s of [] \<Rightarrow> [] | _ # cs \<Rightarrow> FindStringSubmatch its cs))"

declare FindStringSubmatch.simps [simp del]

subsection \<open>Laws of splitting\<close>

lemma Split_nonempty [simp]: "Split s c \<noteq> []"
  by (induction s) (auto split: list.splits)

lemma Join_Split: "Join (Split s c) c = s"
proof (induction s)
  case Nil
  then show ?case by simp
next
  case (Cons x xs)
  obtain p ps where split: "Split xs c = p # ps"
    by (meson Split_nonempty neq_Nil_conv)
  show ?case
  proof (cases "x = c")
    case True
    with Cons split show ?thesis by simp
  next
    case False
    with Cons split show ?thesis by (cases ps) auto
  qed
qed

lemma Split_no_sep: "p \<in> set (Split s c) \<Longrightarrow> c \<notin> set p"
proof (induction s arbitrary: p)
  case Nil
  then show ?case by simp
next
  case (Cons x xs)
  then show ?case by (cases "Split xs c") (auto split: if_splits)
qed

lemma length_Split: "length (Split s c) = Suc (count_list s c)"
  by (induction s) (auto split: list.splits)

lemma Split_absent: "c \<notin> set s \<Longrightarrow> Split s c = [s]"
  by (induction s) auto

lemma Split_append: "c \<notin> set p \<Longrightarrow> Split (p @ c # s) c = p # Split s c"
  by (induction p) auto

lemma Split_Join:
  assumes "ps \<noteq> []" and "\<And>p. p \<in> set ps \<Longrightarrow> c \<notin> set p"
  shows "Split (Join ps c) c = ps"
  using assms by (induction ps c rule: Join.induct) (auto simp: Split_append Split_absent)

lemma Replace_all_absent: "old \<notin> set s \<Longrightarrow> Replace_all s old new = s"
  by (induction s) (auto simp: Replace_all_def)

subsection \<open>Laws of decimal numbers\<close>

lemma digit_char [simp]:
  assumes "n < 10"
  shows "is_digit (digit_char n)" and "digit_val (digit_char n) = n"
  using assms by (auto simp: is_digit_def digit_val_def digit_char_def of_char_of take_bit_eq_mod)

lemma digit_char_simps [simp]:
  "digit_char 0 = CHR ''0''" "digit_char (Suc 0) = CHR ''1''" "digit_char 1 = CHR ''1''"
  "digit_char 2 = CHR ''2''" "digit_char 3 = CHR ''3''" "digit_char 4 = CHR ''4''"
  "digit_char 5 = CHR ''5''" "digit_char 6 = CHR ''6''" "digit_char 7 = CHR ''7''"
  "digit_char 8 = CHR ''8''" "digit_char 9 = CHR ''9''"
  by (simp_all add: digit_char_def char_of_def bit_0)

lemma format_nat_digits: "list_all is_digit (format_nat n)"
  by (induction n rule: format_nat.induct) (subst format_nat.simps, auto)

lemma format_nat_nonempty [simp]: "format_nat n \<noteq> []"
  by (subst format_nat.simps) simp

lemma scan_digits_append:
  "scan_digits a (s @ t) = Option.bind (scan_digits a s) (\<lambda>b. scan_digits b t)"
  by (induction s arbitrary: a) auto

lemma scan_digits_total: "list_all is_digit s \<Longrightarrow> \<exists>n. scan_digits a s = Some n"
  by (induction s arbitrary: a) auto

lemma scan_format_nat: "scan_digits 0 (format_nat n) = Some n"
proof (induction n rule: format_nat.induct)
  case (1 n)
  show ?case
  proof (cases "n < 10")
    case True
    then show ?thesis by (subst format_nat.simps) simp
  next
    case False
    with 1 have "scan_digits 0 (format_nat (n div 10)) = Some (n div 10)" by simp
    with False show ?thesis
      by (subst format_nat.simps) (simp add: scan_digits_append)
  qed
qed

lemma format_nat_inj [simp]: "format_nat m = format_nat n \<longleftrightarrow> m = n"
  by (metis option.inject scan_format_nat)

lemma Itoa_inj [simp]: "Itoa m = Itoa n \<longleftrightarrow> m = n"
  by (simp add: Itoa_def)

lemma digit_not_sign: "is_digit c \<Longrightarrow> c \<noteq> CHR ''-'' \<and> c \<noteq> CHR ''+''"
  by (auto simp: is_digit_def)

lemma digits_not_in: "list_all is_digit s \<Longrightarrow> \<not> is_digit c \<Longrightarrow> c \<notin> set s"
  by (auto simp: list_all_iff)

lemma SetString10_digits:
  "s \<noteq> [] \<Longrightarrow> list_all is_digit s \<Longrightarrow> SetString10 s = map_option int (scan_digits 0 s)"
  by (cases s) (auto simp: SetString10_def dest: digit_not_sign)

lemma SetString10_format_nat [simp]: "SetString10 (format_nat n) = Some (int n)"
  by (simp add: SetString10_digits format_nat_digits scan_format_nat)

lemma SetString10_format_int [simp]: "SetString10 (format_int i) = Some i"
  by (auto simp: format_int_def) (simp add: SetString10_def scan_format_nat)

subsection \<open>Laws of matching\<close>

lemma greedy_Some:
  assumes "greedy m k K s = Some (t, r)" and "k \<le> length s"
  shows "\<exists>j \<le> k. m \<le> j \<and> t = take j s \<and> K (drop j s) = Some r
           \<and> (\<forall>i. j < i \<longrightarrow> i \<le> k \<longrightarrow> K (drop i s) = None)"
  using assms
proof (induction m k K s rule: greedy.induct)
  case (1 m K s)
  then show ?case by (auto split: if_splits)
next
  case (2 m k K s)
  show ?case
  proof (cases "K (drop (Suc k) s)")
    case None
    with 2 obtain j where "j \<le> k" "m \<le> j" "t = take j s" "K (drop j s) = Some r"
      and none: "\<And>i. j < i \<Longrightarrow> i \<le> k \<Longrightarrow> K (drop i s) = None"
      by (auto split: if_splits)
    moreover have "K (drop i s) = None" if "j < i" "i \<le> Suc k" for i
      using that none None by (cases "i = Suc k") auto
    ultimately show ?thesis by (intro exI [of _ j]) auto
  next
    case (Some r')
    with 2 show ?thesis by (intro exI [of _ "Suc k"]) (auto split: if_splits)
  qed
qed

lemma greedy_None:
  assumes "greedy m k K s = None" and "m \<le> j" and "j \<le> k"
  shows "K (drop j s) = None"
  using assms
proof (induction m k K s rule: greedy.induct)
  case (1 m K s)
  then show ?case by (auto split: if_splits)
next
  case (2 m k K s)
  then show ?case by (cases "j = Suc k") (auto split: if_splits option.splits)
qed

lemma greedy_first:
  assumes "K (drop k s) = Some r" and "m \<le> k"
  shows "greedy m k K s = Some (take k s, r)"
  using assms by (cases k) auto

text \<open>Unfolding one item of a pattern: what it took, and what is left for the other items.\<close>

lemma list_all_take_takeWhile: "k \<le> length (takeWhile P xs) \<Longrightarrow> list_all P (take k xs)"
  by (induction xs arbitrary: k) (auto simp: take_Cons' split: if_splits)

lemma rx_match_ConsD:
  assumes "rx_match (it # its) s = Some gs"
  shows "\<exists>t r hs. s = t @ r \<and> list_all (rx_class it) t \<and> rx_min it \<le> length t
           \<and> rx_match its r = Some hs \<and> gs = (if rx_capture it then t # hs else hs)"
proof -
  let ?k = "length (takeWhile (rx_class it) s)"
  from assms obtain t hs where g: "greedy (rx_min it) ?k (rx_match its) s = Some (t, hs)"
    and gs: "gs = (if rx_capture it then t # hs else hs)"
    by (auto split: option.splits)
  from greedy_Some [OF g length_takeWhile_le] obtain j
    where j: "j \<le> ?k" "rx_min it \<le> j" "t = take j s" and rest: "rx_match its (drop j s) = Some hs"
    by auto
  have "length t = j" using j(1,3) length_takeWhile_le [of "rx_class it" s] by simp
  then have "s = t @ drop j s \<and> rx_min it \<le> length t" using j(2,3) by simp
  with j gs rest show ?thesis using list_all_take_takeWhile [OF j(1)] by blast
qed

lemma rx_match_Cons_complete:
  assumes "list_all (rx_class it) t" and "rx_min it \<le> length t" and "rx_match its r \<noteq> None"
  shows "rx_match (it # its) (t @ r) \<noteq> None"
proof
  assume "rx_match (it # its) (t @ r) = None"
  then have "greedy (rx_min it) (length (takeWhile (rx_class it) (t @ r))) (rx_match its) (t @ r) = None"
    by (auto split: option.splits)
  moreover have "length t \<le> length (takeWhile (rx_class it) (t @ r))"
    using assms(1) by (induction t) auto
  ultimately have "rx_match its (drop (length t) (t @ r)) = None"
    using assms(2) by (intro greedy_None)
  with assms(3) show False by simp
qed

lemma rx_match_ConsI:
  assumes "takeWhile (rx_class it) (t @ r) = t" and "rx_min it \<le> length t" and "rx_match its r = Some hs"
  shows "rx_match (it # its) (t @ r) = Some (if rx_capture it then t # hs else hs)"
  using greedy_first [of "rx_match its" "length t" "t @ r" hs "rx_min it"] assms by simp

lemma prefix_before_absent:
  "p @ k # v = n @ m \<Longrightarrow> k \<notin> set m \<Longrightarrow> \<exists>u. n = p @ k # u"
  by (auto simp: append_eq_append_conv2 append_eq_Cons_conv Cons_eq_append_conv)

lemma takeWhile_all_then:
  "list_all P xs \<Longrightarrow> ys = [] \<or> \<not> P (hd ys) \<Longrightarrow> takeWhile P (xs @ ys) = xs"
  by (induction xs) (cases ys; auto)+

lemma FindStringSubmatch_suffix:
  "FindStringSubmatch its s = w # gs \<Longrightarrow> suffix w s \<and> rx_match its w = Some gs"
proof (induction its s rule: FindStringSubmatch.induct)
  case (1 its s)
  show ?case
  proof (cases "rx_match its s")
    case (Some hs)
    with "1.prems" show ?thesis by (subst (asm) FindStringSubmatch.simps) auto
  next
    case None
    with "1.prems" obtain c cs where s: "s = c # cs" and "FindStringSubmatch its cs = w # gs"
      by (subst (asm) FindStringSubmatch.simps) (auto split: list.splits)
    with None "1.IH" have "suffix w cs \<and> rx_match its w = Some gs" by blast
    with s show ?thesis by (auto intro: suffix_ConsI)
  qed
qed

lemma FindStringSubmatch_None:
  "FindStringSubmatch its s = [] \<Longrightarrow> suffix w s \<Longrightarrow> rx_match its w = None"
proof (induction its s rule: FindStringSubmatch.induct)
  case (1 its s)
  from "1.prems" have none: "rx_match its s = None"
    by (subst (asm) FindStringSubmatch.simps) (auto split: option.splits)
  show ?case
  proof (cases "w = s")
    case True
    with none show ?thesis by simp
  next
    case False
    with "1.prems"(2) obtain c cs where s: "s = c # cs" and w: "suffix w cs"
      by (cases s) (auto simp: suffix_Cons)
    with "1.prems"(1) none have "FindStringSubmatch its cs = []"
      by (subst (asm) FindStringSubmatch.simps) simp
    with none s w "1.IH" show ?thesis by blast
  qed
qed

lemma FindStringSubmatch_here: "rx_match its s = Some gs \<Longrightarrow> FindStringSubmatch its s = s # gs"
  by (subst FindStringSubmatch.simps) simp

end
