(* ===== verification/Structs.thy ===== *)
theory Structs
  imports Go_Strings
begin

text \<open>
  The data the worker reads and writes. The struct types of \<open>indexer-manager/structs\<close> and of the
  Cosmos SDK are declared outside the repository; a record here has the fields the repository's code
  reads or sets, under a prefix for the struct. A Go zero value is the constant ending in \<open>0\<close>, so
  a composite literal with fields left out is an update of it. Pointers that may be \<open>nil\<close> are
  options. A \<open>nil\<close> slice and an empty one, and a \<open>nil\<close> map and an empty one, are identified: no
  code of the repository tells them apart, and every map is made before it is written.

  \<open>env\<close> holds what the code calls outside the repository: protobuf decoding, the number types
  \<open>sdk.Int\<close> (\<open>'i\<close>) and \<open>sdk.Dec\<close> (\<open>'d\<close>) with their accessors, marshalling of a transaction, and
  the value that a failed \<open>big.Int.SetString\<close> leaves behind, which Go's documentation leaves
  undefined. Nothing is assumed of them here; a property that needs a documented law names it.
\<close>

subsection \<open>Output format (indexer-manager/structs)\<close>

record TransactionAmount =
  ta_Text :: string
  ta_Numeric :: "int option"
  ta_Currency :: string
  ta_Exp :: int32

definition TransactionAmount0 :: TransactionAmount where
  "TransactionAmount0 = \<lparr>ta_Text = [], ta_Numeric = None, ta_Currency = [], ta_Exp = 0\<rparr>"

record AccountDetails =
  ad_Name :: string
  ad_Description :: string
  ad_Contact :: string
  ad_Website :: string

record Account =
  ac_ID :: string
  ac_Details :: "AccountDetails option"

definition Account_ID :: "string \<Rightarrow> Account" where
  "Account_ID i = \<lparr>ac_ID = i, ac_Details = None\<rparr>"

record EventTransfer =
  et_Account :: Account
  et_Amounts :: "TransactionAmount list"

record SubsetEventError =
  see_Message :: string

record SubsetEvent =
  se_Type :: "string list"
  se_Module :: string
  se_Node :: "string \<rightharpoonup> Account list"
  se_Sender :: "EventTransfer list"
  se_Recipient :: "EventTransfer list"
  se_Amount :: "string \<rightharpoonup> TransactionAmount"
  se_Transfers :: "string \<rightharpoonup> EventTransfer list"
  se_Additional :: "string \<rightharpoonup> string list"
  se_Error :: "SubsetEventError option"

definition SubsetEvent0 :: SubsetEvent where
  "SubsetEvent0 =
     \<lparr>se_Type = [], se_Module = [], se_Node = Map.empty, se_Sender = [], se_Recipient = [],
      se_Amount = Map.empty, se_Transfers = Map.empty, se_Additional = Map.empty, se_Error = None\<rparr>"

record TransactionEvent =
  tev_ID :: string
  tev_Kind :: string
  tev_Sub :: "SubsetEvent list"

definition TransactionEvent0 :: TransactionEvent where
  "TransactionEvent0 = \<lparr>tev_ID = [], tev_Kind = [], tev_Sub = []\<rparr>"

type_synonym uuid = string
type_synonym gotime = int

record Transaction =
  tx_ID :: uuid
  tx_Hash :: string
  tx_BlockHash :: string
  tx_Height :: uint64
  tx_ChainID :: string
  tx_Time :: gotime
  tx_Fee :: "TransactionAmount list"
  tx_GasWanted :: uint64
  tx_GasUsed :: uint64
  tx_Memo :: string
  tx_Raw :: bytes
  tx_RawLog :: bytes
  tx_Events :: "TransactionEvent list"

definition Transaction0 :: Transaction where
  "Transaction0 =
     \<lparr>tx_ID = [], tx_Hash = [], tx_BlockHash = [], tx_Height = 0, tx_ChainID = [], tx_Time = 0,
      tx_Fee = [], tx_GasWanted = 0, tx_GasUsed = 0, tx_Memo = [], tx_Raw = [], tx_RawLog = [],
      tx_Events = []\<rparr>"

record Block =
  blk_ID :: uuid
  blk_Hash :: string
  blk_Height :: uint64
  blk_Time :: gotime
  blk_ChainID :: string
  blk_NumberOfTransactions :: uint64

definition Block0 :: Block where
  "Block0 = \<lparr>blk_ID = [], blk_Hash = [], blk_Height = 0, blk_Time = 0, blk_ChainID = [],
     blk_NumberOfTransactions = 0\<rparr>"

record HeightHash =
  hh_Height :: uint64
  hh_Hash :: string

definition HeightHash_Height :: "uint64 \<Rightarrow> HeightHash" where
  "HeightHash_Height h = \<lparr>hh_Height = h, hh_Hash = []\<rparr>"

record HeightRange =
  hr_StartHeight :: uint64
  hr_EndHeight :: uint64

record HeightAccount =
  ha_Height :: uint64
  ha_Account :: string

subsection \<open>Messages (Cosmos SDK, liquidity module)\<close>

record 'i Coin =
  Denom :: string
  Amount :: 'i

record 'i MsgSend =
  send_FromAddress :: string
  send_ToAddress :: string
  send_Amount :: "'i Coin list"

record 'i InOutput =
  io_Address :: string
  io_Coins :: "'i Coin list"

record 'i MsgMultiSend =
  ms_Inputs :: "'i InOutput list"
  ms_Outputs :: "'i InOutput list"

record MsgVerifyInvariant =
  vi_Sender :: string
  vi_InvariantModuleName :: string
  vi_InvariantRoute :: string

record MsgWithdrawValidatorCommission =
  wvc_ValidatorAddress :: string

record MsgSetWithdrawAddress =
  swa_DelegatorAddress :: string
  swa_WithdrawAddress :: string

record MsgWithdrawDelegatorReward =
  wdr_DelegatorAddress :: string
  wdr_ValidatorAddress :: string

record 'i MsgFundCommunityPool =
  fcp_Amount :: "'i Coin list"
  fcp_Depositor :: string

text \<open>\<open>GetEvidence\<close> and \<open>GetContent\<close> of the SDK read the value cached in the \<open>Any\<close> of the message: they panic when the message
  has no such field, and give \<open>nil\<close> when the value is of another type. What they give is part of the message.

  The value cached in the evidence \<open>Any\<close>: either a \<open>ValidatorEvidence\<close>, with its total power,
  its validator power and the text of its consensus address, or another implementation.\<close>

datatype evidence_value =
    ValidatorEvidence int64 int64 string
  | OtherEvidence

record MsgSubmitEvidence =
  mse_Submitter :: string
  mse_GetEvidence_Height :: "int64 option go"
  mse_GetCachedValue :: "evidence_value option"

record 'i MsgDeposit =
  dep_ProposalId :: uint64
  dep_Depositor :: string
  dep_Amount :: "'i Coin list"

record MsgVote =
  vote_ProposalId :: uint64
  vote_Voter :: string
  vote_Option_String :: string

record Content =
  ct_ProposalRoute :: string
  ct_ProposalType :: string
  ct_Description :: string
  ct_Title :: string
  ct_String :: string

record 'i MsgSubmitProposal =
  sp_GetContent :: "Content option go"
  sp_InitialDeposit :: "'i Coin list"
  sp_Proposer :: string

record MsgUnjail =
  unjail_ValidatorAddr :: string

record 'i MsgDelegate =
  del_DelegatorAddress :: string
  del_ValidatorAddress :: string
  del_Amount :: "'i Coin"

record 'i MsgBeginRedelegate =
  br_DelegatorAddress :: string
  br_ValidatorSrcAddress :: string
  br_ValidatorDstAddress :: string
  br_Amount :: "'i Coin"

record StakingDescription =
  desc_Moniker :: string
  desc_Website :: string
  desc_SecurityContact :: string
  desc_Details :: string

record ('i, 'd) MsgCreateValidator =
  cv_Description :: StakingDescription
  cv_Rate :: 'd
  cv_MaxRate :: 'd
  cv_MaxChangeRate :: 'd
  cv_MinSelfDelegation :: 'i
  cv_DelegatorAddress :: string
  cv_ValidatorAddress :: string
  cv_Value :: "'i Coin"

record ('i, 'd) MsgEditValidator =
  ev_Description :: StakingDescription
  ev_ValidatorAddress :: string
  ev_CommissionRate :: "'d option"
  ev_MinSelfDelegation :: "'i option"

record 'i MsgCreateVestingAccount =
  cva_FromAddress :: string
  cva_ToAddress :: string
  cva_Amount :: "'i Coin list"
  cva_EndTime :: int64
  cva_Delayed :: bool

record 'i MsgCreatePool =
  cp_PoolCreatorAddress :: string
  cp_PoolTypeId :: uint32
  cp_DepositCoins :: "'i Coin list"

record 'i MsgDepositWithinBatch =
  dwb_DepositorAddress :: string
  dwb_PoolId :: uint64
  dwb_DepositCoins :: "'i Coin list"

record 'i MsgWithdrawWithinBatch =
  wwb_WithdrawerAddress :: string
  wwb_PoolId :: uint64
  wwb_PoolCoin :: "'i Coin"

record ('i, 'd) MsgSwapWithinBatch =
  swb_SwapRequesterAddress :: string
  swb_PoolId :: uint64
  swb_SwapTypeId :: uint32
  swb_OfferCoin :: "'i Coin"
  swb_DemandCoinDenom :: string
  swb_OfferCoinFee :: "'i Coin"
  swb_OrderPrice :: 'd

text \<open>The IBC messages: their mappers decode them and read no field.\<close>

datatype ibc_msg =
    MsgCreateClient | MsgUpdateClient | MsgUpgradeClient | MsgSubmitMisbehaviour
  | MsgConnectionOpenInit | MsgConnectionOpenConfirm | MsgConnectionOpenAck | MsgConnectionOpenTry
  | MsgChannelOpenInit | MsgChannelOpenTry | MsgChannelOpenConfirm | MsgChannelOpenAck
  | MsgChannelCloseInit | MsgChannelCloseConfirm | MsgRecvPacket | MsgTimeout | MsgAcknowledgement
  | MsgTransfer

subsection \<open>Transactions and their logs (Cosmos SDK)\<close>

record Attribute =
  at_Key :: string
  at_Value :: string

record StringEvent =
  sev_Type :: string
  sev_Attributes :: "Attribute list"

record ABCIMessageLog =
  lg_MsgIndex :: uint32
  lg_Events :: "StringEvent list"

definition ABCIMessageLog0 :: ABCIMessageLog where
  "ABCIMessageLog0 = \<lparr>lg_MsgIndex = 0, lg_Events = []\<rparr>"

record Any =
  TypeUrl :: string
  Value :: bytes

record TxResponse =
  r_Height :: int64
  r_TxHash :: string
  r_Codespace :: string
  r_Code :: uint32
  r_RawLog :: string
  r_Logs :: "ABCIMessageLog list"
  r_GasWanted :: int64
  r_GasUsed :: int64
  r_Tx :: "Any option"

record TxBody =
  body_Messages :: "Any list"
  body_Memo :: string

record 'i Fee =
  fee_Amount :: "'i Coin list"

record 'i AuthInfo =
  ai_Fee :: "'i Fee option"

record 'i Tx =
  in_Body :: "TxBody option"
  in_AuthInfo :: "'i AuthInfo option"

subsection \<open>Code outside the repository\<close>

text \<open>An error from outside the repository is known by its text; in an error chain it is
  \<open>ExtError\<close> of that text.\<close>

type_synonym ext_error = string

record ('i, 'd) env =
  SetString_undefined :: "string \<Rightarrow> int"
  Int_String :: "'i \<Rightarrow> string"
  Int_BigInt :: "'i \<Rightarrow> int option"
  Dec_String :: "'d \<Rightarrow> string"
  Dec_BigInt :: "'d \<Rightarrow> int option"
  Coin_String :: "'i Coin \<Rightarrow> string"
  sdk_Precision :: int32
  Logs_String :: "ABCIMessageLog list \<Rightarrow> string"
  Tx_Marshal :: "'i Tx \<Rightarrow> ext_error + bytes"
  Unmarshal_MsgSend :: "bytes \<Rightarrow> ext_error + 'i MsgSend"
  Unmarshal_MsgMultiSend :: "bytes \<Rightarrow> ext_error + 'i MsgMultiSend"
  Unmarshal_MsgVerifyInvariant :: "bytes \<Rightarrow> ext_error + MsgVerifyInvariant"
  Unmarshal_MsgWithdrawValidatorCommission :: "bytes \<Rightarrow> ext_error + MsgWithdrawValidatorCommission"
  Unmarshal_MsgSetWithdrawAddress :: "bytes \<Rightarrow> ext_error + MsgSetWithdrawAddress"
  Unmarshal_MsgWithdrawDelegatorReward :: "bytes \<Rightarrow> ext_error + MsgWithdrawDelegatorReward"
  Unmarshal_MsgFundCommunityPool :: "bytes \<Rightarrow> ext_error + 'i MsgFundCommunityPool"
  Unmarshal_MsgSubmitEvidence :: "bytes \<Rightarrow> ext_error + MsgSubmitEvidence"
  Unmarshal_MsgDeposit :: "bytes \<Rightarrow> ext_error + 'i MsgDeposit"
  Unmarshal_MsgVote :: "bytes \<Rightarrow> ext_error + MsgVote"
  Unmarshal_MsgSubmitProposal :: "bytes \<Rightarrow> ext_error + 'i MsgSubmitProposal"
  Unmarshal_MsgUnjail :: "bytes \<Rightarrow> ext_error + MsgUnjail"
  Unmarshal_MsgUndelegate :: "bytes \<Rightarrow> ext_error + 'i MsgDelegate"
  Unmarshal_MsgDelegate :: "bytes \<Rightarrow> ext_error + 'i MsgDelegate"
  Unmarshal_MsgBeginRedelegate :: "bytes \<Rightarrow> ext_error + 'i MsgBeginRedelegate"
  Unmarshal_MsgCreateValidator :: "bytes \<Rightarrow> ext_error + ('i, 'd) MsgCreateValidator"
  Unmarshal_MsgEditValidator :: "bytes \<Rightarrow> ext_error + ('i, 'd) MsgEditValidator"
  Unmarshal_MsgCreateVestingAccount :: "bytes \<Rightarrow> ext_error + 'i MsgCreateVestingAccount"
  Unmarshal_ibc :: "ibc_msg \<Rightarrow> bytes \<Rightarrow> ext_error option"
  Unmarshal_MsgCreatePool :: "bytes \<Rightarrow> ext_error + 'i MsgCreatePool"
  Unmarshal_MsgDepositWithinBatch :: "bytes \<Rightarrow> ext_error + 'i MsgDepositWithinBatch"
  Unmarshal_MsgWithdrawWithinBatch :: "bytes \<Rightarrow> ext_error + 'i MsgWithdrawWithinBatch"
  Unmarshal_MsgSwapWithinBatch :: "bytes \<Rightarrow> ext_error + ('i, 'd) MsgSwapWithinBatch"

text \<open>A concrete environment, on which the properties that mention one are evaluated: numbers are
  integers printed in decimal, every protobuf message but the field-free IBC ones fails to decode, and
  a failed \<open>SetString\<close> leaves 0.\<close>

definition sample_env :: "(int, int) env" where
  "sample_env =
     \<lparr>SetString_undefined = (\<lambda>_. 0), Int_String = format_int, Int_BigInt = Some,
      Dec_String = format_int, Dec_BigInt = Some, Coin_String = (\<lambda>c. format_int (Amount c) @ Denom c),
      sdk_Precision = 18, Logs_String = (\<lambda>_. []), Tx_Marshal = (\<lambda>_. Inr []),
      Unmarshal_MsgSend = (\<lambda>_. Inl ''unexpected EOF''),
      Unmarshal_MsgMultiSend = (\<lambda>_. Inl ''unexpected EOF''),
      Unmarshal_MsgVerifyInvariant = (\<lambda>_. Inl ''unexpected EOF''),
      Unmarshal_MsgWithdrawValidatorCommission = (\<lambda>_. Inl ''unexpected EOF''),
      Unmarshal_MsgSetWithdrawAddress = (\<lambda>_. Inl ''unexpected EOF''),
      Unmarshal_MsgWithdrawDelegatorReward = (\<lambda>_. Inl ''unexpected EOF''),
      Unmarshal_MsgFundCommunityPool = (\<lambda>_. Inl ''unexpected EOF''),
      Unmarshal_MsgSubmitEvidence = (\<lambda>_. Inl ''unexpected EOF''),
      Unmarshal_MsgDeposit = (\<lambda>_. Inl ''unexpected EOF''),
      Unmarshal_MsgVote = (\<lambda>_. Inl ''unexpected EOF''),
      Unmarshal_MsgSubmitProposal = (\<lambda>_. Inl ''unexpected EOF''),
      Unmarshal_MsgUnjail = (\<lambda>_. Inl ''unexpected EOF''),
      Unmarshal_MsgUndelegate = (\<lambda>_. Inl ''unexpected EOF''),
      Unmarshal_MsgDelegate = (\<lambda>_. Inl ''unexpected EOF''),
      Unmarshal_MsgBeginRedelegate = (\<lambda>_. Inl ''unexpected EOF''),
      Unmarshal_MsgCreateValidator = (\<lambda>_. Inl ''unexpected EOF''),
      Unmarshal_MsgEditValidator = (\<lambda>_. Inl ''unexpected EOF''),
      Unmarshal_MsgCreateVestingAccount = (\<lambda>_. Inl ''unexpected EOF''),
      Unmarshal_ibc = (\<lambda>_ _. None),
      Unmarshal_MsgCreatePool = (\<lambda>_. Inl ''unexpected EOF''),
      Unmarshal_MsgDepositWithinBatch = (\<lambda>_. Inl ''unexpected EOF''),
      Unmarshal_MsgWithdrawWithinBatch = (\<lambda>_. Inl ''unexpected EOF''),
      Unmarshal_MsgSwapWithinBatch = (\<lambda>_. Inl ''unexpected EOF'')\<rparr>"

end
