(* ===== verification/Currency.thy ===== *)
theory Currency
  imports Structs
begin

text \<open>
  \<^verbatim>\<open>src/api/util/currency.go\<close>: splitting an amount such as \<open>100uatom\<close> into its number and its
  currency (\<open>GetCurrency\<close>) and reading the number (\<open>GetCoin\<close>). The lemmas show what a match
  looks like for any text, that the printed form of a coin with a digit-free denomination is read
  back exactly, and that a denomination with a digit in it never comes back.
\<close>

subsection \<open>Definitions\<close>

definition number_class :: "char \<Rightarrow> bool" where
  "number_class c \<longleftrightarrow> is_digit c \<or> c = CHR ''.'' \<or> c = CHR '','' \<or> c = CHR ''-''"

definition space_class :: "char \<Rightarrow> bool" where
  "space_class c \<longleftrightarrow> c \<in> {CHR 0x09, CHR 0x0A, CHR 0x0C, CHR 0x0D, CHR '' ''}"

definition currency_class :: "char \<Rightarrow> bool" where
  "currency_class c \<longleftrightarrow> \<not> is_digit c \<and> \<not> space_class c"

text \<open>The pattern \<^verbatim>\<open>([0-9\.\,\-]+)[\s]*([^0-9\s]+)$\<close>.\<close>

definition curencyRegex :: "rx_item list" where
  "curencyRegex =
     [\<lparr>rx_capture = True, rx_min = 1, rx_class = number_class\<rparr>,
      \<lparr>rx_capture = False, rx_min = 0, rx_class = space_class\<rparr>,
      \<lparr>rx_capture = True, rx_min = 1, rx_class = currency_class\<rparr>]"

definition GetCurrency :: "string \<Rightarrow> string list" where
  "GetCurrency s = FindStringSubmatch curencyRegex s"

text \<open>\<open>number.SetString(s, 10)\<close> with its success flag ignored.\<close>

definition SetString :: "('i, 'd) env \<Rightarrow> string \<Rightarrow> int" where
  "SetString E s = (case SetString10 s of Some n \<Rightarrow> n | None \<Rightarrow> SetString_undefined E s)"

definition GetCoin :: "('i, 'd) env \<Rightarrow> string \<Rightarrow> int \<times> int32 \<times> go_error option" where
  "GetCoin E s =
     (let strs = Split (Replace_all s CHR '','' CHR ''.'') CHR ''.'' in
      if length strs = 1 then (SetString E (strs ! 0), 0, None)
      else if length strs = 2 then
        (SetString E (strs ! 0 @ strs ! 1), word_of_nat (length (strs ! 1)), None)
      else (0, 0, Some (NewError ''Impossible to parse '')))"

text \<open>A denomination the pattern can return: no digit, no white space, and a first character
  that cannot be taken for part of the number.\<close>

definition plain_denom :: "string \<Rightarrow> bool" where
  "plain_denom d \<longleftrightarrow> d \<noteq> [] \<and> list_all currency_class d \<and> \<not> number_class (hd d)"

lemmas class_defs = plain_denom_def currency_class_def number_class_def space_class_def is_digit_def

subsection \<open>Matching\<close>

lemma currency_class_D [dest]: "currency_class c \<Longrightarrow> \<not> is_digit c \<and> \<not> space_class c"
  by (simp add: currency_class_def)

lemma digit_not_space: "is_digit c \<Longrightarrow> \<not> space_class c"
  by (auto simp: space_class_def is_digit_def)

lemma is_digit_number_class [simp]: "is_digit c \<Longrightarrow> number_class c"
  by (simp add: number_class_def)

text \<open>What a match of the pattern is made of.\<close>

lemma rx_match_currencyD:
  assumes "rx_match curencyRegex w = Some gs"
  shows "\<exists>n ws d. w = n @ ws @ d \<and> gs = [n, d] \<and> n \<noteq> [] \<and> list_all number_class n
           \<and> list_all space_class ws \<and> d \<noteq> [] \<and> list_all currency_class d"
  using assms
  by (auto simp: curencyRegex_def simp del: rx_match.simps(2) dest!: rx_match_ConsD split: if_splits)

lemma rx_match_currencyI:
  assumes "n \<noteq> []" and "list_all number_class n" and "list_all space_class ws"
    and "d \<noteq> []" and "list_all currency_class d"
  shows "rx_match curencyRegex (n @ ws @ d) \<noteq> None"
proof -
  let ?star = "\<lparr>rx_capture = False, rx_min = 0, rx_class = space_class\<rparr>"
  let ?plus = "\<lparr>rx_capture = True, rx_min = 1, rx_class = currency_class\<rparr>"
  have "rx_match [?plus] (d @ []) \<noteq> None"
    by (rule rx_match_Cons_complete) (use assms(4,5) in \<open>simp_all add: Suc_le_eq\<close>)
  then have "rx_match [?star, ?plus] (ws @ d) \<noteq> None"
    by (intro rx_match_Cons_complete) (use assms(3) in \<open>simp_all del: rx_match.simps\<close>)
  then show ?thesis
    unfolding curencyRegex_def
    by (rule rx_match_Cons_complete [rotated 2]) (use assms(1,2) in \<open>simp_all add: Suc_le_eq del: rx_match.simps\<close>)
qed

lemma rx_match_plain:
  assumes "n \<noteq> []" and "list_all number_class n" and d: "plain_denom d"
  shows "rx_match curencyRegex (n @ d) = Some [n, d]"
proof -
  let ?star = "\<lparr>rx_capture = False, rx_min = 0, rx_class = space_class\<rparr>"
  let ?plus = "\<lparr>rx_capture = True, rx_min = 1, rx_class = currency_class\<rparr>"
  from d have hd: "d \<noteq> []" "\<not> number_class (hd d)" and cls: "list_all currency_class d"
    by (auto simp: plain_denom_def)
  have "takeWhile currency_class d = d" using cls by (induction d) auto
  then have 1: "rx_match [?plus] d = Some [d]"
    using hd(1) rx_match_ConsI [of ?plus d "[]" "[]" "[]"] by (cases d) simp_all
  have "\<not> space_class (hd d)" using hd(1) cls by (cases d) auto
  then have "takeWhile space_class d = []" using hd(1) by (cases d) auto
  then have 2: "rx_match [?star, ?plus] d = Some [d]"
    using 1 rx_match_ConsI [of ?star "[]" d "[?plus]" "[d]"] by (simp del: rx_match.simps)
  have "takeWhile number_class (n @ d) = n"
    using assms(2) hd(2) by (rule takeWhile_all_then [OF _ disjI2])
  with 2 assms(1) show ?thesis
    unfolding curencyRegex_def by (subst rx_match_ConsI) (simp_all add: Suc_le_eq del: rx_match.simps)
qed

lemma GetCurrency_plain:
  "n \<noteq> [] \<Longrightarrow> list_all number_class n \<Longrightarrow> plain_denom d \<Longrightarrow> GetCurrency (n @ d) = [n @ d, n, d]"
  by (simp add: GetCurrency_def FindStringSubmatch_here rx_match_plain)

lemma GetCurrency_skip:
  "rx_match curencyRegex (y # w) = None \<Longrightarrow> GetCurrency (y # w) = GetCurrency w"
  unfolding GetCurrency_def by (subst FindStringSubmatch.simps) simp

lemma rx_match_no_start: "\<not> number_class c \<Longrightarrow> rx_match curencyRegex (c # w) = None"
proof (rule ccontr)
  assume c: "\<not> number_class c" and "rx_match curencyRegex (c # w) \<noteq> None"
  then obtain gs where "rx_match curencyRegex (c # w) = Some gs" by auto
  from rx_match_currencyD [OF this] obtain n r where "c # w = n @ r" "n \<noteq> []" "list_all number_class n"
    by blast
  with c show False by (cases n) auto
qed

text \<open>No match can start before a character that is neither part of a number nor followed by digit-free
  text only.\<close>

lemma rx_match_blocked:
  assumes "\<not> number_class c" and "q \<noteq> []" and "list_all is_digit q"
  shows "rx_match curencyRegex (x @ c # q @ r) = None"
proof (rule ccontr)
  assume "rx_match curencyRegex (x @ c # q @ r) \<noteq> None"
  then obtain gs where "rx_match curencyRegex (x @ c # q @ r) = Some gs" by auto
  from rx_match_currencyD [OF this] obtain n ws d where eq: "x @ c # q @ r = n @ ws @ d"
    and cls: "list_all number_class n" "list_all space_class ws" "list_all currency_class d"
    by blast
  obtain k q' where q: "q = k # q'" and k: "is_digit k" using assms(2,3) by (cases q) auto
  then have "k \<notin> set (ws @ d)"
    using cls(2,3) digit_not_space [OF k] by (auto simp: list_all_iff)
  moreover from eq q have "(x @ [c]) @ k # q' @ r = n @ (ws @ d)" by simp
  ultimately have "\<exists>u. n = (x @ [c]) @ k # u" by (blast dest: prefix_before_absent)
  then have "c \<in> set n" by auto
  with cls(1) assms(1) show False by (auto simp: list_all_iff)
qed

lemma number_class_digits: "list_all is_digit s \<Longrightarrow> list_all number_class s"
  by (auto simp: list_all_iff)

subsection \<open>Reading the number\<close>

lemma GetCoin_digits:
  assumes "list_all is_digit s"
  shows "GetCoin E s = (SetString E s, 0, None)"
proof -
  have "CHR '','' \<notin> set s" "CHR ''.'' \<notin> set s"
    using assms by (auto dest!: digits_not_in simp: is_digit_def)
  then show ?thesis by (simp add: GetCoin_def Replace_all_absent Split_absent)
qed

lemma GetCoin_format_nat [simp]: "GetCoin E (format_nat n) = (int n, 0, None)"
  by (simp add: GetCoin_digits format_nat_digits SetString_def)

lemma GetCoin_decimal:
  assumes "list_all is_digit a" and "list_all is_digit b"
  shows "GetCoin E (a @ CHR ''.'' # b) = (SetString E (a @ b), word_of_nat (length b), None)"
proof -
  have "CHR '','' \<notin> set a" "CHR ''.'' \<notin> set a" "CHR '','' \<notin> set b" "CHR ''.'' \<notin> set b"
    using assms by (auto dest!: digits_not_in simp: is_digit_def)
  moreover from this have "Replace_all (a @ CHR ''.'' # b) CHR '','' CHR ''.'' = a @ CHR ''.'' # b"
    by (intro Replace_all_absent) auto
  ultimately show ?thesis
    by (simp add: GetCoin_def Split_append Split_absent)
qed


subsection \<open>Properties\<close>

text \<open>
  What \<open>GetCurrency\<close> returns, for every text. It finds nothing exactly when no suffix of the
  text is a number (digits, dots, commas, dashes), white space and a digit-free currency; otherwise it
  returns such a suffix whole, its number part and its currency part.
\<close>

lemma GetCurrency_shape:
  "if \<exists>n ws d. suffix (n @ ws @ d) s \<and> n \<noteq> [] \<and> list_all number_class n
        \<and> list_all space_class ws \<and> d \<noteq> [] \<and> list_all currency_class d
   then \<exists>n ws d. GetCurrency s = [n @ ws @ d, n, d] \<and> suffix (n @ ws @ d) s \<and> n \<noteq> []
        \<and> list_all number_class n \<and> list_all space_class ws \<and> d \<noteq> [] \<and> list_all currency_class d
   else GetCurrency s = []"
proof (cases "GetCurrency s")
  case Nil
  then have none: "rx_match curencyRegex w = None" if "suffix w s" for w
    using that by (simp add: GetCurrency_def FindStringSubmatch_None)
  then show ?thesis using Nil rx_match_currencyI by (metis (lifting))
next
  case (Cons w gs)
  then have w: "suffix w s" "rx_match curencyRegex w = Some gs"
    by (auto simp: GetCurrency_def dest: FindStringSubmatch_suffix)
  from rx_match_currencyD [OF w(2)] show ?thesis using Cons w(1) by auto
qed

text \<open>
  Claim C22: the printed form of a coin, its decimal amount followed by its denomination, is split back
  into exactly the amount and the denomination, and the amount is read back as the same number with
  exponent 0, whenever the denomination has no digit or white space in it and does not start with a
  dot, comma or dash.
\<close>

theorem coin_text_roundtrip:
  assumes "plain_denom d"
  shows "GetCurrency (format_nat n @ d) = [format_nat n @ d, format_nat n, d]
       \<and> GetCoin E (format_nat n) = (int n, 0, None)"
  using assms by (simp add: GetCurrency_plain number_class_digits format_nat_digits)

theorem coin_text_roundtrip_witness:
  "plain_denom ''uatom''
   \<and> GetCurrency (format_nat 100 @ ''uatom'') = [format_nat 100 @ ''uatom'', format_nat 100, ''uatom'']
   \<and> GetCoin sample_env (format_nat 100) = (100, 0, None)"
proof -
  have h: "plain_denom ''uatom''" by (simp add: class_defs)
  show ?thesis using h coin_text_roundtrip [OF h, of 100 sample_env] by simp
qed

text \<open>
  Claim C24: a number with a decimal point (or a decimal comma, which the code turns into a point) is
  read as its digits without the point, with the number of digits after it as the exponent.
\<close>

theorem GetCoin_decimal_value:
  assumes "list_all is_digit a" and "list_all is_digit b" and "a @ b \<noteq> []" and "p \<in> {CHR ''.'', CHR '',''}"
  shows "\<exists>n. scan_digits 0 (a @ b) = Some n \<and>
           GetCoin E (a @ p # b) = (int n, word_of_nat (length b), None)"
proof -
  have ab: "list_all is_digit (a @ b)" using assms(1,2) by simp
  obtain n where n: "scan_digits 0 (a @ b) = Some n" using scan_digits_total [OF ab] by blast
  have "SetString E (a @ b) = int n"
    using n assms(3) ab by (simp add: SetString_def SetString10_digits)
  moreover have "GetCoin E (a @ p # b) = GetCoin E (a @ CHR ''.'' # b)"
    using assms(4) by (auto simp: GetCoin_def Replace_all_def)
  ultimately show ?thesis using n by (simp add: GetCoin_decimal [OF assms(1,2)])
qed

theorem GetCoin_decimal_value_witness:
  "\<exists>n. scan_digits 0 (''12'' @ ''50'') = Some n
     \<and> GetCoin sample_env (''12'' @ CHR '','' # ''50'') = (int n, word_of_nat (length ''50''), None)"
  by (rule GetCoin_decimal_value) (simp_all add: class_defs)

text \<open>A denomination with digits in it is misread. When the text of an amount ends in a
  character that no number can hold, a run of digits and a digit-free rest, only the run of digits
  inside the denomination and the rest come back, whatever stands before: the amount proper is
  lost. IBC denominations such as \<open>ibc/27A\<close> have this form.
\<close>

lemma GetCurrency_digit_denom:
  assumes "\<not> number_class c" and "q \<noteq> []" and "list_all is_digit q" and "plain_denom r"
  shows "GetCurrency (x @ c # q @ r) = [q @ r, q, r]"
proof (induction x)
  case Nil
  show ?case
    using assms rx_match_no_start [of c "q @ r"]
    by (simp add: GetCurrency_skip GetCurrency_plain number_class_digits)
next
  case (Cons y x)
  have "rx_match curencyRegex ((y # x) @ c # q @ r) = None"
    using rx_match_blocked [OF assms(1-3), of "y # x" r] by simp
  with Cons show ?case by (simp add: GetCurrency_skip)
qed

lemma GetCurrency_digit_denom_witness:
  "GetCurrency (''100ibc'' @ CHR ''/'' # ''27'' @ ''A'') = [''27'' @ ''A'', ''27'', ''A'']"
  by (rule GetCurrency_digit_denom) (simp_all add: class_defs)

end
