(* ===== verification/Currency_Scan.thy ===== *)
theory Currency_Scan
  imports Currency
begin

text \<open>
  \<open>GetCurrency\<close> of \<^verbatim>\<open>src/api/util/currency.go\<close> against a reference that does not backtrack: from each position of the
  text, one pass over the characters of a number, the white space and the rest. The only case in which the pattern gives
  a character back is a text that consists of number characters to its end; the last is then the currency.
\<close>

definition amount_here :: "string \<Rightarrow> (string \<times> string) option" where
  "amount_here w =
     (let n = takeWhile number_class w; r = dropWhile number_class w; d = dropWhile space_class r
      in if n = [] then None
         else if d \<noteq> [] \<and> list_all currency_class d then Some (n, d)
         else if r = [] \<and> 2 \<le> length n \<and> currency_class (last n) then Some (butlast n, [last n])
         else None)"

fun scan_amount :: "string \<Rightarrow> string list" where
  "scan_amount [] = []"
| "scan_amount (c # w) = (case amount_here (c # w) of Some (n, d) \<Rightarrow> [c # w, n, d] | None \<Rightarrow> scan_amount w)"

abbreviation spaces_item :: rx_item where
  "spaces_item \<equiv> \<lparr>rx_capture = False, rx_min = 0, rx_class = space_class\<rparr>"

abbreviation currency_item :: rx_item where
  "currency_item \<equiv> \<lparr>rx_capture = True, rx_min = 1, rx_class = currency_class\<rparr>"

lemma takeWhile_list_all: "list_all P xs \<Longrightarrow> takeWhile P xs = xs"
  by (induction xs) auto

lemma rest_match:
  assumes "takeWhile space_class r = ws" "r = ws @ d" "d \<noteq> []" "list_all currency_class d"
  shows "rx_match [spaces_item, currency_item] r = Some [d]"
proof -
  have "rx_match [currency_item] (d @ []) = Some [d]"
    using assms(3,4) rx_match_ConsI [of currency_item d "[]" "[]" "[]"] takeWhile_list_all [OF assms(4)]
    by (simp add: Suc_le_eq del: rx_match.simps(2))
  with assms(1,2) rx_match_ConsI [of spaces_item ws d "[currency_item]" "[d]"] show ?thesis by (simp del: rx_match.simps)
qed

lemma rest_no_match: "rx_match [spaces_item, currency_item] [] = None"
  by simp

lemma amount_greedy:
  assumes "takeWhile number_class w \<noteq> []" "dropWhile space_class (dropWhile number_class w) = d" "d \<noteq> []" "list_all currency_class d"
  shows "rx_match curencyRegex w = Some [takeWhile number_class w, d]"
proof -
  let ?n = "takeWhile number_class w" and ?r = "dropWhile number_class w"
  have "rx_match [spaces_item, currency_item] ?r = Some [d]"
    using assms(2-4) takeWhile_dropWhile_id [of space_class ?r] by (intro rest_match) auto
  with assms(1) rx_match_ConsI [of "\<lparr>rx_capture = True, rx_min = 1, rx_class = number_class\<rparr>" ?n ?r "[spaces_item, currency_item]" "[d]"]
  show ?thesis by (simp add: curencyRegex_def Suc_le_eq del: rx_match.simps)
qed

lemma amount_gives_back:
  assumes "list_all number_class (v @ [x])" "v \<noteq> []" "currency_class x"
  shows "rx_match curencyRegex (v @ [x]) = Some [v, [x]]"
proof -
  let ?K = "rx_match [spaces_item, currency_item]"
  have "\<not> space_class x" using assms(3) by blast
  then have "?K [x] = Some [[x]]" using assms(3) by (intro rest_match [of _ "[]"]) auto
  then have "greedy 1 (length v) ?K (v @ [x]) = Some (v, [[x]])"
    using greedy_first [of ?K "length v" "v @ [x]" "[[x]]" 1] assms(2) by (simp add: Suc_le_eq del: rx_match.simps)
  then have "greedy 1 (Suc (length v)) ?K (v @ [x]) = Some (v, [[x]])"
    using assms(2) rest_no_match by (simp del: rx_match.simps)
  moreover have "length (takeWhile number_class (v @ [x])) = Suc (length v)" using takeWhile_list_all [OF assms(1)] by simp
  ultimately show ?thesis
    unfolding curencyRegex_def rx_match.simps(2) [of "\<lparr>rx_capture = True, rx_min = 1, rx_class = number_class\<rparr>"]
    by (simp del: rx_match.simps greedy.simps)
qed

text \<open>No other text has an amount at its start.\<close>

lemma amount_none:
  assumes "rx_match curencyRegex w = Some gs"
  shows "amount_here w \<noteq> None"
proof -
  from rx_match_currencyD [OF assms] obtain n ws d where w: "w = n @ ws @ d" "n \<noteq> []" "list_all number_class n"
    "list_all space_class ws" "d \<noteq> []" "list_all currency_class d" by blast
  let ?n = "takeWhile number_class w" and ?r = "dropWhile number_class w"
  have ne: "?n \<noteq> []" using w(1-3) by (cases n) auto
  have split: "?r = dropWhile number_class (ws @ d)" using w(1,3) by (simp add: list_all_iff)
  show ?thesis
  proof (cases "dropWhile space_class ?r = []")
    case False
    have "list_all currency_class (dropWhile space_class ?r)"
    proof (cases ws)
      case Nil
      then have "set ?r \<subseteq> set d" using split set_dropWhileD by fastforce
      then show ?thesis using w(6) set_dropWhileD [of _ space_class ?r] by (auto simp: list_all_iff)
    next
      case (Cons x xs)
      then have "\<not> number_class x" using w(4) by (auto simp: class_defs)
      with Cons split have "?r = ws @ d" by simp
      then have "dropWhile space_class ?r = d"
        using w(4-6) by (cases d) (auto simp: list_all_iff)
      with w(6) show ?thesis by simp
    qed
    with False ne show ?thesis by (simp add: amount_here_def Let_def)
  next
    case True
    have "set ?r \<inter> set d = {}" using True w(6) by (auto simp: list_all_iff dropWhile_eq_Nil_conv)
    have "ws = []"
    proof (rule ccontr)
      assume "ws \<noteq> []"
      then obtain x xs where x: "ws = x # xs" "\<not> number_class x" using w(4) by (cases ws) (auto simp: class_defs)
      with split have "set d \<subseteq> set ?r" by auto
      with \<open>set ?r \<inter> set d = {}\<close> w(5) show False by (cases d) auto
    qed
    with split w(6) True have "?r = []" using set_dropWhileD [of _ number_class d] \<open>set ?r \<inter> set d = {}\<close>
      by (metis Int_absorb2 append_Nil set_empty subsetI)
    then have all: "?n = w" by (metis append.right_neutral takeWhile_dropWhile_id)
    have "2 \<le> length w" using w(1,2,5) by (cases n; cases d) auto
    moreover have "currency_class (last w)" using w(1,5,6) \<open>ws = []\<close> by (simp add: list_all_iff)
    ultimately show ?thesis using ne by (simp add: amount_here_def Let_def all \<open>?r = []\<close> del: dropWhile_eq_Nil_conv)
  qed
qed

lemma amount_here_cases:
  assumes "amount_here w = Some (n, d)"
  obtains (longest) "takeWhile number_class w \<noteq> []" "n = takeWhile number_class w"
      "dropWhile space_class (dropWhile number_class w) = d" "d \<noteq> []" "list_all currency_class d"
  | (gives_last) v x where "w = v @ [x]" "list_all number_class w" "v \<noteq> []" "currency_class x" "n = v" "d = [x]"
proof (cases "takeWhile number_class w \<noteq> [] \<and> dropWhile space_class (dropWhile number_class w) \<noteq> []
     \<and> list_all currency_class (dropWhile space_class (dropWhile number_class w))")
  case True
  with assms have "n = takeWhile number_class w" "d = dropWhile space_class (dropWhile number_class w)"
    by (simp_all add: amount_here_def Let_def)
  with True show thesis by (intro longest) simp_all
next
  case False
  then have "dropWhile number_class w = [] \<and> 2 \<le> length (takeWhile number_class w) \<and> currency_class (last (takeWhile number_class w))
      \<and> n = butlast (takeWhile number_class w) \<and> d = [last (takeWhile number_class w)]"
    using assms unfolding amount_here_def Let_def by (simp del: dropWhile_eq_Nil_conv split: if_split_asm)
  moreover from this have "takeWhile number_class w = w" by (metis append.right_neutral takeWhile_dropWhile_id)
  moreover from this have "list_all number_class w" by (metis list_all_iff set_takeWhileD)
  ultimately show thesis by (intro gives_last [of "butlast w" "last w"]) (cases w rule: rev_cases; force)+
qed

lemma rx_match_amount: "rx_match curencyRegex w = map_option (\<lambda>(n, d). [n, d]) (amount_here w)"
proof (cases "amount_here w")
  case None
  then have "rx_match curencyRegex w = None" using amount_none by (metis not_None_eq)
  with None show ?thesis by simp
next
  case (Some nd)
  obtain n d where nd: "nd = (n, d)" by (cases nd)
  with Some have nd': "amount_here w = Some (n, d)" by simp
  then have "rx_match curencyRegex w = Some [n, d]"
  proof (cases rule: amount_here_cases)
    case longest
    with amount_greedy show ?thesis by metis
  next
    case (gives_last v x)
    with amount_gives_back show ?thesis by metis
  qed
  with nd' show ?thesis by simp
qed

lemma GetCurrency_Nil: "GetCurrency [] = []"
  unfolding GetCurrency_def by (subst FindStringSubmatch.simps) (simp add: rx_match_amount amount_here_def)

text \<open>Claim C23: the pattern with its backtracking is a single scan: on every input, \<open>GetCurrency\<close> returns what is found by
  going through the text from the left and taking, at the first position where it succeeds, the longest run of number
  characters, then white space, then everything to the end, which must be free of digits and white space.\<close>

theorem GetCurrency_is_scan: "GetCurrency s = scan_amount s"
proof (induction s)
  case Nil
  then show ?case by (simp add: GetCurrency_Nil)
next
  case (Cons c w)
  show ?case
  proof (cases "amount_here (c # w)")
    case None
    then have "rx_match curencyRegex (c # w) = None" by (simp add: rx_match_amount)
    from GetCurrency_skip [OF this] Cons None show ?thesis by simp
  next
    case (Some nd)
    then have "rx_match curencyRegex (c # w) = Some [fst nd, snd nd]" by (simp add: rx_match_amount case_prod_beta)
    from FindStringSubmatch_here [OF this] Some show ?thesis by (simp add: GetCurrency_def case_prod_beta)
  qed
qed

end
