(* ===== verification/Transfers.thy ===== *)
theory Transfers
  imports Currency
begin

text \<open>
  \<^verbatim>\<open>src/api/mapper/transfers.go\<close>: \<open>produceTransfers\<close> reads the \<open>transfer\<close> events of a message's log
  and files the amounts under the recipient named last. The loops of the source are one definition
  each: over the comma-separated amounts, over the attributes of an event, over the events of the log.
  The lemmas show that no transfer is ever filed under the skipped address, that only the requested
  kind of transfer changes, and that a well-formed log is read back completely and in order.
\<close>

subsection \<open>Definitions\<close>

definition amount_error :: "string \<Rightarrow> go_error \<Rightarrow> go_error" where
  "amount_error amt ce = NewError
     (''[COSMOS-API] Error parsing amount '' @ [CHR 0x27] @ amt @ [CHR 0x27] @ '': '' @ Error ce @ '' '')"

text \<open>One amount of an attribute (the body of the innermost loop).\<close>

definition transfer_amount :: "('i, 'd) env \<Rightarrow> string \<Rightarrow> TransactionAmount list \<Rightarrow> TransactionAmount list result" where
  "transfer_amount E amt amts =
     (let sliced = GetCurrency amt;
          currency = (if length sliced = 3 then sliced ! 2 else []);
          (c, exp, coinErr) = (if length sliced = 3 then GetCoin E (sliced ! 1) else GetCoin E amt)
      in case coinErr of
           Some ce \<Rightarrow>
             Ret (amts, Some (amount_error amt ce))
         | None \<Rightarrow>
             Ret (amts @ [\<lparr>ta_Text = amt, ta_Numeric = Some c, ta_Currency = currency, ta_Exp = exp\<rparr>], None))"

text \<open>One attribute: the state is the latest recipient and the transfers collected so far.\<close>

definition transfer_attr ::
  "('i, 'd) env \<Rightarrow> string \<Rightarrow> Attribute \<Rightarrow> string \<times> EventTransfer list \<Rightarrow> (string \<times> EventTransfer list) result" where
  "transfer_attr E skipAddr attr st =
     (let (latest, evts) = st;
          latestRecipient = (if at_Key attr = ''recipient'' then at_Value attr else latest)
      in if latestRecipient = skipAddr then Ret ((latestRecipient, evts), None)
         else if at_Key attr = ''amount'' then
           bind_go (for_go (transfer_amount E) (Split (at_Value attr) CHR '','') []) (\<lambda>(amts, err).
             case err of
               Some e \<Rightarrow> Ret ((latestRecipient, evts), Some e)
             | None \<Rightarrow>
                 Ret ((latestRecipient,
                       evts @ [\<lparr>et_Account = Account_ID latestRecipient, et_Amounts = amts\<rparr>]), None))
         else Ret ((latestRecipient, evts), None))"

definition transfer_event ::
  "('i, 'd) env \<Rightarrow> string \<Rightarrow> StringEvent \<Rightarrow> EventTransfer list \<Rightarrow> EventTransfer list result" where
  "transfer_event E skipAddr ev evts =
     (if sev_Type ev \<noteq> ''transfer'' then Ret (evts, None)
      else bind_go (for_go (transfer_attr E skipAddr) (sev_Attributes ev) ([], evts))
             (\<lambda>((latest, evts'), err). Ret (evts', err)))"

definition produceTransfers ::
  "('i, 'd) env \<Rightarrow> SubsetEvent \<Rightarrow> string \<Rightarrow> string \<Rightarrow> ABCIMessageLog \<Rightarrow> SubsetEvent result" where
  "produceTransfers E se transferType skipAddr lg =
     bind_go (for_go (transfer_event E skipAddr) (lg_Events lg) []) (\<lambda>(evts, err).
       case err of
         Some e \<Rightarrow> Ret (se, Some e)
       | None \<Rightarrow>
           if evts = [] then Ret (se, None)
           else
             let transfers = (case se_Transfers se transferType of
                                None \<Rightarrow> Map.empty
                              | Some old \<Rightarrow> if old = [] then Map.empty else se_Transfers se)
             in Ret (se\<lparr>se_Transfers := transfers(transferType \<mapsto> evts)\<rparr>, None))"

text \<open>A transfer as the chain logs it: a recipient, a sender and a list of coins. \<open>transfer_log\<close> is
  the attribute list of a \<open>transfer\<close> event that reports several of them.\<close>

type_synonym logged = "string \<times> string \<times> (nat \<times> string) list"

definition coin_text :: "nat \<times> string \<Rightarrow> string" where
  "coin_text = (\<lambda>(n, d). format_nat n @ d)"

definition transfer_attrs :: "logged \<Rightarrow> Attribute list" where
  "transfer_attrs = (\<lambda>(r, s, cs).
     [\<lparr>at_Key = ''recipient'', at_Value = r\<rparr>, \<lparr>at_Key = ''sender'', at_Value = s\<rparr>,
      \<lparr>at_Key = ''amount'', at_Value = Join (map coin_text cs) CHR '',''\<rparr>])"

definition transfer_log :: "logged list \<Rightarrow> StringEvent" where
  "transfer_log ts = \<lparr>sev_Type = ''transfer'', sev_Attributes = concat (map transfer_attrs ts)\<rparr>"

definition coin_amount :: "nat \<times> string \<Rightarrow> TransactionAmount" where
  "coin_amount = (\<lambda>(n, d). \<lparr>ta_Text = format_nat n @ d, ta_Numeric = Some (int n), ta_Currency = d, ta_Exp = 0\<rparr>)"

definition expected_transfers :: "string \<Rightarrow> logged list \<Rightarrow> EventTransfer list" where
  "expected_transfers skip ts =
     [\<lparr>et_Account = Account_ID r, et_Amounts = map coin_amount cs\<rparr>. (r, s, cs) \<leftarrow> ts, r \<noteq> skip]"

definition well_logged :: "logged \<Rightarrow> bool" where
  "well_logged = (\<lambda>(r, s, cs). cs \<noteq> [] \<and> list_all (\<lambda>(n, d). plain_denom d \<and> CHR '','' \<notin> set d) cs)"

subsection \<open>No panics\<close>

lemma transfer_amount_returns: "returns (transfer_amount E amt amts)"
  by (simp add: transfer_amount_def Let_def split: option.splits prod.splits)

lemma transfer_attr_returns: "returns (transfer_attr E skip attr st)"
proof -
  have "returns (for_go (transfer_amount E) (Split (at_Value attr) CHR '','') [])"
    by (rule for_go_returns) (rule transfer_amount_returns)
  then show ?thesis
    by (auto simp: transfer_attr_def Let_def returns_iff split: prod.splits option.splits)
qed

lemma transfer_event_returns: "returns (transfer_event E skip ev evts)"
proof -
  have "returns (for_go (transfer_attr E skip) (sev_Attributes ev) ([], evts))"
    by (rule for_go_returns) (rule transfer_attr_returns)
  then show ?thesis by (auto simp: transfer_event_def returns_iff)
qed

lemma produceTransfers_returns: "\<exists>se' err. produceTransfers E se t skip lg = Ret (se', err)"
proof -
  have "returns (for_go (transfer_event E skip) (lg_Events lg) [])"
    by (rule for_go_returns) (rule transfer_event_returns)
  then show ?thesis
    by (auto simp: produceTransfers_def Let_def returns_iff split: option.splits)
qed

subsection \<open>Only the transfers change\<close>

lemma produceTransfers_frame:
  assumes "produceTransfers E se t skip lg = Ret (se', err)"
  shows "\<exists>m. se' = se\<lparr>se_Transfers := m\<rparr>"
  using assms
  by (auto simp: produceTransfers_def Let_def go_simps split: option.splits if_splits
      intro: exI [of _ "se_Transfers se"])

lemma produceTransfers_fields:
  assumes "produceTransfers E se t skip lg = Ret (se', err)"
  shows "se_Type se' = se_Type se" and "se_Module se' = se_Module se" and "se_Node se' = se_Node se"
    and "se_Sender se' = se_Sender se" and "se_Recipient se' = se_Recipient se"
    and "se_Amount se' = se_Amount se" and "se_Additional se' = se_Additional se"
    and "se_Error se' = se_Error se"
  using produceTransfers_frame [OF assms] by auto

lemma produceTransfers_header:
  "produceTransfers E se t skip lg = Ret (se', err) \<Longrightarrow> se_Type se' = se_Type se \<and> se_Module se' = se_Module se"
  by (auto dest!: produceTransfers_frame)

lemma produceTransfers_no_wrap:
  assumes "produceTransfers E se t skip lg = Ret (se', Some e)"
  shows "\<not> errors_Is e ErrUnknownMessageType"
proof -
  from assms obtain evts where "for_go (transfer_event E skip) (lg_Events lg) [] = Ret (evts, Some e)"
    by (auto simp: produceTransfers_def go_simps Let_def split: option.splits if_splits)
  from for_go_error [OF this] obtain ev s where "transfer_event E skip ev s = Ret (evts, Some e)"
    by blast
  then obtain st st' where "for_go (transfer_attr E skip) (sev_Attributes ev) st = Ret (st', Some e)"
    by (auto simp: transfer_event_def go_simps split: if_splits)
  from for_go_error [OF this] obtain attr st where "transfer_attr E skip attr st = Ret (st', Some e)"
    by blast
  then obtain amts where
      "for_go (transfer_amount E) (Split (at_Value attr) CHR '','') [] = Ret (amts, Some e)"
    by (auto simp: transfer_attr_def go_simps Let_def split: if_splits prod.splits option.splits)
  from for_go_error [OF this] obtain amt s where "transfer_amount E amt s = Ret (amts, Some e)"
    by blast
  then show ?thesis
    by (auto simp: transfer_amount_def amount_error_def Let_def split: if_splits prod.splits option.splits)
qed

subsection \<open>The skipped address\<close>

definition none_for :: "string \<Rightarrow> EventTransfer list \<Rightarrow> bool" where
  "none_for skip evts \<longleftrightarrow> list_all (\<lambda>et. ac_ID (et_Account et) \<noteq> skip) evts"

lemma transfer_attr_none_for [go_inv]:
  "none_for skip (snd st) \<Longrightarrow> transfer_attr E skip attr st = Ret (st', err) \<Longrightarrow> none_for skip (snd st')"
  by (auto simp: transfer_attr_def none_for_def Account_ID_def Let_def go_simps
      split: prod.splits option.splits if_splits)

lemma transfer_event_none_for [go_inv]:
  assumes "none_for skip evts" and "transfer_event E skip ev evts = Ret (evts', err)"
  shows "none_for skip evts'"
proof (cases "sev_Type ev = ''transfer''")
  case True
  with assms(2) obtain latest where
      "for_go (transfer_attr E skip) (sev_Attributes ev) ([], evts) = Ret ((latest, evts'), err)"
    by (auto simp: transfer_event_def go_simps)
  then have "none_for skip (snd (latest, evts'))"
    by (rule for_go_invariant [where I = "\<lambda>st. none_for skip (snd st)"])
      (use assms(1) in \<open>auto intro: transfer_attr_none_for\<close>)
  then show ?thesis by simp
next
  case False
  with assms show ?thesis by (simp add: transfer_event_def)
qed

lemma produceTransfers_cases:
  assumes "produceTransfers E se t skip lg = Ret (se', err)"
  obtains (unchanged) "se' = se"
    | (filed) evts m where "for_go (transfer_event E skip) (lg_Events lg) [] = Ret (evts, None)" "evts \<noteq> []"
        "se' = se\<lparr>se_Transfers := m(t \<mapsto> evts)\<rparr>" "m = Map.empty \<or> m = se_Transfers se" "err = None"
  using assms by (auto simp: produceTransfers_def Let_def go_simps split: option.splits if_splits)

text \<open>If no filed transfer named the skipped account before, none does afterwards.\<close>

lemma produceTransfers_none_for:
  assumes "produceTransfers E se t skip lg = Ret (se', err)"
    and old: "\<And>k evts. se_Transfers se k = Some evts \<Longrightarrow> none_for skip evts"
    and new: "se_Transfers se' k = Some evts"
  shows "none_for skip evts"
  using assms(1)
proof (cases rule: produceTransfers_cases)
  case unchanged
  with old new show ?thesis by blast
next
  case (filed filed_evts m)
  from filed(1) have "none_for skip filed_evts"
    by (rule for_go_invariant [where I = "none_for skip"])
      (auto intro: transfer_event_none_for simp: none_for_def [of skip "[]"])
  with filed(3,4) old new show ?thesis by (auto split: if_splits)
qed

subsection \<open>Well-formed logs\<close>

lemma comma_coin_text [simp]: "CHR '','' \<in> set (coin_text (n, d)) \<longleftrightarrow> CHR '','' \<in> set d"
  using digits_not_in [OF format_nat_digits, of "CHR '',''"] by (auto simp: coin_text_def is_digit_def)

lemma transfer_amount_coin:
  "(case c of (n, d) \<Rightarrow> plain_denom d) \<Longrightarrow> transfer_amount E (coin_text c) amts = Ret (amts @ [coin_amount c], None)"
  by (auto simp: transfer_amount_def coin_text_def coin_amount_def GetCurrency_plain
      number_class_digits format_nat_digits)

lemma for_transfer_coins:
  "list_all (\<lambda>(n, d). plain_denom d) cs \<Longrightarrow>
   for_go (transfer_amount E) (map coin_text cs) amts = Ret (amts @ map coin_amount cs, None)"
  by (induction cs arbitrary: amts) (auto simp: transfer_amount_coin)

lemma for_transfer_amount:
  assumes "well_logged (r, s, cs)"
  shows "for_go (transfer_amount E) (Split (Join (map coin_text cs) CHR '','') CHR '','') [] =
           Ret (map coin_amount cs, None)"
proof -
  from assms have "Split (Join (map coin_text cs) CHR '','') CHR '','' = map coin_text cs"
    by (intro Split_Join) (auto simp: well_logged_def list_all_iff)
  moreover from assms have "list_all (\<lambda>(n, d). plain_denom d) cs"
    by (auto simp: well_logged_def list_all_iff)
  ultimately show ?thesis by (simp add: for_transfer_coins)
qed

lemma for_transfer_attrs:
  assumes "list_all well_logged ts"
  shows "\<exists>l'. for_go (transfer_attr E skip) (concat (map transfer_attrs ts)) (l, evts) =
               Ret ((l', evts @ expected_transfers skip ts), None)"
  using assms
proof (induction ts arbitrary: l evts)
  case Nil
  then show ?case by (simp add: expected_transfers_def)
next
  case (Cons t ts)
  obtain r s cs where t: "t = (r, s, cs)" by (cases t)
  let ?new = "expected_transfers skip [t]"
  have "for_go (transfer_attr E skip) (transfer_attrs t @ rest) (l, evts) =
          for_go (transfer_attr E skip) rest (r, evts @ ?new)" for rest
    using Cons.prems t for_transfer_amount [of r s cs E]
    by (auto simp: transfer_attrs_def transfer_attr_def expected_transfers_def)
  moreover have "?new @ expected_transfers skip ts = expected_transfers skip (t # ts)"
    by (simp add: expected_transfers_def)
  ultimately show ?case
    using Cons.IH [of r "evts @ ?new"] Cons.prems by simp
qed

lemma transfer_event_log:
  assumes "list_all well_logged ts"
  shows "transfer_event E skip (transfer_log ts) evts = Ret (evts @ expected_transfers skip ts, None)"
  using for_transfer_attrs [OF assms, of E skip "[]" evts]
  by (auto simp: transfer_event_def transfer_log_def)

lemma produceTransfers_log:
  assumes "list_all (\<lambda>e. case e of Inl other \<Rightarrow> sev_Type other \<noteq> ''transfer'' | Inr ts \<Rightarrow> list_all well_logged ts) es"
    and "se_Transfers se = Map.empty"
  shows "produceTransfers E se t skip \<lparr>lg_MsgIndex = i, lg_Events = map (case_sum id transfer_log) es\<rparr> =
     (let evts = expected_transfers skip (concat (map (case_sum (\<lambda>_. []) id) es))
      in Ret (if evts = [] then se else se\<lparr>se_Transfers := [t \<mapsto> evts]\<rparr>, None))"
proof -
  have "for_go (transfer_event E skip) (map (case_sum id transfer_log) es) evts =
          Ret (evts @ expected_transfers skip (concat (map (case_sum (\<lambda>_. []) id) es)), None)" for evts
    using assms(1)
  proof (induction es arbitrary: evts)
    case Nil
    then show ?case by (simp add: expected_transfers_def)
  next
    case (Cons e es)
    show ?case
    proof (cases e)
      case (Inl other)
      then have "transfer_event E skip other evts = Ret (evts, None)"
        using Cons.prems by (simp add: transfer_event_def)
      with Inl Cons show ?thesis by simp
    next
      case (Inr ts)
      with Cons show ?thesis by (simp add: transfer_event_log expected_transfers_def)
    qed
  qed
  then show ?thesis using assms(2) by (simp add: produceTransfers_def Let_def)
qed

subsection \<open>Property\<close>

text \<open>
  Claim C21: a log in which every \<open>transfer\<close> event reports its transfers as recipient, sender and a
  comma-separated list of coins is read completely and in order: the filed list has, for every reported
  transfer whose recipient is not skipped, one entry with that recipient and all of its coins with
  their exact numbers. Events of other types do not contribute.
\<close>

theorem produceTransfers_complete:
  assumes "list_all (\<lambda>e. case e of Inl other \<Rightarrow> sev_Type other \<noteq> ''transfer'' | Inr ts \<Rightarrow> list_all well_logged ts) es"
    and "se_Transfers se = Map.empty"
  shows "produceTransfers E se t skip \<lparr>lg_MsgIndex = i, lg_Events = map (case_sum id transfer_log) es\<rparr> =
     (let evts = expected_transfers skip (concat (map (case_sum (\<lambda>_. []) id) es))
      in Ret (if evts = [] then se else se\<lparr>se_Transfers := [t \<mapsto> evts]\<rparr>, None))"
  using assms by (rule produceTransfers_log)

theorem produceTransfers_complete_witness:
  "produceTransfers sample_env SubsetEvent0 ''reward'' ''pool''
     \<lparr>lg_MsgIndex = 0, lg_Events = map (case_sum id transfer_log)
        [Inl \<lparr>sev_Type = ''message'', sev_Attributes = []\<rparr>,
         Inr [(''pool'', ''s'', [(5, ''uatom'')]), (''alice'', ''s'', [(7, ''uatom''), (8, ''stake'')])]]\<rparr>
   = Ret (SubsetEvent0\<lparr>se_Transfers := [''reward'' \<mapsto>
       [\<lparr>et_Account = Account_ID ''alice'', et_Amounts = [coin_amount (7, ''uatom''), coin_amount (8, ''stake'')]\<rparr>]]\<rparr>, None)"
proof -
  let ?es = "[Inl \<lparr>sev_Type = ''message'', sev_Attributes = []\<rparr>,
     Inr [(''pool'', ''s'', [(5, ''uatom'')]), (''alice'', ''s'', [(7, ''uatom''), (8, ''stake'')])]]
     :: (StringEvent + logged list) list"
  have h: "list_all (\<lambda>e. case e of Inl other \<Rightarrow> sev_Type other \<noteq> ''transfer'' | Inr ts \<Rightarrow> list_all well_logged ts) ?es"
    by (simp add: well_logged_def class_defs)
  show ?thesis
    using produceTransfers_complete [OF h, of SubsetEvent0 sample_env "''reward''" "''pool''" 0]
    by (simp add: SubsetEvent0_def expected_transfers_def)
qed

end
