(* ===== verification/Mapper_Contract.thy ===== *)
theory Mapper_Contract
  imports Transfers
begin

text \<open>
  What every mapper of \<^verbatim>\<open>src/api/mapper\<close> has in common: it decodes one protobuf message into a
  \<open>SubsetEvent\<close>, and fails with a wrapped decoding error and an empty event when the bytes are not of
  its message type. \<open>sub_mapper\<close> is the contract the transaction code relies on: on success the event
  has exactly the mapper's type and module; on failure it has that type or none, and the error is never
  the one that marks an unknown message type. Every mapper is an interpretation of it.
\<close>

text \<open>\<open>if err := proto.Unmarshal(msg, m); err != nil { return se, fmt.Errorf(pre + "%w", err) }\<close>.\<close>

definition with_msg ::
  "ext_error + 'm \<Rightarrow> string \<Rightarrow> ('m \<Rightarrow> SubsetEvent result) \<Rightarrow> SubsetEvent result" where
  "with_msg r pre k =
     (case r of Inl e \<Rightarrow> Ret (SubsetEvent0, Some (Errorf_w pre (ExtError e) [])) | Inr m \<Rightarrow> k m)"

text \<open>A coin with the text of its amount, and a coin with its whole text. Other files repeat the first of them; each has a
  definition of its own there, shown to be the same.\<close>

definition coin_ta :: "('i, 'd) env \<Rightarrow> 'i Coin \<Rightarrow> TransactionAmount" where
  "coin_ta E c = TransactionAmount0\<lparr>ta_Currency := Denom c, ta_Numeric := Int_BigInt E (Amount c),
     ta_Text := Int_String E (Amount c)\<rparr>"

definition coin_full_ta :: "('i, 'd) env \<Rightarrow> 'i Coin \<Rightarrow> TransactionAmount" where
  "coin_full_ta E c = TransactionAmount0\<lparr>ta_Currency := Denom c, ta_Numeric := Int_BigInt E (Amount c),
     ta_Text := Coin_String E c\<rparr>"

definition int_ta :: "('i, 'd) env \<Rightarrow> 'i \<Rightarrow> TransactionAmount" where
  "int_ta E i = TransactionAmount0\<lparr>ta_Text := Int_String E i, ta_Numeric := Int_BigInt E i\<rparr>"

definition dec_ta :: "('i, 'd) env \<Rightarrow> 'd \<Rightarrow> TransactionAmount" where
  "dec_ta E d = TransactionAmount0\<lparr>ta_Text := Dec_String E d, ta_Numeric := Dec_BigInt E d\<rparr>"

locale sub_mapper =
  fixes toSub :: "bytes \<Rightarrow> ABCIMessageLog \<Rightarrow> SubsetEvent result" and kind :: string and modul :: string
  assumes mapped: "toSub msg lg = Ret (se, None) \<Longrightarrow> se_Type se = [kind] \<and> se_Module se = modul"
    and failed: "toSub msg lg = Ret (se, Some e) \<Longrightarrow>
      (se_Type se = [] \<or> se_Type se = [kind]) \<and> \<not> errors_Is e ErrUnknownMessageType"

text \<open>How a mapper that decodes and then continues with \<open>k\<close> fulfils the contract.\<close>

lemma with_msg_cases:
  assumes "with_msg r pre k = Ret (se, err)"
  obtains (undecoded) e where "r = Inl e" "se = SubsetEvent0" "err = Some (Errorf_w pre (ExtError e) [])"
    | (decoded) m where "r = Inr m" "k m = Ret (se, err)"
  using assms by (auto simp: with_msg_def split: sum.splits)

lemma with_msg_mapped:
  assumes "with_msg r pre k = Ret (se, None)" and "\<And>m se. k m = Ret (se, None) \<Longrightarrow> P se"
  shows "P se"
  using assms by (auto simp: with_msg_def split: sum.splits)

lemma with_msg_failed:
  assumes "with_msg r pre k = Ret (se, Some e)"
    and "\<And>m se e. k m = Ret (se, Some e) \<Longrightarrow> (se_Type se = [] \<or> se_Type se = t) \<and> \<not> errors_Is e ErrUnknownMessageType"
  shows "(se_Type se = [] \<or> se_Type se = t) \<and> \<not> errors_Is e ErrUnknownMessageType"
proof (cases r)
  case (Inl x)
  with assms(1) have "se = SubsetEvent0" "e = Errorf_w pre (ExtError x) []"
    by (auto simp: with_msg_def)
  then show ?thesis by (simp add: SubsetEvent0_def)
next
  case (Inr m)
  with assms show ?thesis by (auto simp: with_msg_def)
qed

text \<open>A mapper that ends by reading the transfers of its log, or by returning the event it built.\<close>

lemma sub_mapper_transfers:
  assumes "\<And>msg lg. toSub msg lg =
      with_msg (dec msg) pre (\<lambda>m. produceTransfers E (se m) t skip lg)"
    and "\<And>m. se_Type (se m) = [kind]" and "\<And>m. se_Module (se m) = modul"
  shows "sub_mapper toSub kind modul"
proof
  fix msg lg s
  assume "toSub msg lg = Ret (s, None)"
  then show "se_Type s = [kind] \<and> se_Module s = modul"
    unfolding assms(1) by (rule with_msg_mapped) (auto dest: produceTransfers_fields simp: assms)
next
  fix msg lg s e
  assume "toSub msg lg = Ret (s, Some e)"
  then show "(se_Type s = [] \<or> se_Type s = [kind]) \<and> \<not> errors_Is e ErrUnknownMessageType"
    unfolding assms(1)
    by (rule with_msg_failed) (auto dest: produceTransfers_fields produceTransfers_no_wrap simp: assms)
qed

lemma sub_mapper_plain:
  assumes "\<And>msg lg. toSub msg lg = with_msg (dec msg) pre (\<lambda>m. Ret (se m, None))"
    and "\<And>m. se_Type (se m) = [kind]" and "\<And>m. se_Module (se m) = modul"
  shows "sub_mapper toSub kind modul"
  using assms by unfold_locales (auto simp: with_msg_def SubsetEvent0_def split: sum.splits)

end
