(* ===== verification/Mapper_Cosmos.thy ===== *)
theory Mapper_Cosmos
  imports Mapper_Contract
begin

text \<open>
  The mappers for the messages of the Cosmos SDK modules: \<^verbatim>\<open>bank.go\<close>, \<^verbatim>\<open>crisis.go\<close>,
  \<^verbatim>\<open>distribution.go\<close>, \<^verbatim>\<open>evidence.go\<close>, \<^verbatim>\<open>gov.go\<close>, \<^verbatim>\<open>slashing.go\<close>, \<^verbatim>\<open>staking.go\<close> and
  \<^verbatim>\<open>vesting.go\<close> of \<^verbatim>\<open>src/api/mapper\<close>, one definition per function, in that order. Each is shown to
  fulfil the contract \<open>sub_mapper\<close>; the properties say what becomes of the coins of a message: who gets
  them, that none is lost when they are filed under numbered keys, and where the code fails.
\<close>

subsection \<open>bank.go\<close>

definition bankProduceEvTx :: "('i, 'd) env \<Rightarrow> string \<Rightarrow> 'i Coin list \<Rightarrow> EventTransfer \<times> go_error option" where
  "bankProduceEvTx E account coins =
     (let evt = \<lparr>et_Account = Account_ID account, et_Amounts = []\<rparr>
      in (if coins \<noteq> [] then evt\<lparr>et_Amounts := map (coin_ta E) coins\<rparr> else evt, None))"

text \<open>\<open>for _, i := range ...: evt, err := bankProduceEvTx(...); if err != nil { continue }; append\<close>.\<close>

definition multisend_side :: "('i, 'd) env \<Rightarrow> 'i InOutput list \<Rightarrow> EventTransfer list" where
  "multisend_side E ios =
     concat (map (\<lambda>io. case bankProduceEvTx E (io_Address io) (io_Coins io) of
                         (evt, None) \<Rightarrow> [evt] | (evt, Some e) \<Rightarrow> []) ios)"

definition BankMultisendToSub :: "('i, 'd) env \<Rightarrow> bytes \<Rightarrow> ABCIMessageLog \<Rightarrow> SubsetEvent result" where
  "BankMultisendToSub E msg lg =
     with_msg (Unmarshal_MsgMultiSend E msg) ''Not a multisend type: '' (\<lambda>multisend.
       let se = SubsetEvent0\<lparr>se_Type := [''multisend''], se_Module := ''bank'',
             se_Sender := multisend_side E (ms_Inputs multisend),
             se_Recipient := multisend_side E (ms_Outputs multisend)\<rparr>
       in produceTransfers E se ''send'' [] lg)"

definition BankSendToSub :: "('i, 'd) env \<Rightarrow> bytes \<Rightarrow> ABCIMessageLog \<Rightarrow> SubsetEvent result" where
  "BankSendToSub E msg lg =
     with_msg (Unmarshal_MsgSend E msg) ''Not a send type: '' (\<lambda>send.
       let se = SubsetEvent0\<lparr>se_Type := [''send''], se_Module := ''bank'',
             se_Sender := [fst (bankProduceEvTx E (send_FromAddress send) (send_Amount send))],
             se_Recipient := [fst (bankProduceEvTx E (send_ToAddress send) (send_Amount send))]\<rparr>
       in produceTransfers E se ''send'' [] lg)"

subsection \<open>crisis.go\<close>

definition CrisisVerifyInvariantToSub :: "('i, 'd) env \<Rightarrow> bytes \<Rightarrow> SubsetEvent result" where
  "CrisisVerifyInvariantToSub E msg =
     with_msg (Unmarshal_MsgVerifyInvariant E msg) ''Not a crisis type: '' (\<lambda>mvi.
       Ret (SubsetEvent0\<lparr>se_Type := [''verify_invariant''], se_Module := ''crisis'',
         se_Sender := [\<lparr>et_Account = Account_ID (vi_Sender mvi), et_Amounts = []\<rparr>],
         se_Additional := [''invariant_route'' \<mapsto> [vi_InvariantRoute mvi],
                           ''invariant_module_name'' \<mapsto> [vi_InvariantModuleName mvi]]\<rparr>, None))"

subsection \<open>distribution.go\<close>

definition DistributionWithdrawValidatorCommissionToSub ::
  "('i, 'd) env \<Rightarrow> bytes \<Rightarrow> ABCIMessageLog \<Rightarrow> SubsetEvent result" where
  "DistributionWithdrawValidatorCommissionToSub E msg lg =
     with_msg (Unmarshal_MsgWithdrawValidatorCommission E msg) ''Not a distribution type: '' (\<lambda>wvc.
       let se = SubsetEvent0\<lparr>se_Type := [''withdraw_validator_commission''], se_Module := ''distribution'',
             se_Node := [''validator'' \<mapsto> [Account_ID (wvc_ValidatorAddress wvc)]],
             se_Recipient := [\<lparr>et_Account = Account_ID (wvc_ValidatorAddress wvc), et_Amounts = []\<rparr>]\<rparr>
       in produceTransfers E se ''send'' [] lg)"

definition DistributionSetWithdrawAddressToSub :: "('i, 'd) env \<Rightarrow> bytes \<Rightarrow> SubsetEvent result" where
  "DistributionSetWithdrawAddressToSub E msg =
     with_msg (Unmarshal_MsgSetWithdrawAddress E msg) ''Not a set_withdraw_address type: '' (\<lambda>swa.
       Ret (SubsetEvent0\<lparr>se_Type := [''set_withdraw_address''], se_Module := ''distribution'',
         se_Node := [''delegator'' \<mapsto> [Account_ID (swa_DelegatorAddress swa)],
                     ''withdraw'' \<mapsto> [Account_ID (swa_WithdrawAddress swa)]]\<rparr>, None))"

definition DistributionWithdrawDelegatorRewardToSub ::
  "('i, 'd) env \<Rightarrow> bytes \<Rightarrow> ABCIMessageLog \<Rightarrow> SubsetEvent result" where
  "DistributionWithdrawDelegatorRewardToSub E msg lg =
     with_msg (Unmarshal_MsgWithdrawDelegatorReward E msg) ''Not a withdraw_validator_commission type: '' (\<lambda>wdr.
       let se = SubsetEvent0\<lparr>se_Type := [''withdraw_delegator_reward''], se_Module := ''distribution'',
             se_Node := [''delegator'' \<mapsto> [Account_ID (wdr_DelegatorAddress wdr)],
                         ''validator'' \<mapsto> [Account_ID (wdr_ValidatorAddress wdr)]],
             se_Recipient := [\<lparr>et_Account = Account_ID (wdr_ValidatorAddress wdr), et_Amounts = []\<rparr>]\<rparr>
       in produceTransfers E se ''reward'' [] lg)"

text \<open>\<open>z.Set(x)\<close> of \<open>*big.Int\<close>: it returns at once when the pointers are the same and otherwise reads
  and writes through both. \<open>BigInt()\<close> never returns the pointer it is stored to, so the two are the
  same only when both are \<open>nil\<close>.\<close>

fun big_Set :: "int option \<Rightarrow> int option \<Rightarrow> int option go" where
  "big_Set None None = Ret None"
| "big_Set (Some z) (Some x) = Ret (Some x)"
| "big_Set _ _ = Panic NilDereference"

definition distribution_amount ::
  "('i, 'd) env \<Rightarrow> 'i Coin \<Rightarrow> TransactionAmount list \<Rightarrow> TransactionAmount list result" where
  "distribution_amount E coin amts =
     (let txa = TransactionAmount0\<lparr>ta_Currency := Denom coin, ta_Text := Int_String E (Amount coin)\<rparr>
      in bind_go (big_Set (ta_Numeric txa) (Int_BigInt E (Amount coin)))
           (\<lambda>num. Ret (amts @ [txa\<lparr>ta_Numeric := num\<rparr>], None)))"

definition distributionProduceEvTx :: "('i, 'd) env \<Rightarrow> string \<Rightarrow> 'i Coin list \<Rightarrow> EventTransfer result" where
  "distributionProduceEvTx E account coins =
     (let evt = \<lparr>et_Account = Account_ID account, et_Amounts = []\<rparr>
      in if coins \<noteq> [] then
           bind_go (for_go (distribution_amount E) coins []) (\<lambda>(amts, _). Ret (evt\<lparr>et_Amounts := amts\<rparr>, None))
         else Ret (evt, None))"

definition DistributionFundCommunityPoolToSub :: "('i, 'd) env \<Rightarrow> bytes \<Rightarrow> SubsetEvent result" where
  "DistributionFundCommunityPoolToSub E msg =
     with_msg (Unmarshal_MsgFundCommunityPool E msg) ''Not a fund_community_pool type: '' (\<lambda>fcp.
       bind_go (distributionProduceEvTx E (fcp_Depositor fcp) (fcp_Amount fcp)) (\<lambda>(evt, err).
         Ret (SubsetEvent0\<lparr>se_Type := [''fund_community_pool''], se_Module := ''distribution'',
           se_Node := [''depositor'' \<mapsto> [Account_ID (fcp_Depositor fcp)]],
           se_Sender := [evt]\<rparr>, err)))"

subsection \<open>evidence.go\<close>

definition EvidenceSubmitEvidenceToSub :: "('i, 'd) env \<Rightarrow> bytes \<Rightarrow> SubsetEvent result" where
  "EvidenceSubmitEvidenceToSub E msg =
     with_msg (Unmarshal_MsgSubmitEvidence E msg) ''Not a submit_evidence type: '' (\<lambda>mse.
       let se = SubsetEvent0\<lparr>se_Type := [''submit_evidence''], se_Module := ''evidence'',
             se_Node := [''submitter'' \<mapsto> [Account_ID (mse_Submitter mse)]]\<rparr>
       in bind_go (mse_GetEvidence_Height mse) (\<lambda>ev. case ev of
            None \<Rightarrow> Ret (se, Some (NewError ''Evidence is empty''))
          | Some height \<Rightarrow>
              let se = se\<lparr>se_Additional := [''evidence_height'' \<mapsto> [FormatInt height]]\<rparr>
              in case mse_GetCachedValue mse of
                   None \<Rightarrow> Ret (se, Some (NewError ''Evidence is empty''))
                 | Some OtherEvidence \<Rightarrow> Ret (se, Some (NewError ''Evidence is not ValidatorEvidence type''))
                 | Some (ValidatorEvidence totalPower valPower consensus) \<Rightarrow>
                     Ret (se\<lparr>se_Additional := (se_Additional se)
                       (''evidence_total_power'' \<mapsto> [FormatInt totalPower],
                        ''evidence_validator_power'' \<mapsto> [FormatInt valPower],
                        ''evidence_consensus'' \<mapsto> [consensus])\<rparr>, None)))"

subsection \<open>gov.go\<close>

text \<open>\<open>key := base; if i > 0 { key += "_" + strconv.Itoa(i) }\<close>.\<close>

definition deposit_key :: "string \<Rightarrow> nat \<Rightarrow> string" where
  "deposit_key base i = (if i > 0 then base @ ''_'' @ Itoa i else base)"

text \<open>The amounts that the two loops of this file make of a coin.\<close>

definition gov_amount :: "('i, 'd) env \<Rightarrow> 'i Coin \<Rightarrow> TransactionAmount" where
  "gov_amount E c = TransactionAmount0\<lparr>ta_Currency := Denom c, ta_Numeric := Int_BigInt E (Amount c),
     ta_Text := Int_String E (Amount c)\<rparr>"

lemma gov_amount_eq [simp]: "gov_amount = coin_ta"
  by (simp add: gov_amount_def coin_ta_def fun_eq_iff)

definition GovDepositToSub :: "('i, 'd) env \<Rightarrow> bytes \<Rightarrow> ABCIMessageLog \<Rightarrow> SubsetEvent result" where
  "GovDepositToSub E msg lg =
     with_msg (Unmarshal_MsgDeposit E msg) ''Not a deposit type: '' (\<lambda>dep.
       let se = SubsetEvent0\<lparr>se_Type := [''deposit''], se_Module := ''gov'',
             se_Node := [''depositor'' \<mapsto> [Account_ID (dep_Depositor dep)]],
             se_Additional := [''proposalID'' \<mapsto> [FormatUint (dep_ProposalId dep)]],
             se_Sender := [\<lparr>et_Account = Account_ID (dep_Depositor dep),
                            et_Amounts = map (gov_amount E) (dep_Amount dep)\<rparr>],
             se_Amount := fill_map (deposit_key ''deposit'') (gov_amount E) (dep_Amount dep)\<rparr>
       in produceTransfers E se ''send'' [] lg)"

definition GovVoteToSub :: "('i, 'd) env \<Rightarrow> bytes \<Rightarrow> SubsetEvent result" where
  "GovVoteToSub E msg =
     with_msg (Unmarshal_MsgVote E msg) ''Not a vote type: '' (\<lambda>vote.
       Ret (SubsetEvent0\<lparr>se_Type := [''vote''], se_Module := ''gov'',
         se_Node := [''voter'' \<mapsto> [Account_ID (vote_Voter vote)]],
         se_Additional := [''proposalID'' \<mapsto> [FormatUint (vote_ProposalId vote)],
                           ''option'' \<mapsto> [vote_Option_String vote]]\<rparr>, None))"

definition put_nonempty :: "string \<Rightarrow> string \<Rightarrow> (string \<rightharpoonup> string list) \<Rightarrow> (string \<rightharpoonup> string list)" where
  "put_nonempty key v m = (if v \<noteq> [] then m(key \<mapsto> [v]) else m)"

text \<open>The event before the log and the content are read, and the map made of the content.\<close>

definition proposal_event :: "('i, 'd) env \<Rightarrow> 'i MsgSubmitProposal \<Rightarrow> SubsetEvent" where
  "proposal_event E sp =
     SubsetEvent0\<lparr>se_Type := [''submit_proposal''], se_Module := ''gov'',
       se_Node := [''proposer'' \<mapsto> [Account_ID (sp_Proposer sp)]],
       se_Sender := [\<lparr>et_Account = Account_ID (sp_Proposer sp),
                      et_Amounts = map (gov_amount E) (sp_InitialDeposit sp)\<rparr>],
       se_Amount := fill_map (deposit_key ''initial_deposit'') (gov_amount E) (sp_InitialDeposit sp)\<rparr>"

definition content_map :: "Content \<Rightarrow> (string \<rightharpoonup> string list)" where
  "content_map content =
     put_nonempty ''content'' (ct_String content)
       (put_nonempty ''title'' (ct_Title content)
         (put_nonempty ''descritpion'' (ct_Description content)
           (put_nonempty ''proposal_type'' (ct_ProposalType content)
             (put_nonempty ''proposal_route'' (ct_ProposalRoute content) Map.empty))))"

definition GovSubmitProposalToSub :: "('i, 'd) env \<Rightarrow> bytes \<Rightarrow> ABCIMessageLog \<Rightarrow> SubsetEvent result" where
  "GovSubmitProposalToSub E msg lg =
     with_msg (Unmarshal_MsgSubmitProposal E msg) ''Not a submit_proposal type: '' (\<lambda>sp.
       bind_go (produceTransfers E (proposal_event E sp) ''send'' [] lg) (\<lambda>(se, err).
         case err of
           Some e \<Rightarrow> Ret (se, Some e)
         | None \<Rightarrow>
             bind_go (sp_GetContent sp) (\<lambda>content. case content of
                None \<Rightarrow> Ret (se, None)
              | Some content \<Rightarrow> Ret (se\<lparr>se_Additional := content_map content\<rparr>, None))))"

subsection \<open>slashing.go\<close>

definition SlashingUnjailToSub :: "('i, 'd) env \<Rightarrow> bytes \<Rightarrow> SubsetEvent result" where
  "SlashingUnjailToSub E msg =
     with_msg (Unmarshal_MsgUnjail E msg) ''Not a unjail type: '' (\<lambda>unjail.
       Ret (SubsetEvent0\<lparr>se_Type := [''unjail''], se_Module := ''slashing'',
         se_Node := [''validator'' \<mapsto> [Account_ID (unjail_ValidatorAddr unjail)]]\<rparr>, None))"

subsection \<open>staking.go\<close>

definition unbondedAddr :: string where
  "unbondedAddr = ''cosmos1tygms3xhhs3yv487phx3dw4a95jn7t7lpm470r''"

definition StakingUndelegateToSub :: "('i, 'd) env \<Rightarrow> bytes \<Rightarrow> ABCIMessageLog \<Rightarrow> SubsetEvent result" where
  "StakingUndelegateToSub E msg lg =
     with_msg (Unmarshal_MsgUndelegate E msg) ''Not a undelegate type: '' (\<lambda>u.
       let se = SubsetEvent0\<lparr>se_Type := [''undelegate''], se_Module := ''staking'',
             se_Node := [''delegator'' \<mapsto> [Account_ID (del_DelegatorAddress u)],
                         ''validator'' \<mapsto> [Account_ID (del_ValidatorAddress u)]],
             se_Amount := [''undelegate'' \<mapsto> coin_full_ta E (del_Amount u)]\<rparr>
       in produceTransfers E se ''reward'' unbondedAddr lg)"

definition StakingDelegateToSub :: "('i, 'd) env \<Rightarrow> bytes \<Rightarrow> ABCIMessageLog \<Rightarrow> SubsetEvent result" where
  "StakingDelegateToSub E msg lg =
     with_msg (Unmarshal_MsgDelegate E msg) ''Not a delegate type: '' (\<lambda>d.
       let se = SubsetEvent0\<lparr>se_Type := [''delegate''], se_Module := ''staking'',
             se_Node := [''delegator'' \<mapsto> [Account_ID (del_DelegatorAddress d)],
                         ''validator'' \<mapsto> [Account_ID (del_ValidatorAddress d)]],
             se_Amount := [''delegate'' \<mapsto> coin_full_ta E (del_Amount d)]\<rparr>
       in produceTransfers E se ''reward'' [] lg)"

definition StakingBeginRedelegateToSub :: "('i, 'd) env \<Rightarrow> bytes \<Rightarrow> ABCIMessageLog \<Rightarrow> SubsetEvent result" where
  "StakingBeginRedelegateToSub E msg lg =
     with_msg (Unmarshal_MsgBeginRedelegate E msg) ''Not a begin_redelegate type: '' (\<lambda>br.
       let se = SubsetEvent0\<lparr>se_Type := [''begin_redelegate''], se_Module := ''staking'',
             se_Node := [''delegator'' \<mapsto> [Account_ID (br_DelegatorAddress br)],
                         ''validator_destination'' \<mapsto> [Account_ID (br_ValidatorDstAddress br)],
                         ''validator_source'' \<mapsto> [Account_ID (br_ValidatorSrcAddress br)]],
             se_Amount := [''delegate'' \<mapsto> coin_full_ta E (br_Amount br)]\<rparr>
       in produceTransfers E se ''reward'' [] lg)"

definition validator_account :: "string \<Rightarrow> StakingDescription \<Rightarrow> Account" where
  "validator_account addr desc =
     \<lparr>ac_ID = addr,
      ac_Details = Some \<lparr>ad_Name = desc_Moniker desc, ad_Description = desc_Details desc,
        ad_Contact = desc_SecurityContact desc, ad_Website = desc_Website desc\<rparr>\<rparr>"

definition StakingCreateValidatorToSub :: "('i, 'd) env \<Rightarrow> bytes \<Rightarrow> SubsetEvent result" where
  "StakingCreateValidatorToSub E msg =
     with_msg (Unmarshal_MsgCreateValidator E msg) ''Not a create_validator type: '' (\<lambda>ev.
       Ret (SubsetEvent0\<lparr>se_Type := [''create_validator''], se_Module := ''distribution'',
         se_Node := [''delegator'' \<mapsto> [Account_ID (cv_DelegatorAddress ev)],
                     ''validator'' \<mapsto> [validator_account (cv_ValidatorAddress ev) (cv_Description ev)]],
         se_Amount := [''self_delegation'' \<mapsto> coin_full_ta E (cv_Value ev),
                       ''self_delegation_min'' \<mapsto> int_ta E (cv_MinSelfDelegation ev),
                       ''commission_rate'' \<mapsto> dec_ta E (cv_Rate ev),
                       ''commission_max_rate'' \<mapsto> dec_ta E (cv_MaxRate ev),
                       ''commission_max_change_rate'' \<mapsto> dec_ta E (cv_MaxChangeRate ev)]\<rparr>, None))"

definition StakingEditValidatorToSub :: "('i, 'd) env \<Rightarrow> bytes \<Rightarrow> SubsetEvent result" where
  "StakingEditValidatorToSub E msg =
     with_msg (Unmarshal_MsgEditValidator E msg) ''Not a edit_validator type: '' (\<lambda>ev.
       let sev = SubsetEvent0\<lparr>se_Type := [''edit_validator''], se_Module := ''distribution'',
             se_Node := [''validator'' \<mapsto> [validator_account (ev_ValidatorAddress ev) (ev_Description ev)]]\<rparr>;
           amount0 = Map.empty;
           amount1 = (case ev_MinSelfDelegation ev of
                        None \<Rightarrow> amount0
                      | Some i \<Rightarrow> amount0(''self_delegation_min'' \<mapsto> int_ta E i));
           amount2 = (case ev_CommissionRate ev of
                        None \<Rightarrow> amount1
                      | Some d \<Rightarrow> amount1(''commission_rate'' \<mapsto> dec_ta E d))
       in Ret (if ev_MinSelfDelegation ev \<noteq> None \<or> ev_CommissionRate ev \<noteq> None
               then sev\<lparr>se_Amount := amount2\<rparr> else sev, None))"

subsection \<open>vesting.go\<close>

definition vesting_amount :: "('i, 'd) env \<Rightarrow> 'i Coin \<Rightarrow> TransactionAmount" where
  "vesting_amount E c = TransactionAmount0\<lparr>ta_Currency := Denom c, ta_Numeric := Int_BigInt E (Amount c),
     ta_Text := Int_String E (Amount c)\<rparr>"

lemma vesting_amount_eq [simp]: "vesting_amount = coin_ta"
  by (simp add: vesting_amount_def coin_ta_def fun_eq_iff)

definition vestingProduceEvTx :: "('i, 'd) env \<Rightarrow> string \<Rightarrow> 'i Coin list \<Rightarrow> EventTransfer \<times> go_error option" where
  "vestingProduceEvTx E account coins =
     (let evt = \<lparr>et_Account = Account_ID account, et_Amounts = []\<rparr>
      in (if coins \<noteq> [] then evt\<lparr>et_Amounts := map (vesting_amount E) coins\<rparr> else evt, None))"

definition VestingMsgCreateVestingAccountToSub ::
  "('i, 'd) env \<Rightarrow> bytes \<Rightarrow> ABCIMessageLog \<Rightarrow> SubsetEvent result" where
  "VestingMsgCreateVestingAccountToSub E msg lg =
     with_msg (Unmarshal_MsgCreateVestingAccount E msg) ''Not a msg_create_vesting_account type: '' (\<lambda>cva.
       Ret (SubsetEvent0\<lparr>se_Type := [''msg_create_vesting_account''], se_Module := ''vesting'',
         se_Sender := [fst (vestingProduceEvTx E (cva_FromAddress cva) (cva_Amount cva))],
         se_Recipient := [fst (vestingProduceEvTx E (cva_ToAddress cva) (cva_Amount cva))],
         se_Additional := [''end_time'' \<mapsto> [FormatInt (cva_EndTime cva)],
                           ''delayed'' \<mapsto> [if cva_Delayed cva then ''true'' else ''false'']]\<rparr>, None))"

subsection \<open>The mappers fulfil the contract\<close>

text \<open>Qualifiers are the types of the events.\<close>

interpretation multisend: sub_mapper "BankMultisendToSub E" "''multisend''" "''bank''" for E
  by (rule sub_mapper_transfers) (auto simp: BankMultisendToSub_def Let_def)

interpretation send: sub_mapper "BankSendToSub E" "''send''" "''bank''" for E
  by (rule sub_mapper_transfers) (auto simp: BankSendToSub_def Let_def)

interpretation verify_invariant:
  sub_mapper "\<lambda>msg lg. CrisisVerifyInvariantToSub E msg" "''verify_invariant''" "''crisis''" for E
  by (rule sub_mapper_plain) (auto simp: CrisisVerifyInvariantToSub_def)

interpretation withdraw_validator_commission:
  sub_mapper "DistributionWithdrawValidatorCommissionToSub E" "''withdraw_validator_commission''" "''distribution''" for E
  by (rule sub_mapper_transfers) (auto simp: DistributionWithdrawValidatorCommissionToSub_def Let_def)

interpretation set_withdraw_address:
  sub_mapper "\<lambda>msg lg. DistributionSetWithdrawAddressToSub E msg" "''set_withdraw_address''" "''distribution''" for E
  by (rule sub_mapper_plain) (auto simp: DistributionSetWithdrawAddressToSub_def)

interpretation withdraw_delegator_reward:
  sub_mapper "DistributionWithdrawDelegatorRewardToSub E" "''withdraw_delegator_reward''" "''distribution''" for E
  by (rule sub_mapper_transfers) (auto simp: DistributionWithdrawDelegatorRewardToSub_def Let_def)

lemma distributionProduceEvTx_no_error: "distributionProduceEvTx E account coins = Ret (evt, err) \<Longrightarrow> err = None"
  by (auto simp: distributionProduceEvTx_def go_simps Let_def split: if_splits)

interpretation fund_community_pool:
  sub_mapper "\<lambda>msg lg. DistributionFundCommunityPoolToSub E msg" "''fund_community_pool''" "''distribution''" for E
  by unfold_locales
    (auto simp: DistributionFundCommunityPoolToSub_def with_msg_def SubsetEvent0_def go_simps
      split: sum.splits dest: distributionProduceEvTx_no_error)

lemma EvidenceSubmitEvidenceToSub_cases:
  assumes "EvidenceSubmitEvidenceToSub E msg = Ret (se, err)"
  obtains (undecoded) e where "se = SubsetEvent0" "err = Some (Errorf_w ''Not a submit_evidence type: '' (ExtError e) [])"
    | (decoded) "se_Type se = [''submit_evidence'']" "se_Module se = ''evidence''" "\<And>e. err = Some e \<Longrightarrow> \<exists>msg. e = NewError msg"
proof (cases "Unmarshal_MsgSubmitEvidence E msg")
  case (Inl e)
  with assms show thesis by (intro undecoded [of e]) (simp_all add: EvidenceSubmitEvidenceToSub_def with_msg_def)
next
  case (Inr mse)
  show thesis
  proof (cases "mse_GetEvidence_Height mse")
    case (Ret ev)
    with assms Inr show thesis
      by (intro decoded) (auto simp: EvidenceSubmitEvidenceToSub_def with_msg_def Let_def SubsetEvent0_def
          split: option.splits evidence_value.splits)
  next
    case (Panic p)
    with assms Inr show thesis by (simp add: EvidenceSubmitEvidenceToSub_def with_msg_def Let_def)
  qed
qed

interpretation submit_evidence:
  sub_mapper "\<lambda>msg lg. EvidenceSubmitEvidenceToSub E msg" "''submit_evidence''" "''evidence''" for E
proof
  fix msg lg se
  assume "EvidenceSubmitEvidenceToSub E msg = Ret (se, None)"
  then show "se_Type se = [''submit_evidence''] \<and> se_Module se = ''evidence''"
    by (cases rule: EvidenceSubmitEvidenceToSub_cases) simp_all
next
  fix msg lg se e
  assume "EvidenceSubmitEvidenceToSub E msg = Ret (se, Some e)"
  then show "(se_Type se = [] \<or> se_Type se = [''submit_evidence'']) \<and> \<not> errors_Is e ErrUnknownMessageType"
    by (cases rule: EvidenceSubmitEvidenceToSub_cases) (auto simp: SubsetEvent0_def)
qed

interpretation deposit: sub_mapper "GovDepositToSub E" "''deposit''" "''gov''" for E
  by (rule sub_mapper_transfers) (auto simp: GovDepositToSub_def Let_def)

interpretation vote: sub_mapper "\<lambda>msg lg. GovVoteToSub E msg" "''vote''" "''gov''" for E
  by (rule sub_mapper_plain) (auto simp: GovVoteToSub_def)

lemma proposal_event_fields [simp]:
  "se_Type (proposal_event E sp) = [''submit_proposal'']" "se_Module (proposal_event E sp) = ''gov''"
  by (simp_all add: proposal_event_def)

lemma GovSubmitProposalToSub_cases:
  assumes "GovSubmitProposalToSub E msg lg = Ret (se, err)"
  obtains (undecoded) e where "se = SubsetEvent0" "err = Some (Errorf_w ''Not a submit_proposal type: '' (ExtError e) [])"
    | (decoded) sp se1 where "Unmarshal_MsgSubmitProposal E msg = Inr sp"
        "produceTransfers E (proposal_event E sp) ''send'' [] lg = Ret (se1, err)"
        "se = (case (err, sp_GetContent sp) of (None, Ret (Some content)) \<Rightarrow> se1\<lparr>se_Additional := content_map content\<rparr> | _ \<Rightarrow> se1)"
  using assms
  by (auto simp: GovSubmitProposalToSub_def with_msg_def go_simps split: sum.splits option.splits)

interpretation submit_proposal: sub_mapper "GovSubmitProposalToSub E" "''submit_proposal''" "''gov''" for E
proof
  fix msg lg se
  assume "GovSubmitProposalToSub E msg lg = Ret (se, None)"
  then show "se_Type se = [''submit_proposal''] \<and> se_Module se = ''gov''"
  proof (cases rule: GovSubmitProposalToSub_cases)
    case (decoded sp se1)
    from produceTransfers_header [OF decoded(2)] decoded(3) show ?thesis by (simp split: option.splits go.splits)
  qed simp
next
  fix msg lg se e
  assume "GovSubmitProposalToSub E msg lg = Ret (se, Some e)"
  then show "(se_Type se = [] \<or> se_Type se = [''submit_proposal'']) \<and> \<not> errors_Is e ErrUnknownMessageType"
  proof (cases rule: GovSubmitProposalToSub_cases)
    case (decoded sp se1)
    from produceTransfers_header [OF decoded(2)] produceTransfers_no_wrap [OF decoded(2)] decoded(3)
    show ?thesis by auto
  qed (simp add: SubsetEvent0_def)
qed

interpretation unjail: sub_mapper "\<lambda>msg lg. SlashingUnjailToSub E msg" "''unjail''" "''slashing''" for E
  by (rule sub_mapper_plain) (auto simp: SlashingUnjailToSub_def)

interpretation undelegate: sub_mapper "StakingUndelegateToSub E" "''undelegate''" "''staking''" for E
  by (rule sub_mapper_transfers) (auto simp: StakingUndelegateToSub_def Let_def)

interpretation delegate: sub_mapper "StakingDelegateToSub E" "''delegate''" "''staking''" for E
  by (rule sub_mapper_transfers) (auto simp: StakingDelegateToSub_def Let_def)

interpretation begin_redelegate: sub_mapper "StakingBeginRedelegateToSub E" "''begin_redelegate''" "''staking''" for E
  by (rule sub_mapper_transfers) (auto simp: StakingBeginRedelegateToSub_def Let_def)

interpretation create_validator:
  sub_mapper "\<lambda>msg lg. StakingCreateValidatorToSub E msg" "''create_validator''" "''distribution''" for E
  by (rule sub_mapper_plain) (auto simp: StakingCreateValidatorToSub_def)

interpretation edit_validator:
  sub_mapper "\<lambda>msg lg. StakingEditValidatorToSub E msg" "''edit_validator''" "''distribution''" for E
  by (rule sub_mapper_plain) (auto simp: StakingEditValidatorToSub_def Let_def)

interpretation create_vesting_account:
  sub_mapper "VestingMsgCreateVestingAccountToSub E" "''msg_create_vesting_account''" "''vesting''" for E
  by (rule sub_mapper_plain) (auto simp: VestingMsgCreateVestingAccountToSub_def)

subsection \<open>Properties\<close>

lemma inj_deposit_key: "inj (deposit_key base)"
  by (auto simp: inj_def deposit_key_def split: if_splits)

text \<open>
  Rewards paid out by an undelegation are never attributed to the pool of unbonded tokens,
  whatever the log of the message holds (the fix of release 0.2.1).
\<close>

lemma undelegate_skips_unbonded_pool:
  assumes "StakingUndelegateToSub E msg lg = Ret (se, err)" and "se_Transfers se t = Some evts"
  shows "list_all (\<lambda>et. ac_ID (et_Account et) \<noteq> unbondedAddr) evts"
  using assms(1) unfolding StakingUndelegateToSub_def
proof (cases rule: with_msg_cases)
  case (undecoded e)
  with assms(2) show ?thesis by (simp add: SubsetEvent0_def)
next
  case (decoded u)
  have "none_for unbondedAddr evts"
    using decoded(2) unfolding Let_def
    by (rule produceTransfers_none_for [OF _ _ assms(2)]) (simp add: SubsetEvent0_def)
  then show ?thesis by (simp add: none_for_def)
qed

lemma undelegate_skips_unbonded_pool_witness:
  "\<exists>se err evts.
     StakingUndelegateToSub (sample_env\<lparr>Unmarshal_MsgUndelegate := \<lambda>_. Inr
         \<lparr>del_DelegatorAddress = ''alice'', del_ValidatorAddress = ''val'', del_Amount = \<lparr>Denom = ''uatom'', Amount = 9\<rparr>\<rparr>\<rparr>)
       [] \<lparr>lg_MsgIndex = 0, lg_Events = map (case_sum id transfer_log)
         [Inr [(unbondedAddr, ''s'', [(9, ''uatom'')]), (''alice'', ''s'', [(2, ''uatom'')])]]\<rparr> = Ret (se, err)
     \<and> se_Transfers se ''reward'' = Some evts
     \<and> list_all (\<lambda>et. ac_ID (et_Account et) \<noteq> unbondedAddr) evts"
proof -
  let ?u = "\<lparr>del_DelegatorAddress = ''alice'', del_ValidatorAddress = ''val'',
    del_Amount = \<lparr>Denom = ''uatom'', Amount = 9\<rparr>\<rparr> :: int MsgDelegate"
  let ?E = "sample_env\<lparr>Unmarshal_MsgUndelegate := \<lambda>_. Inr ?u\<rparr>"
  let ?es = "[Inr [(unbondedAddr, ''s'', [(9, ''uatom'')]), (''alice'', ''s'', [(2, ''uatom'')])]]
    :: (StringEvent + logged list) list"
  let ?lg = "\<lparr>lg_MsgIndex = 0, lg_Events = map (case_sum id transfer_log) ?es\<rparr>"
  have h: "list_all (\<lambda>e. case e of Inl other \<Rightarrow> sev_Type other \<noteq> ''transfer'' | Inr ts \<Rightarrow> list_all well_logged ts) ?es"
    by (simp add: well_logged_def class_defs)
  have x: "expected_transfers unbondedAddr (concat (map (case_sum (\<lambda>_. []) id) ?es)) =
      [\<lparr>et_Account = Account_ID ''alice'', et_Amounts = [coin_amount (2, ''uatom'')]\<rparr>]"
    by (simp add: expected_transfers_def unbondedAddr_def)
  have "\<exists>se evts. StakingUndelegateToSub ?E [] ?lg = Ret (se, None) \<and> se_Transfers se ''reward'' = Some evts"
    unfolding StakingUndelegateToSub_def with_msg_def Let_def
    by (simp add: produceTransfers_log [OF h] x SubsetEvent0_def del: list.map)
  then obtain se evts where se: "StakingUndelegateToSub ?E [] ?lg = Ret (se, None)"
    and evts: "se_Transfers se ''reward'' = Some evts" by (elim exE conjE)
  show ?thesis
    by (intro exI conjI, rule se, rule evts, rule undelegate_skips_unbonded_pool [OF se evts])
qed

text \<open>
  The coins of a governance deposit are all kept, in order, twice over: as the amounts of the
  sender, and under the keys \<open>deposit\<close>, \<open>deposit_1\<close>, \<open>deposit_2\<close>, \dots of the amount map, which holds
  nothing else. No two coins share a key, so none overwrites another.
\<close>

lemma gov_deposit_keeps_coins:
  assumes "GovDepositToSub E msg lg = Ret (se, err)" and "Unmarshal_MsgDeposit E msg = Inr dep"
  shows "map et_Amounts (se_Sender se) = [map (coin_ta E) (dep_Amount dep)]
       \<and> (\<forall>i < length (dep_Amount dep).
            se_Amount se (deposit_key ''deposit'' i) = Some (coin_ta E (dep_Amount dep ! i)))
       \<and> dom (se_Amount se) = deposit_key ''deposit'' ` {..<length (dep_Amount dep)}"
proof -
  let ?se = "SubsetEvent0\<lparr>se_Type := [''deposit''], se_Module := ''gov'',
      se_Node := [''depositor'' \<mapsto> [Account_ID (dep_Depositor dep)]],
      se_Additional := [''proposalID'' \<mapsto> [FormatUint (dep_ProposalId dep)]],
      se_Sender := [\<lparr>et_Account = Account_ID (dep_Depositor dep),
                     et_Amounts = map (coin_ta E) (dep_Amount dep)\<rparr>],
      se_Amount := fill_map (deposit_key ''deposit'') (coin_ta E) (dep_Amount dep)\<rparr>"
  from assms have "produceTransfers E ?se ''send'' [] lg = Ret (se, err)"
    by (simp add: GovDepositToSub_def with_msg_def Let_def)
  from produceTransfers_fields(4,6) [OF this] show ?thesis
    by (simp add: fill_map_at [OF inj_deposit_key] dom_fill_map)
qed

lemma gov_deposit_keeps_coins_witness:
  "\<exists>se err. GovDepositToSub (sample_env\<lparr>Unmarshal_MsgDeposit := \<lambda>_. Inr \<lparr>dep_ProposalId = 3, dep_Depositor = ''bob'',
       dep_Amount = [\<lparr>Denom = ''uatom'', Amount = 4\<rparr>, \<lparr>Denom = ''stake'', Amount = 5\<rparr>]\<rparr>\<rparr>) [] ABCIMessageLog0 = Ret (se, err)
     \<and> dom (se_Amount se) = {''deposit'', ''deposit_1''}"
proof -
  let ?dep = "\<lparr>dep_ProposalId = 3, dep_Depositor = ''bob'',
       dep_Amount = [\<lparr>Denom = ''uatom'', Amount = 4\<rparr>, \<lparr>Denom = ''stake'', Amount = 5\<rparr>]\<rparr> :: int MsgDeposit"
  let ?E = "sample_env\<lparr>Unmarshal_MsgDeposit := \<lambda>_. Inr ?dep\<rparr>"
  obtain se err where r: "GovDepositToSub ?E [] ABCIMessageLog0 = Ret (se, err)"
    using produceTransfers_returns by (simp add: GovDepositToSub_def with_msg_def Let_def) blast
  have "{..<length (dep_Amount ?dep)} = {0, 1}" by auto
  then have "dom (se_Amount se) = {''deposit'', ''deposit_1''}"
    using gov_deposit_keeps_coins [OF r, of ?dep]
    by (simp add: deposit_key_def Itoa_def format_nat.simps)
  with r show ?thesis by blast
qed

text \<open>
  A multi-send becomes one sender entry per input and one recipient entry per output, in the
  order of the message, each with its address and all of its coins; no input or output is skipped.
\<close>

lemma multisend_one_to_one:
  assumes "BankMultisendToSub E msg lg = Ret (se, err)" and "Unmarshal_MsgMultiSend E msg = Inr m"
  shows "map (\<lambda>et. (ac_ID (et_Account et), et_Amounts et)) (se_Sender se) =
           map (\<lambda>i. (io_Address i, map (coin_ta E) (io_Coins i))) (ms_Inputs m)
       \<and> map (\<lambda>et. (ac_ID (et_Account et), et_Amounts et)) (se_Recipient se) =
           map (\<lambda>i. (io_Address i, map (coin_ta E) (io_Coins i))) (ms_Outputs m)"
proof -
  have side: "map (\<lambda>et. (ac_ID (et_Account et), et_Amounts et)) (multisend_side E ios) =
      map (\<lambda>i. (io_Address i, map (coin_ta E) (io_Coins i))) ios" for ios
    by (induction ios) (auto simp: multisend_side_def bankProduceEvTx_def Account_ID_def Let_def)
  let ?se = "SubsetEvent0\<lparr>se_Type := [''multisend''], se_Module := ''bank'',
      se_Sender := multisend_side E (ms_Inputs m), se_Recipient := multisend_side E (ms_Outputs m)\<rparr>"
  from assms have "produceTransfers E ?se ''send'' [] lg = Ret (se, err)"
    by (simp add: BankMultisendToSub_def with_msg_def Let_def)
  from produceTransfers_fields(4,5) [OF this] show ?thesis by (simp add: side)
qed

lemma multisend_one_to_one_witness:
  "\<exists>se err. BankMultisendToSub (sample_env\<lparr>Unmarshal_MsgMultiSend := \<lambda>_. Inr
       \<lparr>ms_Inputs = [\<lparr>io_Address = ''a'', io_Coins = [\<lparr>Denom = ''uatom'', Amount = 4\<rparr>]\<rparr>],
        ms_Outputs = [\<lparr>io_Address = ''b'', io_Coins = []\<rparr>]\<rparr>\<rparr>) [] ABCIMessageLog0 = Ret (se, err)
     \<and> map (\<lambda>et. ac_ID (et_Account et)) (se_Sender se) = [''a'']
     \<and> map (\<lambda>et. ac_ID (et_Account et)) (se_Recipient se) = [''b'']"
proof -
  let ?m = "\<lparr>ms_Inputs = [\<lparr>io_Address = ''a'', io_Coins = [\<lparr>Denom = ''uatom'', Amount = 4\<rparr>]\<rparr>],
    ms_Outputs = [\<lparr>io_Address = ''b'', io_Coins = []\<rparr>]\<rparr> :: int MsgMultiSend"
  let ?E = "sample_env\<lparr>Unmarshal_MsgMultiSend := \<lambda>_. Inr ?m\<rparr>"
  obtain se err where r: "BankMultisendToSub ?E [] ABCIMessageLog0 = Ret (se, err)"
    using produceTransfers_returns by (simp add: BankMultisendToSub_def with_msg_def Let_def) blast
  from multisend_one_to_one [OF r, of ?m] have "map (\<lambda>et. ac_ID (et_Account et)) (se_Sender se) = [''a'']"
    "map (\<lambda>et. ac_ID (et_Account et)) (se_Recipient se) = [''b'']"
    by auto
  with r show ?thesis by (intro exI conjI)
qed

text \<open>
  Claim C40: funding the community pool crashes the worker. For every decoded \<open>MsgFundCommunityPool\<close>
  whose first coin has a number, the mapper writes through the \<open>nil\<close> pointer of a fresh
  \<open>TransactionAmount\<close> and panics; it succeeds only for an empty list of coins.
\<close>

theorem fund_community_pool_panics:
  assumes "Unmarshal_MsgFundCommunityPool E msg = Inr fcp"
    and "\<And>coin. coin \<in> set (fcp_Amount fcp) \<Longrightarrow> Int_BigInt E (Amount coin) \<noteq> None"
  shows "DistributionFundCommunityPoolToSub E msg =
     (if fcp_Amount fcp = []
      then Ret (SubsetEvent0\<lparr>se_Type := [''fund_community_pool''], se_Module := ''distribution'',
             se_Node := [''depositor'' \<mapsto> [Account_ID (fcp_Depositor fcp)]],
             se_Sender := [\<lparr>et_Account = Account_ID (fcp_Depositor fcp), et_Amounts = []\<rparr>]\<rparr>, None)
      else Panic NilDereference)"
proof (cases "fcp_Amount fcp")
  case Nil
  with assms(1) show ?thesis
    by (simp add: DistributionFundCommunityPoolToSub_def with_msg_def distributionProduceEvTx_def)
next
  case (Cons coin coins)
  with assms(2) [of coin] obtain n where "Int_BigInt E (Amount coin) = Some n" by auto
  with Cons assms(1) show ?thesis
    by (simp add: DistributionFundCommunityPoolToSub_def with_msg_def distributionProduceEvTx_def
        distribution_amount_def TransactionAmount0_def)
qed

theorem fund_community_pool_panics_witness:
  "DistributionFundCommunityPoolToSub (sample_env\<lparr>Unmarshal_MsgFundCommunityPool := \<lambda>_. Inr
       \<lparr>fcp_Amount = [\<lparr>Denom = ''uatom'', Amount = 4\<rparr>], fcp_Depositor = ''bob''\<rparr>\<rparr>) [] = Panic NilDereference"
  using fund_community_pool_panics [of "sample_env\<lparr>Unmarshal_MsgFundCommunityPool := \<lambda>_. Inr
       \<lparr>fcp_Amount = [\<lparr>Denom = ''uatom'', Amount = 4\<rparr>], fcp_Depositor = ''bob''\<rparr>\<rparr>" "[]"
       "\<lparr>fcp_Amount = [\<lparr>Denom = ''uatom'', Amount = 4\<rparr>], fcp_Depositor = ''bob''\<rparr>"]
  by (simp add: sample_env_def)

end
