(* ===== verification/Mapper_IBC.thy ===== *)
theory Mapper_IBC
  imports Mapper_Contract
begin

text \<open>
  The mappers for IBC messages (\<^verbatim>\<open>ibc_client.go\<close>, \<^verbatim>\<open>ibc_connection.go\<close>, \<^verbatim>\<open>ibc_channel.go\<close>,
  \<^verbatim>\<open>ibc_transfer.go\<close>) and for the messages of the Tendermint liquidity module
  (\<^verbatim>\<open>tendermint_liquidity.go\<close>) of \<^verbatim>\<open>src/api/mapper\<close>. The IBC mappers decode their message, read nothing
  of it and report its type; the liquidity mappers file coins under keys, numbered where there may be
  several. All of them are interpretations of \<open>sub_mapper\<close>.
\<close>

subsection \<open>IBC\<close>

text \<open>The body all eighteen functions share: decode as \<open>m\<close>, fail with \<open>Not a t type\<close>, or report \<open>t\<close>.\<close>

definition ibc_to_sub :: "('i, 'd) env \<Rightarrow> ibc_msg \<Rightarrow> string \<Rightarrow> bytes \<Rightarrow> SubsetEvent result" where
  "ibc_to_sub E m t msg =
     with_msg (case Unmarshal_ibc E m msg of Some e \<Rightarrow> Inl e | None \<Rightarrow> Inr ()) (''Not a '' @ t @ '' type: '')
       (\<lambda>_. Ret (SubsetEvent0\<lparr>se_Type := [t], se_Module := ''ibc''\<rparr>, None))"

definition IBCCreateClientToSub :: "('i, 'd) env \<Rightarrow> bytes \<Rightarrow> SubsetEvent result" where
  "IBCCreateClientToSub E msg = ibc_to_sub E MsgCreateClient ''create_client'' msg"

definition IBCUpdateClientToSub :: "('i, 'd) env \<Rightarrow> bytes \<Rightarrow> SubsetEvent result" where
  "IBCUpdateClientToSub E msg = ibc_to_sub E MsgUpdateClient ''update_client'' msg"

definition IBCUpgradeClientToSub :: "('i, 'd) env \<Rightarrow> bytes \<Rightarrow> SubsetEvent result" where
  "IBCUpgradeClientToSub E msg = ibc_to_sub E MsgUpgradeClient ''upgrade_client'' msg"

definition IBCSubmitMisbehaviourToSub :: "('i, 'd) env \<Rightarrow> bytes \<Rightarrow> SubsetEvent result" where
  "IBCSubmitMisbehaviourToSub E msg = ibc_to_sub E MsgSubmitMisbehaviour ''submit_misbehaviour'' msg"

definition IBCConnectionOpenInitToSub :: "('i, 'd) env \<Rightarrow> bytes \<Rightarrow> SubsetEvent result" where
  "IBCConnectionOpenInitToSub E msg = ibc_to_sub E MsgConnectionOpenInit ''connection_open_init'' msg"

definition IBCConnectionOpenConfirmToSub :: "('i, 'd) env \<Rightarrow> bytes \<Rightarrow> SubsetEvent result" where
  "IBCConnectionOpenConfirmToSub E msg = ibc_to_sub E MsgConnectionOpenConfirm ''connection_open_confirm'' msg"

definition IBCConnectionOpenAckToSub :: "('i, 'd) env \<Rightarrow> bytes \<Rightarrow> SubsetEvent result" where
  "IBCConnectionOpenAckToSub E msg = ibc_to_sub E MsgConnectionOpenAck ''connection_open_ack'' msg"

definition IBCConnectionOpenTryToSub :: "('i, 'd) env \<Rightarrow> bytes \<Rightarrow> SubsetEvent result" where
  "IBCConnectionOpenTryToSub E msg = ibc_to_sub E MsgConnectionOpenTry ''connection_open_try'' msg"

definition IBCChannelOpenInitToSub :: "('i, 'd) env \<Rightarrow> bytes \<Rightarrow> SubsetEvent result" where
  "IBCChannelOpenInitToSub E msg = ibc_to_sub E MsgChannelOpenInit ''channel_open_init'' msg"

definition IBCChannelOpenConfirmToSub :: "('i, 'd) env \<Rightarrow> bytes \<Rightarrow> SubsetEvent result" where
  "IBCChannelOpenConfirmToSub E msg = ibc_to_sub E MsgChannelOpenConfirm ''channel_open_confirm'' msg"

definition IBCChannelOpenAckToSub :: "('i, 'd) env \<Rightarrow> bytes \<Rightarrow> SubsetEvent result" where
  "IBCChannelOpenAckToSub E msg = ibc_to_sub E MsgChannelOpenAck ''channel_open_ack'' msg"

definition IBCChannelOpenTryToSub :: "('i, 'd) env \<Rightarrow> bytes \<Rightarrow> SubsetEvent result" where
  "IBCChannelOpenTryToSub E msg = ibc_to_sub E MsgChannelOpenTry ''channel_open_try'' msg"

definition IBCChannelCloseInitToSub :: "('i, 'd) env \<Rightarrow> bytes \<Rightarrow> SubsetEvent result" where
  "IBCChannelCloseInitToSub E msg = ibc_to_sub E MsgChannelCloseInit ''channel_close_init'' msg"

definition IBCChannelCloseConfirmToSub :: "('i, 'd) env \<Rightarrow> bytes \<Rightarrow> SubsetEvent result" where
  "IBCChannelCloseConfirmToSub E msg = ibc_to_sub E MsgChannelCloseConfirm ''channel_close_confirm'' msg"

definition IBCChannelRecvPacketToSub :: "('i, 'd) env \<Rightarrow> bytes \<Rightarrow> SubsetEvent result" where
  "IBCChannelRecvPacketToSub E msg = ibc_to_sub E MsgRecvPacket ''recv_packet'' msg"

definition IBCChannelTimeoutToSub :: "('i, 'd) env \<Rightarrow> bytes \<Rightarrow> SubsetEvent result" where
  "IBCChannelTimeoutToSub E msg = ibc_to_sub E MsgTimeout ''timeout'' msg"

definition IBCChannelAcknowledgementToSub :: "('i, 'd) env \<Rightarrow> bytes \<Rightarrow> SubsetEvent result" where
  "IBCChannelAcknowledgementToSub E msg = ibc_to_sub E MsgAcknowledgement ''channel_acknowledgement'' msg"

definition IBCTransferToSub :: "('i, 'd) env \<Rightarrow> bytes \<Rightarrow> SubsetEvent result" where
  "IBCTransferToSub E msg = ibc_to_sub E MsgTransfer ''transfer'' msg"

subsection \<open>Liquidity\<close>

text \<open>\<open>fmt.Sprintf("deposit_coin_%d", i)\<close>.\<close>

definition deposit_coin_key :: "nat \<Rightarrow> string" where
  "deposit_coin_key i = ''deposit_coin_'' @ Itoa i"

text \<open>\<open>strconv.FormatUint(uint64(x), 10)\<close> of a \<open>uint32\<close>.\<close>

definition FormatUint32 :: "uint32 \<Rightarrow> string" where
  "FormatUint32 x = FormatUint (ucast x)"

definition TendermintCreatePool :: "('i, 'd) env \<Rightarrow> bytes \<Rightarrow> SubsetEvent result" where
  "TendermintCreatePool E msg =
     with_msg (Unmarshal_MsgCreatePool E msg) ''Not a create_pool type: '' (\<lambda>m.
       Ret (SubsetEvent0\<lparr>se_Type := [''create_pool''], se_Module := ''tendermint_liquidity'',
         se_Node := [''pool_creator_address'' \<mapsto> [Account_ID (cp_PoolCreatorAddress m)]],
         se_Additional := [''pool_type_id'' \<mapsto> [FormatUint32 (cp_PoolTypeId m)]],
         se_Amount := fill_map deposit_coin_key (coin_full_ta E) (cp_DepositCoins m)\<rparr>, None))"

definition TendermintDepositWithinBatch :: "('i, 'd) env \<Rightarrow> bytes \<Rightarrow> SubsetEvent result" where
  "TendermintDepositWithinBatch E msg =
     with_msg (Unmarshal_MsgDepositWithinBatch E msg) ''Not a deposit_within_batch type: '' (\<lambda>m.
       Ret (SubsetEvent0\<lparr>se_Type := [''deposit_within_batch''], se_Module := ''tendermint_liquidity'',
         se_Node := [''depositor_address'' \<mapsto> [Account_ID (dwb_DepositorAddress m)]],
         se_Sender := [\<lparr>et_Account = Account_ID (dwb_DepositorAddress m), et_Amounts = []\<rparr>],
         se_Additional := [''pool_id'' \<mapsto> [FormatUint (dwb_PoolId m)]],
         se_Amount := fill_map deposit_coin_key (coin_full_ta E) (dwb_DepositCoins m)\<rparr>, None))"

definition TendermintWithdrawWithinBatch :: "('i, 'd) env \<Rightarrow> bytes \<Rightarrow> SubsetEvent result" where
  "TendermintWithdrawWithinBatch E msg =
     with_msg (Unmarshal_MsgWithdrawWithinBatch E msg) ''Not a withdraw_within_batch type: '' (\<lambda>m.
       Ret (SubsetEvent0\<lparr>se_Type := [''withdraw_within_batch''], se_Module := ''tendermint_liquidity'',
         se_Node := [''withdrawer_address'' \<mapsto> [Account_ID (wwb_WithdrawerAddress m)]],
         se_Amount := [''pool_coin'' \<mapsto> coin_full_ta E (wwb_PoolCoin m)],
         se_Recipient := [\<lparr>et_Account = Account_ID (wwb_WithdrawerAddress m), et_Amounts = []\<rparr>],
         se_Additional := [''pool_id'' \<mapsto> [FormatUint (wwb_PoolId m)]]\<rparr>, None))"

definition TendermintSwapWithinBatch :: "('i, 'd) env \<Rightarrow> bytes \<Rightarrow> SubsetEvent result" where
  "TendermintSwapWithinBatch E msg =
     with_msg (Unmarshal_MsgSwapWithinBatch E msg) ''Not a swap_within_batch type: '' (\<lambda>m.
       Ret (SubsetEvent0\<lparr>se_Type := [''swap_within_batch''], se_Module := ''tendermint_liquidity'',
         se_Node := [''swap_requester'' \<mapsto> [Account_ID (swb_SwapRequesterAddress m)]],
         se_Amount := [''demand_coin_denom'' \<mapsto> TransactionAmount0\<lparr>ta_Currency := swb_DemandCoinDenom m\<rparr>,
                       ''order_price'' \<mapsto> (dec_ta E (swb_OrderPrice m))\<lparr>ta_Exp := sdk_Precision E\<rparr>,
                       ''offer_coin'' \<mapsto> coin_full_ta E (swb_OfferCoin m),
                       ''offer_coin_fee'' \<mapsto> coin_full_ta E (swb_OfferCoinFee m)],
         se_Additional := [''pool_id'' \<mapsto> [FormatUint (swb_PoolId m)],
                           ''swap_type_id'' \<mapsto> [FormatUint32 (swb_SwapTypeId m)]]\<rparr>, None))"

subsection \<open>The mappers fulfil the contract\<close>

lemma sub_mapper_ibc: "sub_mapper (\<lambda>msg lg. ibc_to_sub E m t msg) t ''ibc''"
  by (rule sub_mapper_plain) (auto simp: ibc_to_sub_def)

interpretation ibc_create_client: sub_mapper "\<lambda>msg lg. IBCCreateClientToSub E msg" "''create_client''" "''ibc''" for E
  unfolding IBCCreateClientToSub_def by (rule sub_mapper_ibc)

interpretation ibc_update_client: sub_mapper "\<lambda>msg lg. IBCUpdateClientToSub E msg" "''update_client''" "''ibc''" for E
  unfolding IBCUpdateClientToSub_def by (rule sub_mapper_ibc)

interpretation ibc_upgrade_client: sub_mapper "\<lambda>msg lg. IBCUpgradeClientToSub E msg" "''upgrade_client''" "''ibc''" for E
  unfolding IBCUpgradeClientToSub_def by (rule sub_mapper_ibc)

interpretation ibc_submit_misbehaviour: sub_mapper "\<lambda>msg lg. IBCSubmitMisbehaviourToSub E msg" "''submit_misbehaviour''" "''ibc''" for E
  unfolding IBCSubmitMisbehaviourToSub_def by (rule sub_mapper_ibc)

interpretation ibc_connection_open_init: sub_mapper "\<lambda>msg lg. IBCConnectionOpenInitToSub E msg" "''connection_open_init''" "''ibc''" for E
  unfolding IBCConnectionOpenInitToSub_def by (rule sub_mapper_ibc)

interpretation ibc_connection_open_confirm: sub_mapper "\<lambda>msg lg. IBCConnectionOpenConfirmToSub E msg" "''connection_open_confirm''" "''ibc''" for E
  unfolding IBCConnectionOpenConfirmToSub_def by (rule sub_mapper_ibc)

interpretation ibc_connection_open_ack: sub_mapper "\<lambda>msg lg. IBCConnectionOpenAckToSub E msg" "''connection_open_ack''" "''ibc''" for E
  unfolding IBCConnectionOpenAckToSub_def by (rule sub_mapper_ibc)

interpretation ibc_connection_open_try: sub_mapper "\<lambda>msg lg. IBCConnectionOpenTryToSub E msg" "''connection_open_try''" "''ibc''" for E
  unfolding IBCConnectionOpenTryToSub_def by (rule sub_mapper_ibc)

interpretation ibc_channel_open_init: sub_mapper "\<lambda>msg lg. IBCChannelOpenInitToSub E msg" "''channel_open_init''" "''ibc''" for E
  unfolding IBCChannelOpenInitToSub_def by (rule sub_mapper_ibc)

interpretation ibc_channel_open_confirm: sub_mapper "\<lambda>msg lg. IBCChannelOpenConfirmToSub E msg" "''channel_open_confirm''" "''ibc''" for E
  unfolding IBCChannelOpenConfirmToSub_def by (rule sub_mapper_ibc)

interpretation ibc_channel_open_ack: sub_mapper "\<lambda>msg lg. IBCChannelOpenAckToSub E msg" "''channel_open_ack''" "''ibc''" for E
  unfolding IBCChannelOpenAckToSub_def by (rule sub_mapper_ibc)

interpretation ibc_channel_open_try: sub_mapper "\<lambda>msg lg. IBCChannelOpenTryToSub E msg" "''channel_open_try''" "''ibc''" for E
  unfolding IBCChannelOpenTryToSub_def by (rule sub_mapper_ibc)

interpretation ibc_channel_close_init: sub_mapper "\<lambda>msg lg. IBCChannelCloseInitToSub E msg" "''channel_close_init''" "''ibc''" for E
  unfolding IBCChannelCloseInitToSub_def by (rule sub_mapper_ibc)

interpretation ibc_channel_close_confirm: sub_mapper "\<lambda>msg lg. IBCChannelCloseConfirmToSub E msg" "''channel_close_confirm''" "''ibc''" for E
  unfolding IBCChannelCloseConfirmToSub_def by (rule sub_mapper_ibc)

interpretation ibc_recv_packet: sub_mapper "\<lambda>msg lg. IBCChannelRecvPacketToSub E msg" "''recv_packet''" "''ibc''" for E
  unfolding IBCChannelRecvPacketToSub_def by (rule sub_mapper_ibc)

interpretation ibc_timeout: sub_mapper "\<lambda>msg lg. IBCChannelTimeoutToSub E msg" "''timeout''" "''ibc''" for E
  unfolding IBCChannelTimeoutToSub_def by (rule sub_mapper_ibc)

interpretation ibc_channel_acknowledgement: sub_mapper "\<lambda>msg lg. IBCChannelAcknowledgementToSub E msg" "''channel_acknowledgement''" "''ibc''" for E
  unfolding IBCChannelAcknowledgementToSub_def by (rule sub_mapper_ibc)

interpretation ibc_transfer: sub_mapper "\<lambda>msg lg. IBCTransferToSub E msg" "''transfer''" "''ibc''" for E
  unfolding IBCTransferToSub_def by (rule sub_mapper_ibc)

interpretation create_pool: sub_mapper "\<lambda>msg lg. TendermintCreatePool E msg" "''create_pool''" "''tendermint_liquidity''" for E
  by (rule sub_mapper_plain) (auto simp: TendermintCreatePool_def)

interpretation deposit_within_batch: sub_mapper "\<lambda>msg lg. TendermintDepositWithinBatch E msg" "''deposit_within_batch''" "''tendermint_liquidity''" for E
  by (rule sub_mapper_plain) (auto simp: TendermintDepositWithinBatch_def)

interpretation withdraw_within_batch: sub_mapper "\<lambda>msg lg. TendermintWithdrawWithinBatch E msg" "''withdraw_within_batch''" "''tendermint_liquidity''" for E
  by (rule sub_mapper_plain) (auto simp: TendermintWithdrawWithinBatch_def)

interpretation swap_within_batch: sub_mapper "\<lambda>msg lg. TendermintSwapWithinBatch E msg" "''swap_within_batch''" "''tendermint_liquidity''" for E
  by (rule sub_mapper_plain) (auto simp: TendermintSwapWithinBatch_def)

subsection \<open>Property\<close>

lemma inj_deposit_coin_key: "inj deposit_coin_key"
  by (auto simp: inj_def deposit_coin_key_def)

text \<open>All coins deposited when a liquidity pool is created or topped up are kept, the
  \<open>i\<close>-th under the key \<open>deposit_coin_i\<close>, and the amount map holds nothing else.
\<close>

lemma liquidity_deposit_keeps_coins:
  assumes "TendermintCreatePool E msg = Ret (se, None) \<and> Unmarshal_MsgCreatePool E msg = Inr cp \<and> coins = cp_DepositCoins cp
     \<or> TendermintDepositWithinBatch E msg = Ret (se, None) \<and> Unmarshal_MsgDepositWithinBatch E msg = Inr dwb \<and> coins = dwb_DepositCoins dwb"
  shows "(\<forall>i < length coins. se_Amount se (deposit_coin_key i) = Some (coin_full_ta E (coins ! i)))
       \<and> dom (se_Amount se) = deposit_coin_key ` {..<length coins}"
proof -
  from assms have "se_Amount se = fill_map deposit_coin_key (coin_full_ta E) coins"
    by (auto simp: TendermintCreatePool_def TendermintDepositWithinBatch_def with_msg_def)
  then show ?thesis by (simp add: fill_map_at [OF inj_deposit_coin_key] dom_fill_map)
qed

lemma liquidity_deposit_keeps_coins_witness:
  "\<exists>se. TendermintCreatePool (sample_env\<lparr>Unmarshal_MsgCreatePool := \<lambda>_. Inr \<lparr>cp_PoolCreatorAddress = ''a'', cp_PoolTypeId = 1,
       cp_DepositCoins = [\<lparr>Denom = ''uatom'', Amount = 4\<rparr>, \<lparr>Denom = ''stake'', Amount = 5\<rparr>]\<rparr>\<rparr>) [] = Ret (se, None)
     \<and> dom (se_Amount se) = {''deposit_coin_0'', ''deposit_coin_1''}"
proof -
  let ?m = "\<lparr>cp_PoolCreatorAddress = ''a'', cp_PoolTypeId = 1,
       cp_DepositCoins = [\<lparr>Denom = ''uatom'', Amount = 4\<rparr>, \<lparr>Denom = ''stake'', Amount = 5\<rparr>]\<rparr> :: int MsgCreatePool"
  let ?E = "sample_env\<lparr>Unmarshal_MsgCreatePool := \<lambda>_. Inr ?m\<rparr>"
  obtain se where r: "TendermintCreatePool ?E [] = Ret (se, None)"
    by (simp add: TendermintCreatePool_def with_msg_def)
  have "{..<length (cp_DepositCoins ?m)} = {0, 1}" by auto
  then have "dom (se_Amount se) = {''deposit_coin_0'', ''deposit_coin_1''}"
    using liquidity_deposit_keeps_coins [of ?E "[]" se ?m "cp_DepositCoins ?m"] r
    by (simp add: deposit_coin_key_def Itoa_def format_nat.simps)
  with r show ?thesis by blast
qed

end
