(* ===== verification/Transaction.thy ===== *)
theory Transaction
  imports Mapper_Cosmos Mapper_IBC
begin

text \<open>
  \<^verbatim>\<open>src/api/transaction.go\<close>: from raw chain transactions to the output format. \<open>findLog\<close> picks a
  message's log; \<open>addSubEvent\<close>, \<open>addIBCSubEvent\<close> and \<open>addTendermintSubEvent\<close> choose the mapper by the
  message's route and type and attach its event; \<open>rawToTransaction\<close> converts one transaction. The
  switches of the source are \<open>cosmos_sub\<close>, \<open>ibc_sub\<close> and \<open>tendermint_sub\<close>. The metric that counts a
  message that could not be converted is part of the result. The lemmas use the contract
  \<open>sub_mapper\<close> only, never the body of a mapper.
\<close>

subsection \<open>Choosing the log and attaching an event\<close>

definition findLog :: "ABCIMessageLog list \<Rightarrow> nat \<Rightarrow> ABCIMessageLog" where
  "findLog logs index =
     (if length logs \<le> index then ABCIMessageLog0
      else if lg_MsgIndex (logs ! index) = word_of_nat index then logs ! index
      else case find (\<lambda>lg. lg_MsgIndex lg = word_of_nat index) logs of
             Some lg \<Rightarrow> lg
           | None \<Rightarrow> ABCIMessageLog0)"

text \<open>The end of the three functions: \<open>if len(ev.Type) > 0 { ... }; return err\<close>.\<close>

definition attach_event :: "SubsetEvent result \<Rightarrow> TransactionEvent \<Rightarrow> TransactionEvent result" where
  "attach_event r tev =
     bind_go r (\<lambda>(ev, err).
       Ret (if se_Type ev \<noteq> [] then tev\<lparr>tev_Sub := tev_Sub tev @ [ev], tev_Kind := hd (se_Type ev)\<rparr> else tev, err))"

text \<open>\<open>fmt.Errorf("problem with %s - %s: %w", msgRoute, msgType, errUnknownMessageType)\<close>; \<open>sep\<close> is the
  text before \<open>%w\<close>, which has a second space in some branches.\<close>

definition unknown_message :: "string \<Rightarrow> string \<Rightarrow> string \<Rightarrow> SubsetEvent result" where
  "unknown_message sep msgRoute msgType =
     Ret (SubsetEvent0, Some (Errorf_w (''problem with '' @ msgRoute @ '' - '' @ msgType @ sep) ErrUnknownMessageType []))"

subsection \<open>The switches\<close>

definition cosmos_sub ::
  "('i, 'd) env \<Rightarrow> string \<Rightarrow> string \<Rightarrow> bytes \<Rightarrow> ABCIMessageLog \<Rightarrow> SubsetEvent result" where
  "cosmos_sub E msgRoute msgType v lg =
     (if msgRoute = ''bank'' then
        if msgType = ''MsgSend'' then BankSendToSub E v lg
        else if msgType = ''MsgMultiSend'' then BankMultisendToSub E v lg
        else unknown_message '': '' msgRoute msgType
      else if msgRoute = ''crisis'' then
        if msgType = ''MsgVerifyInvariant'' then CrisisVerifyInvariantToSub E v
        else unknown_message '': '' msgRoute msgType
      else if msgRoute = ''distribution'' then
        if msgType = ''MsgWithdrawValidatorCommission'' then DistributionWithdrawValidatorCommissionToSub E v lg
        else if msgType = ''MsgSetWithdrawAddress'' then DistributionSetWithdrawAddressToSub E v
        else if msgType = ''MsgWithdrawDelegatorReward'' then DistributionWithdrawDelegatorRewardToSub E v lg
        else if msgType = ''MsgFundCommunityPool'' then DistributionFundCommunityPoolToSub E v
        else unknown_message '': '' msgRoute msgType
      else if msgRoute = ''evidence'' then
        if msgType = ''MsgSubmitEvidence'' then EvidenceSubmitEvidenceToSub E v
        else unknown_message '': '' msgRoute msgType
      else if msgRoute = ''gov'' then
        if msgType = ''MsgDeposit'' then GovDepositToSub E v lg
        else if msgType = ''MsgVote'' then GovVoteToSub E v
        else if msgType = ''MsgSubmitProposal'' then GovSubmitProposalToSub E v lg
        else unknown_message '': '' msgRoute msgType
      else if msgRoute = ''slashing'' then
        if msgType = ''MsgUnjail'' then SlashingUnjailToSub E v
        else unknown_message '': '' msgRoute msgType
      else if msgRoute = ''vesting'' then
        if msgType = ''MsgCreateVestingAccount'' then VestingMsgCreateVestingAccountToSub E v lg
        else unknown_message '': '' msgRoute msgType
      else if msgRoute = ''staking'' then
        if msgType = ''MsgUndelegate'' then StakingUndelegateToSub E v lg
        else if msgType = ''MsgEditValidator'' then StakingEditValidatorToSub E v
        else if msgType = ''MsgCreateValidator'' then StakingCreateValidatorToSub E v
        else if msgType = ''MsgDelegate'' then StakingDelegateToSub E v lg
        else if msgType = ''MsgBeginRedelegate'' then StakingBeginRedelegateToSub E v lg
        else unknown_message '': '' msgRoute msgType
      else unknown_message '': '' msgRoute msgType)"

definition addSubEvent ::
  "('i, 'd) env \<Rightarrow> string \<Rightarrow> string \<Rightarrow> TransactionEvent \<Rightarrow> Any \<Rightarrow> ABCIMessageLog \<Rightarrow> TransactionEvent result" where
  "addSubEvent E msgRoute msgType tev m lg = attach_event (cosmos_sub E msgRoute msgType (Value m) lg) tev"

definition ibc_sub :: "('i, 'd) env \<Rightarrow> string \<Rightarrow> string \<Rightarrow> bytes \<Rightarrow> SubsetEvent result" where
  "ibc_sub E msgRoute msgType v =
     (if msgRoute = ''client'' then
        if msgType = ''MsgCreateClient'' then IBCCreateClientToSub E v
        else if msgType = ''MsgUpdateClient'' then IBCUpdateClientToSub E v
        else if msgType = ''MsgUpgradeClient'' then IBCUpgradeClientToSub E v
        else if msgType = ''MsgSubmitMisbehaviour'' then IBCSubmitMisbehaviourToSub E v
        else unknown_message '': '' msgRoute msgType
      else if msgRoute = ''connection'' then
        if msgType = ''MsgConnectionOpenInit'' then IBCConnectionOpenInitToSub E v
        else if msgType = ''MsgConnectionOpenConfirm'' then IBCConnectionOpenConfirmToSub E v
        else if msgType = ''MsgConnectionOpenAck'' then IBCConnectionOpenAckToSub E v
        else if msgType = ''MsgConnectionOpenTry'' then IBCConnectionOpenTryToSub E v
        else unknown_message '':  '' msgRoute msgType
      else if msgRoute = ''channel'' then
        if msgType = ''MsgChannelOpenInit'' then IBCChannelOpenInitToSub E v
        else if msgType = ''MsgChannelOpenTry'' then IBCChannelOpenTryToSub E v
        else if msgType = ''MsgChannelOpenConfirm'' then IBCChannelOpenConfirmToSub E v
        else if msgType = ''MsgChannelOpenAck'' then IBCChannelOpenAckToSub E v
        else if msgType = ''MsgChannelCloseInit'' then IBCChannelCloseInitToSub E v
        else if msgType = ''MsgChannelCloseConfirm'' then IBCChannelCloseConfirmToSub E v
        else if msgType = ''MsgRecvPacket'' then IBCChannelRecvPacketToSub E v
        else if msgType = ''MsgTimeout'' then IBCChannelTimeoutToSub E v
        else if msgType = ''MsgAcknowledgement'' then IBCChannelAcknowledgementToSub E v
        else unknown_message '':  '' msgRoute msgType
      else if msgRoute = ''transfer'' then
        if msgType = ''MsgTransfer'' then IBCTransferToSub E v
        else unknown_message '':  '' msgRoute msgType
      else unknown_message '':  '' msgRoute msgType)"

definition addIBCSubEvent ::
  "('i, 'd) env \<Rightarrow> string \<Rightarrow> string \<Rightarrow> TransactionEvent \<Rightarrow> Any \<Rightarrow> ABCIMessageLog \<Rightarrow> TransactionEvent result" where
  "addIBCSubEvent E msgRoute msgType tev m lg = attach_event (ibc_sub E msgRoute msgType (Value m)) tev"

definition tendermint_sub :: "('i, 'd) env \<Rightarrow> string \<Rightarrow> string \<Rightarrow> bytes \<Rightarrow> SubsetEvent result" where
  "tendermint_sub E msgRoute msgType v =
     (if msgRoute = ''liquidity'' then
        if msgType = ''MsgCreatePool'' then TendermintCreatePool E v
        else if msgType = ''MsgDepositWithinBatch'' then TendermintDepositWithinBatch E v
        else if msgType = ''MsgWithdrawWithinBatch'' then TendermintWithdrawWithinBatch E v
        else if msgType = ''MsgSwapWithinBatch'' then TendermintSwapWithinBatch E v
        else unknown_message '': '' msgRoute msgType
      else unknown_message '':  '' msgRoute msgType)"

definition addTendermintSubEvent ::
  "('i, 'd) env \<Rightarrow> string \<Rightarrow> string \<Rightarrow> TransactionEvent \<Rightarrow> Any \<Rightarrow> ABCIMessageLog \<Rightarrow> TransactionEvent result" where
  "addTendermintSubEvent E msgRoute msgType tev m lg =
     attach_event (tendermint_sub E msgRoute msgType (Value m)) tev"

subsection \<open>One transaction\<close>

datatype tx_metric = UnknownTransaction string | BrokenTransaction string

definition message_event :: "('i, 'd) env \<Rightarrow> TxResponse \<Rightarrow> nat \<Rightarrow> Any \<Rightarrow> TransactionEvent result" where
  "message_event E resp index m =
     (let tev = TransactionEvent0\<lparr>tev_ID := Itoa index\<rparr>;
          lg = findLog (r_Logs resp) index;
          tPath = Split (TypeUrl m) CHR ''.''
      in if length tPath = 5 \<and> tPath ! 0 = ''/ibc'' then addIBCSubEvent E (tPath ! 2) (tPath ! 4) tev m lg
         else if length tPath = 4 \<and> tPath ! 0 = ''/cosmos'' then addSubEvent E (tPath ! 1) (tPath ! 3) tev m lg
         else if length tPath = 4 \<and> tPath ! 0 = ''/tendermint'' then addTendermintSubEvent E (tPath ! 1) (tPath ! 3) tev m lg
         else Ret (tev, Some (NewError (''TypeURL is in wrong format: '' @ TypeUrl m))))"

text \<open>One round of the loop over the messages; the state is the transaction and the metrics counted.\<close>

definition message_step ::
  "('i, 'd) env \<Rightarrow> TxResponse \<Rightarrow> nat \<times> Any \<Rightarrow> Transaction \<times> tx_metric list \<Rightarrow> (Transaction \<times> tx_metric list) result" where
  "message_step E resp im st =
     (let (index, m) = im; (trn, metrics) = st
      in bind_go (message_event E resp index m) (\<lambda>(tev, err).
           case err of
             Some e \<Rightarrow>
               Ret ((trn, metrics @ [if errors_Is e ErrUnknownMessageType
                                       then UnknownTransaction (TypeUrl m) else BrokenTransaction (TypeUrl m)]), Some e)
           | None \<Rightarrow> Ret ((trn\<lparr>tx_Events := tx_Events trn @ [tev]\<rparr>, metrics), None)))"

definition error_event :: "TxResponse \<Rightarrow> TransactionEvent" where
  "error_event resp = TransactionEvent0\<lparr>tev_Kind := ''error'',
     tev_Sub := [SubsetEvent0\<lparr>se_Type := [''error''], se_Module := r_Codespace resp,
       se_Error := Some \<lparr>see_Message = r_RawLog resp\<rparr>\<rparr>]\<rparr>"

definition fee_amount :: "('i, 'd) env \<Rightarrow> 'i Coin \<Rightarrow> TransactionAmount" where
  "fee_amount E c = TransactionAmount0\<lparr>ta_Currency := Denom c, ta_Numeric := Int_BigInt E (Amount c),
     ta_Text := Int_String E (Amount c)\<rparr>"

lemma fee_amount_eq [simp]: "fee_amount = coin_ta"
  by (simp add: fee_amount_def coin_ta_def fun_eq_iff)

definition add_fee :: "('i, 'd) env \<Rightarrow> 'i Tx \<Rightarrow> Transaction \<Rightarrow> Transaction go" where
  "add_fee E tx trn =
     (case in_AuthInfo tx of
        None \<Rightarrow> Ret trn
      | Some ai \<Rightarrow>
          (case ai_Fee ai of
             None \<Rightarrow> Panic NilDereference
           | Some fee \<Rightarrow> Ret (trn\<lparr>tx_Fee := tx_Fee trn @ map (fee_amount E) (fee_Amount fee)\<rparr>)))"

definition rawToTransaction ::
  "('i, 'd) env \<Rightarrow> 'i Tx \<Rightarrow> TxResponse \<Rightarrow> (Transaction \<times> tx_metric list) result" where
  "rawToTransaction E tx resp =
     (let trn = Transaction0\<lparr>tx_Height := r_Height resp, tx_Hash := r_TxHash resp,
            tx_GasWanted := r_GasWanted resp, tx_GasUsed := r_GasUsed resp,
            tx_RawLog := (if r_RawLog resp \<noteq> [] then r_RawLog resp else Logs_String E (r_Logs resp))\<rparr>
      in case Tx_Marshal E tx of
           Inl _ \<Rightarrow> Ret ((trn, []), Some (NewError ''Error marshaling tx to raw''))
         | Inr raw \<Rightarrow>
             let trn = trn\<lparr>tx_Raw := raw\<rparr>
             in bind_go
                  (case in_Body tx of
                     None \<Rightarrow> Ret ((trn, []), None)
                   | Some body \<Rightarrow>
                       for_go (message_step E resp) (enumerate 0 (body_Messages body))
                         (trn\<lparr>tx_Memo := body_Memo body\<rparr>, []))
                  (\<lambda>((trn, metrics), err).
                     case err of
                       Some e \<Rightarrow> Ret ((trn, metrics), Some e)
                     | None \<Rightarrow>
                         bind_go (add_fee E tx trn) (\<lambda>trn.
                           Ret ((if r_Code resp > 0
                                 then trn\<lparr>tx_Events := tx_Events trn @ [error_event resp]\<rparr>
                                 else trn, metrics), None))))"

subsection \<open>The messages the worker supports\<close>

text \<open>For each route and message type, the type and the module of the event it becomes. These tables are
  the specification the switches are compared with; the kinds are those of the repository's README, but for
  \<open>undelegate\<close>, which it calls \<open>begin_unbonding\<close>.\<close>

definition cosmos_routes :: "((string \<times> string) \<times> (string \<times> string)) list" where
  "cosmos_routes =
     [((''bank'', ''MsgSend''), (''send'', ''bank'')),
      ((''bank'', ''MsgMultiSend''), (''multisend'', ''bank'')),
      ((''crisis'', ''MsgVerifyInvariant''), (''verify_invariant'', ''crisis'')),
      ((''distribution'', ''MsgWithdrawValidatorCommission''), (''withdraw_validator_commission'', ''distribution'')),
      ((''distribution'', ''MsgSetWithdrawAddress''), (''set_withdraw_address'', ''distribution'')),
      ((''distribution'', ''MsgWithdrawDelegatorReward''), (''withdraw_delegator_reward'', ''distribution'')),
      ((''distribution'', ''MsgFundCommunityPool''), (''fund_community_pool'', ''distribution'')),
      ((''evidence'', ''MsgSubmitEvidence''), (''submit_evidence'', ''evidence'')),
      ((''gov'', ''MsgDeposit''), (''deposit'', ''gov'')),
      ((''gov'', ''MsgVote''), (''vote'', ''gov'')),
      ((''gov'', ''MsgSubmitProposal''), (''submit_proposal'', ''gov'')),
      ((''slashing'', ''MsgUnjail''), (''unjail'', ''slashing'')),
      ((''vesting'', ''MsgCreateVestingAccount''), (''msg_create_vesting_account'', ''vesting'')),
      ((''staking'', ''MsgUndelegate''), (''undelegate'', ''staking'')),
      ((''staking'', ''MsgEditValidator''), (''edit_validator'', ''distribution'')),
      ((''staking'', ''MsgCreateValidator''), (''create_validator'', ''distribution'')),
      ((''staking'', ''MsgDelegate''), (''delegate'', ''staking'')),
      ((''staking'', ''MsgBeginRedelegate''), (''begin_redelegate'', ''staking''))]"

definition ibc_routes :: "((string \<times> string) \<times> (string \<times> string)) list" where
  "ibc_routes =
     [((''client'', ''MsgCreateClient''), (''create_client'', ''ibc'')),
      ((''client'', ''MsgUpdateClient''), (''update_client'', ''ibc'')),
      ((''client'', ''MsgUpgradeClient''), (''upgrade_client'', ''ibc'')),
      ((''client'', ''MsgSubmitMisbehaviour''), (''submit_misbehaviour'', ''ibc'')),
      ((''connection'', ''MsgConnectionOpenInit''), (''connection_open_init'', ''ibc'')),
      ((''connection'', ''MsgConnectionOpenConfirm''), (''connection_open_confirm'', ''ibc'')),
      ((''connection'', ''MsgConnectionOpenAck''), (''connection_open_ack'', ''ibc'')),
      ((''connection'', ''MsgConnectionOpenTry''), (''connection_open_try'', ''ibc'')),
      ((''channel'', ''MsgChannelOpenInit''), (''channel_open_init'', ''ibc'')),
      ((''channel'', ''MsgChannelOpenTry''), (''channel_open_try'', ''ibc'')),
      ((''channel'', ''MsgChannelOpenConfirm''), (''channel_open_confirm'', ''ibc'')),
      ((''channel'', ''MsgChannelOpenAck''), (''channel_open_ack'', ''ibc'')),
      ((''channel'', ''MsgChannelCloseInit''), (''channel_close_init'', ''ibc'')),
      ((''channel'', ''MsgChannelCloseConfirm''), (''channel_close_confirm'', ''ibc'')),
      ((''channel'', ''MsgRecvPacket''), (''recv_packet'', ''ibc'')),
      ((''channel'', ''MsgTimeout''), (''timeout'', ''ibc'')),
      ((''channel'', ''MsgAcknowledgement''), (''channel_acknowledgement'', ''ibc'')),
      ((''transfer'', ''MsgTransfer''), (''transfer'', ''ibc''))]"

definition tendermint_routes :: "((string \<times> string) \<times> (string \<times> string)) list" where
  "tendermint_routes =
     [((''liquidity'', ''MsgCreatePool''), (''create_pool'', ''tendermint_liquidity'')),
      ((''liquidity'', ''MsgDepositWithinBatch''), (''deposit_within_batch'', ''tendermint_liquidity'')),
      ((''liquidity'', ''MsgWithdrawWithinBatch''), (''withdraw_within_batch'', ''tendermint_liquidity'')),
      ((''liquidity'', ''MsgSwapWithinBatch''), (''swap_within_batch'', ''tendermint_liquidity''))]"

text \<open>The event type and module of a type URL: \<open>None\<close> when the URL has no accepted form,
  \<open>Some None\<close> when it has one and no mapper.\<close>

definition url_route :: "string \<Rightarrow> (string \<times> string) option option" where
  "url_route url =
     (let p = Split url CHR ''.''
      in if length p = 5 \<and> p ! 0 = ''/ibc'' then Some (map_of ibc_routes (p ! 2, p ! 4))
         else if length p = 4 \<and> p ! 0 = ''/cosmos'' then Some (map_of cosmos_routes (p ! 1, p ! 3))
         else if length p = 4 \<and> p ! 0 = ''/tendermint'' then Some (map_of tendermint_routes (p ! 1, p ! 3))
         else None)"

subsection \<open>The switches choose by the tables\<close>

text \<open>The contract of the three switches: a pair the table holds is converted by a mapper with that
  type and module, any other pair is an unknown message.\<close>

definition event_for :: "(string \<times> string) option option \<Rightarrow> nat \<Rightarrow> TransactionEvent \<Rightarrow> bool" where
  "event_for route i tev =
     (case route of
        Some (Some (kind, modul)) \<Rightarrow>
          tev_ID tev = Itoa i \<and> tev_Kind tev = kind \<and> map se_Type (tev_Sub tev) = [[kind]]
            \<and> map se_Module (tev_Sub tev) = [modul]
      | _ \<Rightarrow> False)"

context sub_mapper
begin

lemma attached:
  assumes "attach_event (toSub msg lg) (TransactionEvent0\<lparr>tev_ID := Itoa i\<rparr>) = Ret (tev, None)"
  shows "event_for (Some (Some (kind, modul))) i tev"
proof -
  from assms obtain ev where ev: "toSub msg lg = Ret (ev, None)"
    and tev: "tev = (if se_Type ev \<noteq> [] then TransactionEvent0\<lparr>tev_ID := Itoa i, tev_Sub := [ev], tev_Kind := hd (se_Type ev)\<rparr>
                      else TransactionEvent0\<lparr>tev_ID := Itoa i\<rparr>)"
    by (auto simp: attach_event_def go_simps TransactionEvent0_def)
  from mapped [OF ev] tev show ?thesis by (simp add: event_for_def)
qed

lemma not_attached:
  "attach_event (toSub msg lg) tev = Ret (tev', Some e) \<Longrightarrow> \<not> errors_Is e ErrUnknownMessageType"
  by (auto simp: attach_event_def go_simps dest: failed)

end

locale sub_switch =
  fixes switch :: "string \<Rightarrow> string \<Rightarrow> bytes \<Rightarrow> ABCIMessageLog \<Rightarrow> SubsetEvent result"
    and routes :: "((string \<times> string) \<times> (string \<times> string)) list"
  assumes registered: "map_of routes (r, t) = Some (k, m) \<Longrightarrow> sub_mapper (switch r t) k m"
    and unregistered: "map_of routes (r, t) = None \<Longrightarrow> \<exists>sep. switch r t v lg = unknown_message sep r t"
begin

lemma switched:
  assumes ok: "attach_event (switch r t v lg) (TransactionEvent0\<lparr>tev_ID := Itoa i\<rparr>) = Ret (tev, None)"
  shows "event_for (Some (map_of routes (r, t))) i tev"
proof (cases "map_of routes (r, t)")
  case None
  then obtain sep where "switch r t v lg = unknown_message sep r t" using unregistered by blast
  with ok show ?thesis by (simp add: attach_event_def unknown_message_def)
next
  case (Some km)
  then obtain k m where km: "km = (k, m)" and "sub_mapper (switch r t) k m" using registered by (cases km) blast
  from sub_mapper.attached [OF this(2) ok] Some km show ?thesis by simp
qed

lemma not_switched:
  assumes err: "attach_event (switch r t v lg) tev = Ret (tev', Some e)"
  shows "errors_Is e ErrUnknownMessageType \<longleftrightarrow> map_of routes (r, t) = None"
proof (cases "map_of routes (r, t)")
  case None
  then obtain sep where "switch r t v lg = unknown_message sep r t" using unregistered by blast
  with None err show ?thesis by (auto simp: attach_event_def unknown_message_def)
next
  case (Some km)
  then obtain k m where "sub_mapper (switch r t) k m" using registered by (cases km) blast
  from sub_mapper.not_attached [OF this err] Some show ?thesis by simp
qed

end

lemmas cosmos_axioms =
  send.sub_mapper_axioms multisend.sub_mapper_axioms verify_invariant.sub_mapper_axioms
  withdraw_validator_commission.sub_mapper_axioms set_withdraw_address.sub_mapper_axioms
  withdraw_delegator_reward.sub_mapper_axioms fund_community_pool.sub_mapper_axioms
  submit_evidence.sub_mapper_axioms deposit.sub_mapper_axioms vote.sub_mapper_axioms
  submit_proposal.sub_mapper_axioms unjail.sub_mapper_axioms create_vesting_account.sub_mapper_axioms
  undelegate.sub_mapper_axioms edit_validator.sub_mapper_axioms create_validator.sub_mapper_axioms
  delegate.sub_mapper_axioms begin_redelegate.sub_mapper_axioms

lemmas ibc_axioms =
  ibc_create_client.sub_mapper_axioms ibc_update_client.sub_mapper_axioms
  ibc_upgrade_client.sub_mapper_axioms ibc_submit_misbehaviour.sub_mapper_axioms
  ibc_connection_open_init.sub_mapper_axioms ibc_connection_open_confirm.sub_mapper_axioms
  ibc_connection_open_ack.sub_mapper_axioms ibc_connection_open_try.sub_mapper_axioms
  ibc_channel_open_init.sub_mapper_axioms ibc_channel_open_try.sub_mapper_axioms
  ibc_channel_open_confirm.sub_mapper_axioms ibc_channel_open_ack.sub_mapper_axioms
  ibc_channel_close_init.sub_mapper_axioms ibc_channel_close_confirm.sub_mapper_axioms
  ibc_recv_packet.sub_mapper_axioms ibc_timeout.sub_mapper_axioms
  ibc_channel_acknowledgement.sub_mapper_axioms ibc_transfer.sub_mapper_axioms

lemmas tendermint_axioms =
  create_pool.sub_mapper_axioms deposit_within_batch.sub_mapper_axioms
  withdraw_within_batch.sub_mapper_axioms swap_within_batch.sub_mapper_axioms

lemma cosmos_sub_table: "list_all (\<lambda>((r, t), k, m). sub_mapper (cosmos_sub E r t) k m) cosmos_routes"
  unfolding cosmos_routes_def list.pred_inject prod.case
  by (intro conjI TrueI; simp add: cosmos_sub_def [abs_def] cosmos_axioms)

lemma cosmos_sub_registered:
  "map_of cosmos_routes (r, t) = Some (k, m) \<Longrightarrow> sub_mapper (cosmos_sub E r t) k m"
  by (drule map_of_SomeD, drule bspec [OF cosmos_sub_table [unfolded list_all_iff]], simp only: prod.case)

lemma cosmos_sub_unregistered:
  "map_of cosmos_routes (r, t) = None \<Longrightarrow> cosmos_sub E r t v lg = unknown_message '': '' r t"
  unfolding map_of_eq_None_iff by (simp add: cosmos_routes_def cosmos_sub_def)

lemma ibc_sub_table: "list_all (\<lambda>((r, t), k, m). sub_mapper (\<lambda>v lg. ibc_sub E r t v) k m) ibc_routes"
  unfolding ibc_routes_def list.pred_inject prod.case
  by (intro conjI TrueI; simp add: ibc_sub_def ibc_axioms)

lemma ibc_sub_registered:
  "map_of ibc_routes (r, t) = Some (k, m) \<Longrightarrow> sub_mapper (\<lambda>v lg. ibc_sub E r t v) k m"
  by (drule map_of_SomeD, drule bspec [OF ibc_sub_table [unfolded list_all_iff]], simp only: prod.case)

lemma unknown_message_sep: "\<exists>sep'. unknown_message sep r t = unknown_message sep' r t"
  by blast

lemma ibc_sub_unregistered:
  "map_of ibc_routes (r, t) = None \<Longrightarrow> \<exists>sep. ibc_sub E r t v = unknown_message sep r t"
  unfolding map_of_eq_None_iff by (simp add: ibc_routes_def ibc_sub_def unknown_message_sep)

lemma tendermint_sub_table: "list_all (\<lambda>((r, t), k, m). sub_mapper (\<lambda>v lg. tendermint_sub E r t v) k m) tendermint_routes"
  unfolding tendermint_routes_def list.pred_inject prod.case
  by (intro conjI TrueI; simp add: tendermint_sub_def tendermint_axioms)

lemma tendermint_sub_registered:
  "map_of tendermint_routes (r, t) = Some (k, m) \<Longrightarrow> sub_mapper (\<lambda>v lg. tendermint_sub E r t v) k m"
  by (drule map_of_SomeD, drule bspec [OF tendermint_sub_table [unfolded list_all_iff]], simp only: prod.case)

lemma tendermint_sub_unregistered:
  "map_of tendermint_routes (r, t) = None \<Longrightarrow> \<exists>sep. tendermint_sub E r t v = unknown_message sep r t"
  unfolding map_of_eq_None_iff by (simp add: tendermint_routes_def tendermint_sub_def unknown_message_sep)

interpretation cosmos: sub_switch "cosmos_sub E" cosmos_routes
  by (rule sub_switch.intro, erule cosmos_sub_registered, rule exI, erule cosmos_sub_unregistered)

interpretation ibc: sub_switch "\<lambda>r t v lg. ibc_sub E r t v" ibc_routes
  by (rule sub_switch.intro, erule ibc_sub_registered, erule ibc_sub_unregistered)

interpretation tendermint: sub_switch "\<lambda>r t v lg. tendermint_sub E r t v" tendermint_routes
  by (rule sub_switch.intro, erule tendermint_sub_registered, erule tendermint_sub_unregistered)

subsection \<open>The messages of a transaction\<close>

lemma message_event_ok:
  "message_event E resp i m = Ret (tev, None) \<Longrightarrow> event_for (url_route (TypeUrl m)) i tev"
  unfolding message_event_def url_route_def Let_def addSubEvent_def addIBCSubEvent_def addTendermintSubEvent_def
  by (simp add: cosmos.switched ibc.switched tendermint.switched split: if_splits)

lemma message_event_err:
  "message_event E resp i m = Ret (tev, Some e) \<Longrightarrow>
     errors_Is e ErrUnknownMessageType \<longleftrightarrow> url_route (TypeUrl m) = Some None"
  unfolding message_event_def url_route_def Let_def addSubEvent_def addIBCSubEvent_def addTendermintSubEvent_def
  by (auto simp: cosmos.not_switched ibc.not_switched tendermint.not_switched split: if_splits)

definition conversion_metric :: "Any \<Rightarrow> tx_metric" where
  "conversion_metric m =
     (if url_route (TypeUrl m) = Some None then UnknownTransaction (TypeUrl m) else BrokenTransaction (TypeUrl m))"

lemma message_step_cases:
  assumes "message_step E resp (i, m) (trn, ms) = Ret ((trn', ms'), err)"
  obtains (converted) tev where "err = None" "event_for (url_route (TypeUrl m)) i tev"
      "trn' = trn\<lparr>tx_Events := tx_Events trn @ [tev]\<rparr>" "ms' = ms"
    | (failed) e where "err = Some e" "trn' = trn" "ms' = ms @ [conversion_metric m]"
proof -
  from assms obtain tev err' where *: "message_event E resp i m = Ret (tev, err')"
    by (auto simp: message_step_def go_simps)
  show thesis
  proof (cases err')
    case None
    with assms * message_event_ok [of E resp i m tev] show thesis
      by (intro converted [of tev]) (simp_all add: message_step_def)
  next
    case (Some e)
    with assms * message_event_err [of E resp i m tev e] show thesis
      by (intro failed [of e]) (simp_all add: message_step_def conversion_metric_def)
  qed
qed

text \<open>The loop over the messages: every message before the end, or before the first that fails, has its
  event.\<close>

abbreviation message_events :: "nat \<Rightarrow> Any list \<Rightarrow> TransactionEvent list \<Rightarrow> bool" where
  "message_events n msgs evs \<equiv>
     list_all2 (\<lambda>(i, m) tev. event_for (url_route (TypeUrl m)) i tev) (enumerate n msgs) evs"

lemma messages_ok:
  "for_go (message_step E resp) (enumerate n msgs) (trn, ms) = Ret ((trn', ms'), None) \<Longrightarrow>
     ms' = ms \<and> (\<exists>evs. trn' = trn\<lparr>tx_Events := tx_Events trn @ evs\<rparr> \<and> message_events n msgs evs)"
proof (induction msgs arbitrary: n trn ms)
  case Nil
  then show ?case by simp
next
  case (Cons m msgs)
  from Cons.prems obtain trn1 ms1 where "message_step E resp (n, m) (trn, ms) = Ret ((trn1, ms1), None)"
    and rest: "for_go (message_step E resp) (enumerate (Suc n) msgs) (trn1, ms1) = Ret ((trn', ms'), None)"
    by (fastforce simp: go_simps split: option.split_asm)
  from this(1) show ?case
  proof (cases rule: message_step_cases)
    case (converted tev)
    from Cons.IH [OF rest] obtain evs where "ms' = ms1" "message_events (Suc n) msgs evs"
      "trn' = trn1\<lparr>tx_Events := tx_Events trn1 @ evs\<rparr>" by blast
    with converted show ?thesis by (intro conjI exI [of _ "tev # evs"]) simp_all
  qed simp
qed

lemma messages_failed:
  "for_go (message_step E resp) (enumerate n msgs) (trn, ms) = Ret ((trn', ms'), Some e) \<Longrightarrow>
     \<exists>pre m post evs. msgs = pre @ m # post \<and> trn' = trn\<lparr>tx_Events := tx_Events trn @ evs\<rparr>
       \<and> message_events n pre evs \<and> ms' = ms @ [conversion_metric m]"
proof (induction msgs arbitrary: n trn ms)
  case Nil
  then show ?case by simp
next
  case (Cons m msgs)
  from Cons.prems obtain trn1 ms1 err where step: "message_step E resp (n, m) (trn, ms) = Ret ((trn1, ms1), err)"
    by (auto simp: go_simps)
  from step show ?case
  proof (cases rule: message_step_cases)
    case (converted tev)
    with step Cons.prems have "for_go (message_step E resp) (enumerate (Suc n) msgs) (trn1, ms1) = Ret ((trn', ms'), Some e)"
      by simp
    from Cons.IH [OF this] obtain pre m' post evs where
      "msgs = pre @ m' # post" "message_events (Suc n) pre evs" "ms' = ms1 @ [conversion_metric m']"
      "trn' = trn1\<lparr>tx_Events := tx_Events trn1 @ evs\<rparr>" by blast
    with converted show ?thesis
      by (intro exI [of _ "m # pre"] exI [of _ m'] exI [of _ post] exI [of _ "tev # evs"]) simp
  next
    case (failed e')
    with step Cons.prems show ?thesis
      by (intro exI [of _ "[]"] exI [of _ m] exI [of _ msgs]) auto
  qed
qed

subsection \<open>One transaction\<close>

abbreviation tx_messages :: "'i Tx \<Rightarrow> Any list" where
  "tx_messages tx \<equiv> (case in_Body tx of None \<Rightarrow> [] | Some body \<Rightarrow> body_Messages body)"

text \<open>The transaction without its events and fees: what is copied from the response and the body.\<close>

definition tx_header :: "('i, 'd) env \<Rightarrow> 'i Tx \<Rightarrow> TxResponse \<Rightarrow> bytes \<Rightarrow> Transaction" where
  "tx_header E tx resp raw =
     Transaction0\<lparr>tx_Height := r_Height resp, tx_Hash := r_TxHash resp,
       tx_GasWanted := r_GasWanted resp, tx_GasUsed := r_GasUsed resp,
       tx_RawLog := (if r_RawLog resp \<noteq> [] then r_RawLog resp else Logs_String E (r_Logs resp)),
       tx_Raw := raw, tx_Memo := (case in_Body tx of None \<Rightarrow> [] | Some body \<Rightarrow> body_Memo body)\<rparr>"

definition tx_fees :: "('i, 'd) env \<Rightarrow> 'i Tx \<Rightarrow> TransactionAmount list" where
  "tx_fees E tx =
     (case in_AuthInfo tx of None \<Rightarrow> []
      | Some ai \<Rightarrow> (case ai_Fee ai of None \<Rightarrow> [] | Some fee \<Rightarrow> map (coin_ta E) (fee_Amount fee)))"

lemma tx_header_Events [simp]: "tx_Events (tx_header E tx resp raw) = []"
  by (simp add: tx_header_def Transaction0_def)

lemma tx_header_Fee [simp]: "tx_Fee (tx_header E tx resp raw) = []"
  by (simp add: tx_header_def Transaction0_def)

lemma rawToTransaction_loop:
  assumes "Tx_Marshal E tx = Inr raw"
  shows "rawToTransaction E tx resp =
    bind_go (for_go (message_step E resp) (enumerate 0 (tx_messages tx)) (tx_header E tx resp raw, []))
      (\<lambda>((trn, metrics), err).
         case err of
           Some e \<Rightarrow> Ret ((trn, metrics), Some e)
         | None \<Rightarrow> bind_go (add_fee E tx trn) (\<lambda>trn.
             Ret ((if r_Code resp > 0 then trn\<lparr>tx_Events := tx_Events trn @ [error_event resp]\<rparr> else trn, metrics), None)))"
  using assms
  by (simp add: rawToTransaction_def tx_header_def Let_def Transaction0_def split: option.split)

lemma add_fee_Ret:
  "add_fee E tx trn = Ret trn' \<Longrightarrow> tx_Fee trn = [] \<Longrightarrow> trn' = trn\<lparr>tx_Fee := tx_fees E tx\<rparr>"
  by (auto simp: add_fee_def tx_fees_def split: option.splits)

text \<open>Claim C1: a transaction that is converted has, in the order of its messages, exactly one event per
  message, numbered by the message's index, with the type and module the table gives for the message's type
  URL; then one event \<open>error\<close>, with the log of the response, exactly when its code is not 0. Its fees are
  those of the signer info, its header is copied from the response, and no failure is counted.\<close>

theorem rawToTransaction_converted:
  assumes "rawToTransaction E tx resp = Ret ((trn, metrics), None)"
  shows "metrics = [] \<and>
    (\<exists>raw evs. Tx_Marshal E tx = Inr raw \<and> message_events 0 (tx_messages tx) evs \<and>
       trn = (tx_header E tx resp raw)\<lparr>
         tx_Events := evs @ (if r_Code resp > 0 then [error_event resp] else []), tx_Fee := tx_fees E tx\<rparr>)"
proof -
  from assms obtain raw where raw: "Tx_Marshal E tx = Inr raw"
    by (auto simp: rawToTransaction_def Let_def split: sum.splits)
  let ?loop = "for_go (message_step E resp) (enumerate 0 (tx_messages tx)) (tx_header E tx resp raw, [])"
  from assms [unfolded rawToTransaction_loop [OF raw]] obtain trn1 trn2
    where loop: "?loop = Ret ((trn1, metrics), None)" and fee: "add_fee E tx trn1 = Ret trn2"
      and trn: "trn = (if r_Code resp > 0 then trn2\<lparr>tx_Events := tx_Events trn2 @ [error_event resp]\<rparr> else trn2)"
    by (auto simp: go_simps split: option.splits)
  from messages_ok [OF loop] obtain evs where evs: "metrics = []" "message_events 0 (tx_messages tx) evs"
    "trn1 = (tx_header E tx resp raw)\<lparr>tx_Events := evs\<rparr>" by auto
  with fee have "trn2 = trn1\<lparr>tx_Fee := tx_fees E tx\<rparr>" by (intro add_fee_Ret) simp_all
  with evs raw trn show ?thesis by (intro conjI exI [of _ raw] exI [of _ evs]) auto
qed

definition sample_response :: TxResponse where
  "sample_response = \<lparr>r_Height = 7, r_TxHash = ''AB'', r_Codespace = [], r_Code = 0, r_RawLog = ''ok'', r_Logs = [],
     r_GasWanted = 200, r_GasUsed = 100, r_Tx = Some \<lparr>TypeUrl = ''/cosmos.tx.v1beta1.Tx'', Value = []\<rparr>\<rparr>"

definition sample_tx :: "string list \<Rightarrow> int Tx" where
  "sample_tx urls =
     \<lparr>in_Body = Some \<lparr>body_Messages = map (\<lambda>u. \<lparr>TypeUrl = u, Value = []\<rparr>) urls, body_Memo = ''memo''\<rparr>,
      in_AuthInfo = Some \<lparr>ai_Fee = Some \<lparr>fee_Amount = [\<lparr>Denom = ''uatom'', Amount = 3\<rparr>]\<rparr>\<rparr>\<rparr>"

abbreviation update_client_event :: TransactionEvent where
  "update_client_event \<equiv> TransactionEvent0\<lparr>tev_ID := ''0'', tev_Kind := ''update_client'',
     tev_Sub := [SubsetEvent0\<lparr>se_Type := [''update_client''], se_Module := ''ibc''\<rparr>]\<rparr>"

lemma sample_marshal: "Tx_Marshal sample_env tx = Inr []"
  by (simp add: sample_env_def)

lemma sample_message:
  "message_event sample_env resp 0 \<lparr>TypeUrl = ''/ibc.core.client.v1.MsgUpdateClient'', Value = v\<rparr>
     = Ret (update_client_event, None)"
  by (simp add: message_event_def addIBCSubEvent_def ibc_sub_def IBCUpdateClientToSub_def ibc_to_sub_def
      attach_event_def with_msg_def sample_env_def Itoa_def format_nat.simps [of 0] TransactionEvent0_def SubsetEvent0_def
      Let_def)

lemma sample_conversion:
  "rawToTransaction sample_env (sample_tx [''/ibc.core.client.v1.MsgUpdateClient'']) sample_response
     = Ret (((tx_header sample_env (sample_tx [''/ibc.core.client.v1.MsgUpdateClient'']) sample_response [])\<lparr>
         tx_Events := [update_client_event], tx_Fee := [coin_ta sample_env \<lparr>Denom = ''uatom'', Amount = 3\<rparr>]\<rparr>, []), None)"
  by (simp add: rawToTransaction_loop [OF sample_marshal] message_step_def sample_message add_fee_def
      sample_tx_def sample_response_def Let_def)

theorem rawToTransaction_converted_witness:
  "rawToTransaction sample_env (sample_tx [''/ibc.core.client.v1.MsgUpdateClient'']) sample_response
     = Ret (((tx_header sample_env (sample_tx [''/ibc.core.client.v1.MsgUpdateClient'']) sample_response [])\<lparr>
         tx_Events := [update_client_event], tx_Fee := [coin_ta sample_env \<lparr>Denom = ''uatom'', Amount = 3\<rparr>]\<rparr>, []), None)
   \<and> (\<exists>raw evs. Tx_Marshal sample_env (sample_tx [''/ibc.core.client.v1.MsgUpdateClient'']) = Inr raw
        \<and> message_events 0 [\<lparr>TypeUrl = ''/ibc.core.client.v1.MsgUpdateClient'', Value = []\<rparr>] evs)"
  using rawToTransaction_converted [OF sample_conversion] sample_conversion
  by (auto simp: sample_tx_def)


lemma sample_failure:
  "rawToTransaction sample_env (sample_tx [''/ibc.core.client.v1.MsgUpdateClient'', ''/cosmos.bank.v1beta1.MsgBurn'']) sample_response
     = Ret (((tx_header sample_env (sample_tx [''/ibc.core.client.v1.MsgUpdateClient'', ''/cosmos.bank.v1beta1.MsgBurn''])
              sample_response [])\<lparr>tx_Events := [update_client_event]\<rparr>, [UnknownTransaction ''/cosmos.bank.v1beta1.MsgBurn'']),
            Some (Errorf_w ''problem with bank - MsgBurn: '' ErrUnknownMessageType []))"
proof -
  have "message_event sample_env sample_response (Suc 0) \<lparr>TypeUrl = ''/cosmos.bank.v1beta1.MsgBurn'', Value = []\<rparr>
     = Ret (TransactionEvent0\<lparr>tev_ID := Itoa 1\<rparr>, Some (Errorf_w ''problem with bank - MsgBurn: '' ErrUnknownMessageType []))"
    by (simp add: message_event_def addSubEvent_def cosmos_sub_def attach_event_def unknown_message_def SubsetEvent0_def Let_def)
  then show ?thesis
    by (simp add: rawToTransaction_loop [OF sample_marshal] message_step_def sample_message sample_tx_def Let_def)
qed


text \<open>The log of a message is the one that carries the message's index; there is none when no
  log carries it or when there are no more logs than the index.\<close>

lemma findLog_by_index:
  "(\<not> (index < length logs \<and> (\<exists>lg \<in> set logs. lg_MsgIndex lg = word_of_nat index)) \<longrightarrow>
        findLog logs index = ABCIMessageLog0)
   \<and> (index < length logs \<and> (\<exists>lg \<in> set logs. lg_MsgIndex lg = word_of_nat index) \<longrightarrow>
        findLog logs index \<in> set logs \<and> lg_MsgIndex (findLog logs index) = word_of_nat index)"
  by (auto simp: findLog_def find_Some_iff find_None_iff split: option.splits)

lemma findLog_by_index_witness:
  "findLog [\<lparr>lg_MsgIndex = 1, lg_Events = []\<rparr>, \<lparr>lg_MsgIndex = 0, lg_Events = []\<rparr>] 0 = \<lparr>lg_MsgIndex = 0, lg_Events = []\<rparr>
   \<and> lg_MsgIndex (findLog [\<lparr>lg_MsgIndex = 1, lg_Events = []\<rparr>, \<lparr>lg_MsgIndex = 0, lg_Events = []\<rparr>] 0) = 0"
  using findLog_by_index [of 0 "[\<lparr>lg_MsgIndex = 1, lg_Events = []\<rparr>, \<lparr>lg_MsgIndex = 0, lg_Events = []\<rparr>]"]
  by (simp add: findLog_def)

end
