(* ===== verification/Conversion_Safety.thy ===== *)
theory Conversion_Safety
  imports Transaction
begin

text \<open>
  When the conversion of a transaction returns. Every mapper but three returns whatever bytes it is given, also when
  they do not decode; the exceptions are the mappers of community pool fundings, and those of proposals and of evidence,
  which call methods of the SDK that read a field the message may not have. \<open>total_switch\<close> adds to the contract of
  the three switches the messages for which they return, and the conversion of a transaction rests on it.
\<close>

subsection \<open>Mappers\<close>

lemma produceTransfers_total [simp]: "returns (produceTransfers E se t skip lg)"
  using produceTransfers_returns [of E se t skip lg] by (auto simp: returns_iff)

lemma with_msg_total: "(\<And>m. r = Inr m \<Longrightarrow> returns (k m)) \<Longrightarrow> returns (with_msg r pre k)"
  by (simp add: with_msg_def split: sum.split)

lemma bind_go_total: "returns m \<Longrightarrow> (\<And>x. returns (f x)) \<Longrightarrow> returns (bind_go m f)"
  by (cases m) auto

lemma bank_total [simp]: "returns (BankSendToSub E v lg)" "returns (BankMultisendToSub E v lg)"
  by (simp_all add: BankSendToSub_def BankMultisendToSub_def Let_def with_msg_total)

lemma distribution_total [simp]:
  "returns (DistributionWithdrawValidatorCommissionToSub E v lg)" "returns (DistributionSetWithdrawAddressToSub E v)"
  "returns (DistributionWithdrawDelegatorRewardToSub E v lg)"
  by (simp_all add: DistributionWithdrawValidatorCommissionToSub_def DistributionSetWithdrawAddressToSub_def
      DistributionWithdrawDelegatorRewardToSub_def Let_def with_msg_total)

text \<open>The message on which the mapper of community pool fundings may panic.\<close>

definition funds_pool :: "('i, 'd) env \<Rightarrow> string \<Rightarrow> string \<Rightarrow> bytes \<Rightarrow> bool" where
  "funds_pool E msgRoute msgType v \<longleftrightarrow>
     msgRoute = ''distribution'' \<and> msgType = ''MsgFundCommunityPool''
     \<and> (case Unmarshal_MsgFundCommunityPool E v of Inl _ \<Rightarrow> False | Inr fcp \<Rightarrow> fcp_Amount fcp \<noteq> [])"

lemma fund_total: "\<not> funds_pool E ''distribution'' ''MsgFundCommunityPool'' v \<Longrightarrow> returns (DistributionFundCommunityPoolToSub E v)"
  by (auto simp: DistributionFundCommunityPoolToSub_def funds_pool_def distributionProduceEvTx_def intro!: with_msg_total)

text \<open>The messages on which \<open>GetEvidence\<close> and \<open>GetContent\<close> panic.\<close>

definition lacks_evidence :: "('i, 'd) env \<Rightarrow> string \<Rightarrow> string \<Rightarrow> bytes \<Rightarrow> bool" where
  "lacks_evidence E msgRoute msgType v \<longleftrightarrow>
     msgRoute = ''evidence'' \<and> msgType = ''MsgSubmitEvidence''
     \<and> (case Unmarshal_MsgSubmitEvidence E v of Inl _ \<Rightarrow> False | Inr mse \<Rightarrow> \<not> returns (mse_GetEvidence_Height mse))"

definition lacks_content :: "('i, 'd) env \<Rightarrow> string \<Rightarrow> string \<Rightarrow> bytes \<Rightarrow> bool" where
  "lacks_content E msgRoute msgType v \<longleftrightarrow>
     msgRoute = ''gov'' \<and> msgType = ''MsgSubmitProposal''
     \<and> (case Unmarshal_MsgSubmitProposal E v of Inl _ \<Rightarrow> False | Inr sp \<Rightarrow> \<not> returns (sp_GetContent sp))"

lemma evidence_total: "\<not> lacks_evidence E ''evidence'' ''MsgSubmitEvidence'' v \<Longrightarrow> returns (EvidenceSubmitEvidenceToSub E v)"
  by (auto simp: EvidenceSubmitEvidenceToSub_def lacks_evidence_def Let_def
      intro!: with_msg_total bind_go_total split: option.split evidence_value.split)

lemma proposal_total: "\<not> lacks_content E ''gov'' ''MsgSubmitProposal'' v \<Longrightarrow> returns (GovSubmitProposalToSub E v lg)"
  by (auto simp: GovSubmitProposalToSub_def lacks_content_def intro!: with_msg_total bind_go_total split: option.split)

text \<open>A message without the field panics.\<close>

lemma EvidenceSubmitEvidenceToSub_panics:
  "Unmarshal_MsgSubmitEvidence E v = Inr mse \<Longrightarrow> mse_GetEvidence_Height mse = Panic NilDereference
    \<Longrightarrow> EvidenceSubmitEvidenceToSub E v = Panic NilDereference"
  by (simp add: EvidenceSubmitEvidenceToSub_def with_msg_def Let_def)

lemma GovSubmitProposalToSub_panics:
  "Unmarshal_MsgSubmitProposal E v = Inr sp \<Longrightarrow> sp_GetContent sp = Panic NilDereference
    \<Longrightarrow> produceTransfers E (proposal_event E sp) ''send'' [] lg = Ret (se, None)
    \<Longrightarrow> GovSubmitProposalToSub E v lg = Panic NilDereference"
  by (simp add: GovSubmitProposalToSub_def with_msg_def)

lemma sdk_total [simp]:
  "returns (CrisisVerifyInvariantToSub E v)" "returns (SlashingUnjailToSub E v)"
  "returns (VestingMsgCreateVestingAccountToSub E v lg)"
  by (auto simp: CrisisVerifyInvariantToSub_def SlashingUnjailToSub_def VestingMsgCreateVestingAccountToSub_def Let_def
      intro!: with_msg_total split: option.split)

lemma gov_total [simp]:
  "returns (GovDepositToSub E v lg)" "returns (GovVoteToSub E v)"
  by (auto simp: GovDepositToSub_def GovVoteToSub_def Let_def intro!: with_msg_total)

lemma staking_total [simp]:
  "returns (StakingUndelegateToSub E v lg)" "returns (StakingEditValidatorToSub E v)" "returns (StakingCreateValidatorToSub E v)"
  "returns (StakingDelegateToSub E v lg)" "returns (StakingBeginRedelegateToSub E v lg)"
  by (auto simp: StakingUndelegateToSub_def StakingEditValidatorToSub_def StakingCreateValidatorToSub_def StakingDelegateToSub_def
      StakingBeginRedelegateToSub_def Let_def intro!: with_msg_total split: option.split)

lemma ibc_total [simp]: "returns (ibc_to_sub E m t v)"
  by (simp add: ibc_to_sub_def with_msg_total)

lemma liquidity_total [simp]:
  "returns (TendermintCreatePool E v)" "returns (TendermintDepositWithinBatch E v)" "returns (TendermintWithdrawWithinBatch E v)"
  "returns (TendermintSwapWithinBatch E v)"
  by (simp_all add: TendermintCreatePool_def TendermintDepositWithinBatch_def TendermintWithdrawWithinBatch_def
      TendermintSwapWithinBatch_def Let_def with_msg_total)

lemma unknown_message_total [simp]: "returns (unknown_message sep r t)"
  by (simp add: unknown_message_def)

subsection \<open>Switches\<close>

locale total_switch = sub_switch switch routes
  for switch :: "string \<Rightarrow> string \<Rightarrow> bytes \<Rightarrow> ABCIMessageLog \<Rightarrow> SubsetEvent result"
    and routes :: "((string \<times> string) \<times> (string \<times> string)) list" +
  fixes safe :: "string \<Rightarrow> string \<Rightarrow> bytes \<Rightarrow> bool"
  assumes switch_returns: "safe r t v \<Longrightarrow> returns (switch r t v lg)"
begin

lemma attach_total: "safe r t v \<Longrightarrow> returns (attach_event (switch r t v lg) tev)"
  using switch_returns [of r t v lg] by (auto simp: attach_event_def returns_iff)

end

text \<open>The messages that may panic.\<close>

definition unsafe :: "('i, 'd) env \<Rightarrow> string \<Rightarrow> string \<Rightarrow> bytes \<Rightarrow> bool" where
  "unsafe E r t v \<longleftrightarrow> funds_pool E r t v \<or> lacks_evidence E r t v \<or> lacks_content E r t v"

lemma cosmos_sub_total:
  assumes "\<not> unsafe E r t v"
  shows "returns (cosmos_sub E r t v lg)"
proof -
  have "r = ''distribution'' \<longrightarrow> t = ''MsgFundCommunityPool'' \<longrightarrow> returns (DistributionFundCommunityPoolToSub E v)"
    using assms fund_total by (auto simp: unsafe_def)
  moreover have "r = ''evidence'' \<longrightarrow> t = ''MsgSubmitEvidence'' \<longrightarrow> returns (EvidenceSubmitEvidenceToSub E v)"
    using assms evidence_total by (auto simp: unsafe_def)
  moreover have "r = ''gov'' \<longrightarrow> t = ''MsgSubmitProposal'' \<longrightarrow> returns (GovSubmitProposalToSub E v lg)"
    using assms proposal_total by (auto simp: unsafe_def)
  ultimately show ?thesis by (simp add: cosmos_sub_def)
qed

lemma ibc_sub_total: "returns (ibc_sub E r t v)"
  unfolding ibc_sub_def IBCCreateClientToSub_def IBCUpdateClientToSub_def IBCUpgradeClientToSub_def IBCSubmitMisbehaviourToSub_def
    IBCConnectionOpenInitToSub_def IBCConnectionOpenConfirmToSub_def IBCConnectionOpenAckToSub_def
    IBCConnectionOpenTryToSub_def IBCChannelOpenInitToSub_def IBCChannelOpenConfirmToSub_def
    IBCChannelOpenAckToSub_def IBCChannelOpenTryToSub_def IBCChannelCloseInitToSub_def
    IBCChannelCloseConfirmToSub_def IBCChannelRecvPacketToSub_def IBCChannelTimeoutToSub_def
    IBCChannelAcknowledgementToSub_def IBCTransferToSub_def
  by simp

lemma tendermint_sub_total: "returns (tendermint_sub E r t v)"
  by (simp add: tendermint_sub_def)

interpretation cosmos_total: total_switch "cosmos_sub E" cosmos_routes "\<lambda>r t v. \<not> unsafe E r t v"
  by unfold_locales (rule cosmos_sub_total)

interpretation ibc_total: total_switch "\<lambda>r t v lg. ibc_sub E r t v" ibc_routes "\<lambda>r t v. True"
  by unfold_locales (rule ibc_sub_total)

interpretation tendermint_total: total_switch "\<lambda>r t v lg. tendermint_sub E r t v" tendermint_routes "\<lambda>r t v. True"
  by unfold_locales (rule tendermint_sub_total)

subsection \<open>Transactions\<close>

definition unsafe_message :: "('i, 'd) env \<Rightarrow> Any \<Rightarrow> bool" where
  "unsafe_message E m =
     (let p = Split (TypeUrl m) CHR ''.''
      in length p = 4 \<and> p ! 0 = ''/cosmos'' \<and> unsafe E (p ! 1) (p ! 3) (Value m))"

lemma message_event_total: "\<not> unsafe_message E m \<Longrightarrow> returns (message_event E resp i m)"
  unfolding message_event_def Let_def addSubEvent_def addIBCSubEvent_def addTendermintSubEvent_def
  by (auto simp: unsafe_message_def Let_def cosmos_total.attach_total ibc_total.attach_total tendermint_total.attach_total)

lemma message_step_total:
  assumes "\<not> unsafe_message E m"
  shows "returns (message_step E resp (i, m) st)"
  unfolding message_step_def Let_def prod.case
  by (cases st) (auto intro!: bind_go_total message_event_total [OF assms] split: option.split)

definition messages :: "'i Tx \<Rightarrow> Any list" where
  "messages tx = (case in_Body tx of None \<Rightarrow> [] | Some body \<Rightarrow> body_Messages body)"

definition has_fee :: "'i Tx \<Rightarrow> bool" where
  "has_fee tx = (case in_AuthInfo tx of None \<Rightarrow> True | Some ai \<Rightarrow> ai_Fee ai \<noteq> None)"

lemma add_fee_total: "has_fee tx \<Longrightarrow> returns (add_fee E tx trn)"
  by (auto simp: add_fee_def has_fee_def split: option.splits)

lemma messages_total:
  assumes "list_all (\<lambda>m. \<not> unsafe_message E m) ms"
  shows "returns (for_go (message_step E resp) (enumerate 0 ms) st)"
proof (rule for_go_returns)
  fix im s assume "im \<in> set (enumerate 0 ms)"
  then have "snd im \<in> set ms" by (auto simp: in_set_enumerate_eq dest: nth_mem)
  with assms show "returns (message_step E resp im s)"
    using message_step_total [of E "snd im" resp "fst im" s] by (simp add: list_all_iff)
qed

text \<open>Claim C17: the conversion of a transaction does not panic, whatever bytes its messages hold, whatever their type URLs and
  whatever the node's response is, as long as it funds no community pool with coins, every proposal and every evidence it submits has a content or an
  evidence (on which \<open>GetContent\<close> and \<open>GetEvidence\<close> of the SDK do not panic), and its auth info, if there is one, has a fee.\<close>

theorem rawToTransaction_returns:
  assumes "list_all (\<lambda>m. \<not> unsafe_message E m) (messages tx)" and "has_fee tx"
  shows "returns (rawToTransaction E tx resp)"
  unfolding rawToTransaction_def Let_def
  using assms
  by (auto simp: messages_def intro!: bind_go_total messages_total add_fee_total split: sum.split option.splits)

theorem rawToTransaction_returns_witness:
  "returns (rawToTransaction sample_env (sample_tx [''/ibc.core.client.v1.MsgUpdateClient'', ''/cosmos.bank.v1beta1.MsgSend'', ''x'']) sample_response)"
  by (rule rawToTransaction_returns) (simp_all add: messages_def has_fee_def sample_tx_def unsafe_message_def unsafe_def funds_pool_def lacks_evidence_def lacks_content_def)

end
