(* ===== verification/Search_Tx.thy ===== *)
theory Search_Tx
  imports Transaction
begin

text \<open>
  \<^verbatim>\<open>SearchTx\<close> of \<^verbatim>\<open>src/api/transaction.go\<close>: the pages of a block's transactions are asked for one
  after the other, until as many transactions were converted as the node reports. The node and the rate
  limiter are a parameter, \<open>tx_service\<close>; its answers may differ from call to call, so they are indexed by
  the number of the call. The loop may run forever, hence \<open>partial_function (option)\<close>: \<open>None\<close> is a call
  that does not return.
\<close>

record TxsRequest =
  q_Events :: "string list"
  q_CountTotal :: bool
  q_Limit :: uint64
  q_Offset :: uint64

record 'i TxsResponse =
  ge_Txs :: "'i Tx list"
  ge_TxResponses :: "TxResponse list"
  ge_Pagination :: "uint64 option"

record 'i tx_service =
  ts_Wait :: "nat \<Rightarrow> ext_error option"
  ts_GetTxsEvent :: "nat \<Rightarrow> TxsRequest \<Rightarrow> ext_error + 'i TxsResponse"

definition GetTotal :: "uint64 option \<Rightarrow> uint64" where
  "GetTotal p = (case p of None \<Rightarrow> 0 | Some total_count \<Rightarrow> total_count)"

definition stamp_block :: "Block \<Rightarrow> Transaction \<Rightarrow> Transaction" where
  "stamp_block block tx =
     tx\<lparr>tx_BlockHash := blk_Hash block, tx_ChainID := blk_ChainID block, tx_Time := blk_Time block\<rparr>"

text \<open>One round of the inner loop, over the transactions of a page.\<close>

definition page_step ::
  "('i, 'd) env \<Rightarrow> Block \<Rightarrow> TxResponse list \<Rightarrow> nat \<times> 'i Tx \<Rightarrow> Transaction list \<times> tx_metric list
     \<Rightarrow> (Transaction list \<times> tx_metric list) result" where
  "page_step E block responses ix st =
     (let (i, raw_tx) = ix; (txs, metrics) = st
      in if length responses \<le> i then Panic IndexOutOfRange
         else let resp = responses ! i
              in bind_go (rawToTransaction E raw_tx resp) (\<lambda>((tx, ms), err).
                   case err of
                     Some e \<Rightarrow> Ret ((txs, metrics @ ms), Some e)
                   | None \<Rightarrow>
                       (case r_Tx resp of
                          None \<Rightarrow> Panic NilDereference
                        | Some _ \<Rightarrow> Ret ((txs @ [stamp_block block tx], metrics @ ms), None))))"

definition txs_request :: "uint64 \<Rightarrow> uint64 \<Rightarrow> uint64 \<Rightarrow> TxsRequest" where
  "txs_request height perPage page =
     \<lparr>q_Events = [''tx.height='' @ FormatUint height], q_CountTotal = True, q_Limit = perPage,
      q_Offset = perPage * page - perPage\<rparr>"

partial_function (option) search_pages ::
  "('i, 'd) env \<Rightarrow> 'i tx_service \<Rightarrow> HeightHash \<Rightarrow> Block \<Rightarrow> uint64 \<Rightarrow> nat \<Rightarrow> uint64 \<Rightarrow> Transaction list \<Rightarrow> tx_metric list
     \<Rightarrow> (Transaction list \<times> tx_metric list) result option" where
  "search_pages E svc r block perPage call page txs metrics =
     (case ts_Wait svc call of
        Some e \<Rightarrow> Some (Ret (([], metrics), Some (ExtError e)))
      | None \<Rightarrow>
          (case ts_GetTxsEvent svc call (txs_request (hh_Height r) perPage page) of
             Inl e \<Rightarrow> Some (Ret (([], metrics), Some (ExtError e)))
           | Inr res \<Rightarrow>
               (case for_go (page_step E block (ge_TxResponses res)) (enumerate 0 (ge_Txs res)) (txs, metrics) of
                  Panic p \<Rightarrow> Some (Panic p)
                | Ret ((txs', metrics'), Some e) \<Rightarrow> Some (Ret (([], metrics'), Some e))
                | Ret ((txs', metrics'), None) \<Rightarrow>
                    if GetTotal (ge_Pagination res) \<le> word_of_nat (length txs') then Some (Ret ((txs', metrics'), None))
                    else search_pages E svc r block perPage (Suc call) (page + 1) txs' metrics')))"

declare search_pages.simps [code]

definition SearchTx ::
  "('i, 'd) env \<Rightarrow> 'i tx_service \<Rightarrow> HeightHash \<Rightarrow> Block \<Rightarrow> uint64
     \<Rightarrow> (Transaction list \<times> tx_metric list) result option" where
  "SearchTx E svc r block perPage = search_pages E svc r block perPage 0 1 [] []"

subsection \<open>A node that pages through a block\<close>

text \<open>The documented behaviour of the transaction service: offset and limit select a page, and the total
  is the number of all transactions of the query.\<close>

definition serves ::
  "'i tx_service \<Rightarrow> uint64 \<Rightarrow> uint64 \<Rightarrow> ('i Tx \<times> TxResponse) list \<Rightarrow> bool" where
  "serves svc height perPage chain \<longleftrightarrow>
     (\<forall>call. ts_Wait svc call = None) \<and>
     (\<forall>call offset.
        ts_GetTxsEvent svc call \<lparr>q_Events = [''tx.height='' @ FormatUint height], q_CountTotal = True,
            q_Limit = perPage, q_Offset = offset\<rparr>
          = Inr \<lparr>ge_Txs = map fst (take (unat perPage) (drop (unat offset) chain)),
                 ge_TxResponses = map snd (take (unat perPage) (drop (unat offset) chain)),
                 ge_Pagination = Some (word_of_nat (length chain))\<rparr>)"

definition convertible ::
  "('i, 'd) env \<Rightarrow> ('i Tx \<times> TxResponse \<Rightarrow> Transaction) \<Rightarrow> ('i Tx \<times> TxResponse) list \<Rightarrow> bool" where
  "convertible E conv chain =
     list_all (\<lambda>(tx, resp). rawToTransaction E tx resp = Ret ((conv (tx, resp), []), None) \<and> r_Tx resp \<noteq> None) chain"

lemma page_converted:
  assumes "convertible E conv (take n chain)"
  shows "for_go (page_step E block (map snd chain)) (enumerate 0 (take n (map fst chain))) (txs, ms)
           = Ret ((txs @ map (stamp_block block \<circ> conv) (take n chain), ms), None)"
  using assms
proof (induction n)
  case 0
  then show ?case by simp
next
  case (Suc n)
  show ?case
  proof (cases "n < length chain")
    case True
    obtain tx resp where nth: "chain ! n = (tx, resp)" by fastforce
    with Suc.prems True have conv: "rawToTransaction E tx resp = Ret ((conv (tx, resp), []), None)"
      and "r_Tx resp \<noteq> None"
      by (auto simp: convertible_def take_Suc_conv_app_nth)
    moreover have "convertible E conv (take n chain)"
      using Suc.prems True by (simp add: convertible_def take_Suc_conv_app_nth)
    ultimately show ?thesis
      using True nth Suc.IH
      by (auto simp: take_Suc_conv_app_nth enumerate_append_eq for_go_append page_step_def Let_def)
  qed (use Suc in simp)
qed

lemma page_converted_all:
  "convertible E conv chain \<Longrightarrow>
     for_go (page_step E block (map snd chain)) (enumerate 0 (map fst chain)) (txs, ms)
       = Ret ((txs @ map (stamp_block block \<circ> conv) chain, ms), None)"
  using page_converted [of E conv "length chain" chain] by simp

lemma page_offset:
  assumes "n * unat perPage < 2 ^ 64"
  shows "unat ((perPage :: uint64) * word_of_nat (Suc n) - perPage) = n * unat perPage"
proof -
  have "perPage * word_of_nat (Suc n) - perPage = word_of_nat (n * unat perPage)"
    by (simp add: algebra_simps)
  moreover have "unat (word_of_nat (n * unat perPage) :: uint64) = n * unat perPage"
    using assms unfolding unat_of_nat by simp
  ultimately show ?thesis by (simp only:)
qed

lemma search_page:
  assumes serves: "serves svc (hh_Height r) perPage chain" and conv: "convertible E conv chain"
    and bound: "length chain + unat perPage < 2 ^ 64"
    and start: "n * unat perPage \<le> length chain"
  shows "search_pages E svc r block perPage n (word_of_nat (Suc n))
           (map (stamp_block block \<circ> conv) (take (n * unat perPage) chain)) [] =
         (if length chain \<le> Suc n * unat perPage then Some (Ret ((map (stamp_block block \<circ> conv) chain, []), None))
          else search_pages E svc r block perPage (Suc n) (word_of_nat (Suc (Suc n)))
                 (map (stamp_block block \<circ> conv) (take (Suc n * unat perPage) chain)) [])"
proof -
  let ?pp = "unat perPage" and ?c = "stamp_block block \<circ> conv"
  let ?page = "take ?pp (drop (n * ?pp) chain)" and ?txs = "take (Suc n * ?pp) chain"
  have request: "ts_GetTxsEvent svc n (txs_request (hh_Height r) perPage (word_of_nat (Suc n)))
    = Inr \<lparr>ge_Txs = map fst ?page, ge_TxResponses = map snd ?page, ge_Pagination = Some (word_of_nat (length chain))\<rparr>"
    using serves page_offset [of n perPage] start bound by (simp add: serves_def txs_request_def)
  have "convertible E conv ?page"
    using conv set_take_subset [of ?pp "drop (n * ?pp) chain"] set_drop_subset [of "n * ?pp" chain]
    unfolding convertible_def list_all_iff by blast
  then have loop: "for_go (page_step E block (map snd ?page)) (enumerate 0 (map fst ?page)) (map ?c (take (n * ?pp) chain), [])
    = Ret ((map ?c ?txs, []), None)"
    using page_converted_all [of E conv ?page block] take_add [of "n * ?pp" ?pp chain] by (simp add: add.commute)
  have total_reached: "(word_of_nat (length chain) :: uint64) \<le> word_of_nat (length ?txs) \<longleftrightarrow> length chain \<le> Suc n * ?pp"
    using start bound by (simp add: word_le_nat_alt unat_of_nat take_bit_eq_mod min_def)
  have "ts_Wait svc n = None" using serves by (simp add: serves_def)
  with request loop total_reached show ?thesis
    by (subst search_pages.simps) (simp add: GetTotal_def)
qed

lemma search_from:
  assumes "serves svc (hh_Height r) perPage chain" "convertible E conv chain"
    "length chain + unat perPage < 2 ^ 64" "0 < perPage" "n * unat perPage \<le> length chain"
  shows "search_pages E svc r block perPage n (word_of_nat (Suc n))
           (map (stamp_block block \<circ> conv) (take (n * unat perPage) chain)) []
         = Some (Ret ((map (stamp_block block \<circ> conv) chain, []), None))"
  using assms(5)
proof (induction "length chain - n * unat perPage" arbitrary: n rule: less_induct)
  case less
  have "0 < unat perPage" using assms(4) by (simp add: unat_gt_0 word_neq_0_conv)
  show ?case
  proof (cases "length chain \<le> Suc n * unat perPage")
    case True
    with search_page [OF assms(1-3) less.prems] show ?thesis by simp
  next
    case False
    with \<open>0 < unat perPage\<close> have "length chain - Suc n * unat perPage < length chain - n * unat perPage" by simp
    from less.hyps [OF this] False search_page [OF assms(1-3) less.prems] show ?thesis by simp
  qed
qed

lemma SearchTx_served:
  assumes "serves svc (hh_Height r) perPage chain" and "convertible E conv chain"
    and "length chain + unat perPage < 2 ^ 64" and "0 < perPage"
  shows "SearchTx E svc r block perPage = Some (Ret ((map (stamp_block block \<circ> conv) chain, []), None))"
  using search_from [OF assms, of 0] by (simp add: SearchTx_def)

text \<open>Claim C11: when the node pages through the transactions of the block and every one of them can be
  converted, \<open>SearchTx\<close> returns, with every transaction exactly once, in the node's order, each stamped with
  the hash, chain and time of the block, whatever the page size; nothing is counted as broken or unknown.\<close>

theorem SearchTx_complete:
  assumes "serves svc (hh_Height r) perPage chain" and "convertible E conv chain"
    and "length chain + unat perPage < 2 ^ 64" and "0 < perPage"
  shows "SearchTx E svc r block perPage = Some (Ret ((map (\<lambda>t. (conv t)\<lparr>tx_BlockHash := blk_Hash block,
    tx_ChainID := blk_ChainID block, tx_Time := blk_Time block\<rparr>) chain, []), None))"
  using SearchTx_served [OF assms, of block] by (simp add: comp_def stamp_block_def)

definition paging_service :: "('i Tx \<times> TxResponse) list \<Rightarrow> 'i tx_service" where
  "paging_service chain =
     \<lparr>ts_Wait = (\<lambda>_. None),
      ts_GetTxsEvent = (\<lambda>_ q. Inr
        \<lparr>ge_Txs = map fst (take (unat (q_Limit q)) (drop (unat (q_Offset q)) chain)),
         ge_TxResponses = map snd (take (unat (q_Limit q)) (drop (unat (q_Offset q)) chain)),
         ge_Pagination = Some (word_of_nat (length chain))\<rparr>)\<rparr>"

definition sample_chain :: "(int Tx \<times> TxResponse) list" where
  "sample_chain = replicate 3 (sample_tx [''/ibc.core.client.v1.MsgUpdateClient''], sample_response)"

definition sample_conv :: "int Tx \<times> TxResponse \<Rightarrow> Transaction" where
  "sample_conv _ = (tx_header sample_env (sample_tx [''/ibc.core.client.v1.MsgUpdateClient'']) sample_response [])\<lparr>
     tx_Events := [update_client_event], tx_Fee := [coin_ta sample_env \<lparr>Denom = ''uatom'', Amount = 3\<rparr>]\<rparr>"

lemma serves_paging_service: "serves (paging_service chain) height perPage chain"
  by (simp add: serves_def paging_service_def)

lemma sample_chain_convertible: "convertible sample_env sample_conv sample_chain"
  by (simp add: convertible_def sample_chain_def sample_conv_def sample_conversion numeral_3_eq_3)
    (simp add: sample_response_def)

theorem SearchTx_complete_witness:
  "SearchTx sample_env (paging_service sample_chain) (HeightHash_Height 7) Block0 2
     = Some (Ret ((map (stamp_block Block0 \<circ> sample_conv) sample_chain, []), None))"
  using SearchTx_complete [OF serves_paging_service sample_chain_convertible, of 2 "HeightHash_Height 7" Block0]
  by (simp add: sample_chain_def comp_def stamp_block_def)

subsection \<open>Errors and non-termination\<close>

lemma search_pages_error:
  assumes "search_pages E svc r block perPage call page txs metrics = Some res"
  shows "\<forall>txs' metrics' e. res = Ret ((txs', metrics'), Some e) \<longrightarrow> txs' = []"
  using assms
  by (rule search_pages.raw_induct [where
      P = "\<lambda>E svc r block perPage call page txs metrics res. \<forall>txs' metrics' e. res = Ret ((txs', metrics'), Some e) \<longrightarrow> txs' = []", rotated])
    (simp split: option.splits sum.splits go.splits prod.splits if_splits; blast)

text \<open>\<open>SearchTx\<close> is all or nothing: when it reports an error it returns no transaction, even when
  earlier pages, or earlier transactions of the page, were converted.\<close>

lemma SearchTx_error_empty:
  "SearchTx E svc r block perPage = Some (Ret ((txs, metrics), Some e)) \<Longrightarrow> txs = []"
  unfolding SearchTx_def by (drule search_pages_error) blast

lemma SearchTx_error_sample:
  "SearchTx sample_env (paging_service sample_chain \<lparr>ts_Wait := (\<lambda>n. if n = 1 then Some ''deadline'' else None)\<rparr>)
     (HeightHash_Height 7) Block0 2 = Some (Ret (([], []), Some (ExtError ''deadline'')))"
proof -
  have first: "for_go (page_step sample_env Block0 (map snd (take 2 sample_chain))) (enumerate 0 (map fst (take 2 sample_chain))) ([], [])
    = Ret ((map (stamp_block Block0 \<circ> sample_conv) (take 2 sample_chain), []), None)"
    using page_converted_all [of sample_env sample_conv "take 2 sample_chain" Block0 "[]" "[]"] sample_chain_convertible
    by (simp add: convertible_def sample_chain_def numeral_2_eq_2 numeral_3_eq_3 del: for_go.simps)
  have len: "length (take 2 sample_chain) = 2" "length sample_chain = 3" by (simp_all add: sample_chain_def)
  show ?thesis
    unfolding SearchTx_def
    by (subst search_pages.simps, subst search_pages.simps)
      (use first len in \<open>simp add: paging_service_def txs_request_def GetTotal_def take_map\<close>)
qed

lemma SearchTx_error_empty_witness:
  "\<exists>txs e. SearchTx sample_env (paging_service sample_chain \<lparr>ts_Wait := (\<lambda>n. if n = 1 then Some ''deadline'' else None)\<rparr>)
     (HeightHash_Height 7) Block0 2 = Some (Ret ((txs, []), Some e)) \<and> txs = []"
  using SearchTx_error_empty [OF SearchTx_error_sample] SearchTx_error_sample by blast

text \<open>A node whose answers are pages without transactions that report a positive total; it may also answer with errors.\<close>

definition empty_pages :: "'i tx_service \<Rightarrow> bool" where
  "empty_pages svc \<longleftrightarrow>
     (\<forall>call q res. ts_GetTxsEvent svc call q = Inr res \<longrightarrow> ge_Txs res = [] \<and> GetTotal (ge_Pagination res) \<noteq> 0)"

text \<open>The error of round \<open>n\<close> of the loop: of the limiter, which sees the end of the context, or of the call.\<close>

definition round_error :: "'i tx_service \<Rightarrow> HeightHash \<Rightarrow> uint64 \<Rightarrow> nat \<Rightarrow> ext_error option" where
  "round_error svc r perPage n =
     (case ts_Wait svc n of
        Some e \<Rightarrow> Some e
      | None \<Rightarrow>
          (case ts_GetTxsEvent svc n (txs_request (hh_Height r) perPage (word_of_nat (Suc n))) of Inl e \<Rightarrow> Some e | Inr res \<Rightarrow> None))"

lemma empty_round:
  assumes "empty_pages svc"
  shows "search_pages E svc r block perPage n (word_of_nat (Suc n)) [] ms =
    (case round_error svc r perPage n of
       Some e \<Rightarrow> Some (Ret (([], ms), Some (ExtError e)))
     | None \<Rightarrow> search_pages E svc r block perPage (Suc n) (word_of_nat (Suc (Suc n))) [] ms)"
proof (cases "ts_Wait svc n")
  case (Some e)
  then show ?thesis by (subst search_pages.simps) (simp add: round_error_def)
next
  case None
  show ?thesis
  proof (cases "ts_GetTxsEvent svc n (txs_request (hh_Height r) perPage (word_of_nat (Suc n)))")
    case (Inl e)
    with None show ?thesis by (subst search_pages.simps) (simp add: round_error_def)
  next
    case (Inr res)
    with assms have res: "ge_Txs res = []" "GetTotal (ge_Pagination res) \<noteq> 0" unfolding empty_pages_def by blast+
    have "round_error svc r perPage n = None" using None Inr by (simp add: round_error_def)
    with None Inr res show ?thesis by (subst search_pages.simps) (simp add: add.commute)
  qed
qed

lemma first_error:
  assumes "empty_pages svc" "round_error svc r perPage n = Some e" "\<And>m. m < n \<Longrightarrow> round_error svc r perPage m = None" "k \<le> n"
  shows "search_pages E svc r block perPage k (word_of_nat (Suc k)) [] ms = Some (Ret (([], ms), Some (ExtError e)))"
  using assms(4)
proof (induction rule: inc_induct)
  case base
  from empty_round [OF assms(1), of E r block perPage n ms] assms(2) show ?case by simp
next
  case (step k)
  from empty_round [OF assms(1), of E r block perPage k ms] assms(3) [OF step(2)] step(3) show ?case by simp
qed

lemma no_error_diverges:
  assumes "search_pages E svc r block perPage call page txs metrics = Some res"
  shows "empty_pages svc \<longrightarrow> (\<forall>n. round_error svc r perPage n = None) \<longrightarrow> page = word_of_nat (Suc call) \<longrightarrow> txs \<noteq> []"
  using assms
proof (rule search_pages.raw_induct [where
    P = "\<lambda>E svc r block perPage call page txs metrics res.
      empty_pages svc \<longrightarrow> (\<forall>n. round_error svc r perPage n = None) \<longrightarrow> page = word_of_nat (Suc call) \<longrightarrow> txs \<noteq> []", rotated])
  fix sp E svc r block perPage call page txs metrics res
  assume IH: "\<And>E svc r block perPage call page txs metrics res. sp E svc r block perPage call page txs metrics = Some res \<Longrightarrow>
      empty_pages svc \<longrightarrow> (\<forall>n. round_error svc r perPage n = None) \<longrightarrow> page = word_of_nat (Suc call) \<longrightarrow> txs \<noteq> []"
    and step: "(case ts_Wait svc call of
        Some e \<Rightarrow> Some (Ret (([], metrics), Some (ExtError e)))
      | None \<Rightarrow>
          (case ts_GetTxsEvent svc call (txs_request (hh_Height r) perPage page) of
             Inl e \<Rightarrow> Some (Ret (([], metrics), Some (ExtError e)))
           | Inr res \<Rightarrow>
               (case for_go (page_step E block (ge_TxResponses res)) (enumerate 0 (ge_Txs res)) (txs, metrics) of
                  Panic p \<Rightarrow> Some (Panic p)
                | Ret ((txs', metrics'), Some e) \<Rightarrow> Some (Ret (([], metrics'), Some e))
                | Ret ((txs', metrics'), None) \<Rightarrow>
                    if GetTotal (ge_Pagination res) \<le> word_of_nat (length txs') then Some (Ret ((txs', metrics'), None))
                    else sp E svc r block perPage (Suc call) (page + 1) txs' metrics'))) = Some res"
  show "empty_pages svc \<longrightarrow> (\<forall>n. round_error svc r perPage n = None) \<longrightarrow> page = word_of_nat (Suc call) \<longrightarrow> txs \<noteq> []"
  proof (intro impI notI)
    assume empty: "empty_pages svc" and none: "\<forall>n. round_error svc r perPage n = None"
      and page: "page = word_of_nat (Suc call)" and txs: "txs = []"
    from none have "round_error svc r perPage call = None" ..
    then obtain ans where ans: "ts_Wait svc call = None" "ts_GetTxsEvent svc call (txs_request (hh_Height r) perPage page) = Inr ans"
      unfolding round_error_def page by (auto split: option.splits sum.splits)
    with empty have "ge_Txs ans = []" "GetTotal (ge_Pagination ans) \<noteq> 0" unfolding empty_pages_def by blast+
    with step ans txs have "sp E svc r block perPage (Suc call) (page + 1) [] metrics = Some res" by simp
    from IH [OF this] empty none page show False by (simp add: add.commute)
  qed
qed

text \<open>Claim C31: against a node whose answers are empty pages that report a positive total, \<open>SearchTx\<close> asks for page after page,
  and nothing but an error of the limiter or of a call ends it: it returns the first such error, without transactions, and
  when there is none it never returns. In the program the context of \<open>Run\<close> ends after ten minutes, and with it \<open>Wait\<close> and
  the calls fail: the loop then ends with that error.\<close>

theorem SearchTx_diverges:
  assumes "empty_pages svc"
  shows "(\<forall>n e. round_error svc r perPage n = Some e \<and> (\<forall>m < n. round_error svc r perPage m = None) \<longrightarrow>
        SearchTx E svc r block perPage = Some (Ret (([], []), Some (ExtError e))))
    \<and> ((\<forall>n. round_error svc r perPage n = None) \<longrightarrow> SearchTx E svc r block perPage = None)"
proof (intro conjI allI impI)
  fix n e assume "round_error svc r perPage n = Some e \<and> (\<forall>m < n. round_error svc r perPage m = None)"
  with first_error [OF assms, of r perPage n e 0 E block "[]"] show "SearchTx E svc r block perPage = Some (Ret (([], []), Some (ExtError e)))"
    by (simp add: SearchTx_def)
next
  assume "\<forall>n. round_error svc r perPage n = None"
  with no_error_diverges [of E svc r block perPage 0 1 "[]" "[]"] assms show "SearchTx E svc r block perPage = None"
    unfolding SearchTx_def by (cases "search_pages E svc r block perPage 0 1 [] []") auto
qed

theorem SearchTx_diverges_witness:
  "SearchTx sample_env \<lparr>ts_Wait = (\<lambda>_. None),
      ts_GetTxsEvent = (\<lambda>_ _. Inr \<lparr>ge_Txs = [], ge_TxResponses = [], ge_Pagination = Some 1\<rparr>)\<rparr>
     (HeightHash_Height 7) Block0 100 = None
   \<and> SearchTx sample_env \<lparr>ts_Wait = (\<lambda>n. if n = 600 then Some ''deadline exceeded'' else None),
      ts_GetTxsEvent = (\<lambda>_ _. Inr \<lparr>ge_Txs = [], ge_TxResponses = [], ge_Pagination = Some 1\<rparr>)\<rparr>
     (HeightHash_Height 7) Block0 100 = Some (Ret (([], []), Some (ExtError ''deadline exceeded'')))"
proof -
  let ?svc = "\<lambda>wait. \<lparr>ts_Wait = wait, ts_GetTxsEvent = (\<lambda>_ _. Inr \<lparr>ge_Txs = [], ge_TxResponses = [], ge_Pagination = Some 1\<rparr>)\<rparr> :: int tx_service"
  have empty: "empty_pages (?svc wait)" for wait by (auto simp: empty_pages_def GetTotal_def)
  have err: "round_error (?svc wait) r perPage n = wait n" for wait r perPage n
    by (simp add: round_error_def split: option.split)
  let ?ends = "\<lambda>n::nat. if n = 600 then Some ''deadline exceeded'' else None"
  have "SearchTx sample_env (?svc (\<lambda>_. None)) (HeightHash_Height 7) Block0 100 = None"
    by (rule SearchTx_diverges [OF empty, THEN conjunct2, rule_format]) (simp add: err)
  moreover have "SearchTx sample_env (?svc ?ends) (HeightHash_Height 7) Block0 100 = Some (Ret (([], []), Some (ExtError ''deadline exceeded'')))"
    by (rule SearchTx_diverges [OF empty, THEN conjunct1, THEN spec [of _ 600], THEN spec, THEN mp]) (simp add: err)
  ultimately show ?thesis by blast
qed

end
