(* ===== verification/Channels.thy ===== *)
theory Channels
  imports Prelude
begin

text \<open>
  Go's buffered channels, as the worker uses them: a bounded first-in first-out buffer that can be closed.
  A send on a full channel and a receive from an empty open one block; \<open>None\<close> stands for blocking, so a
  \<open>select\<close> with a \<open>default\<close> branch takes that branch on \<open>None\<close>. \<open>bounded_queue\<close> is what the cache and the
  pools rely on.
\<close>

record 'a chan =
  ch_cap :: nat
  ch_buf :: "'a list"
  ch_closed :: bool

definition make_chan :: "int \<Rightarrow> 'a chan go" where
  "make_chan c = (if c < 0 then Panic MakeChanSize else Ret \<lparr>ch_cap = nat c, ch_buf = [], ch_closed = False\<rparr>)"

definition chan_send :: "'a \<Rightarrow> 'a chan \<Rightarrow> 'a chan option go" where
  "chan_send x ch =
     (if ch_closed ch then Panic SendOnClosedChannel
      else if length (ch_buf ch) < ch_cap ch then Ret (Some (ch\<lparr>ch_buf := ch_buf ch @ [x]\<rparr>))
      else Ret None)"

text \<open>A receive gives the oldest element, or nothing (the zero value) once the channel is closed and empty.\<close>

definition chan_recv :: "'a chan \<Rightarrow> ('a option \<times> 'a chan) option" where
  "chan_recv ch =
     (case ch_buf ch of
        x # xs \<Rightarrow> Some (Some x, ch\<lparr>ch_buf := xs\<rparr>)
      | [] \<Rightarrow> if ch_closed ch then Some (None, ch) else None)"

definition chan_close :: "'a chan \<Rightarrow> 'a chan go" where
  "chan_close ch = (if ch_closed ch then Panic CloseOfClosedChannel else Ret (ch\<lparr>ch_closed := True\<rparr>))"

definition chan_ready :: "'a chan \<Rightarrow> bool" where
  "chan_ready ch \<longleftrightarrow> \<not> ch_closed ch \<and> length (ch_buf ch) \<le> ch_cap ch"

text \<open>A call that may wait forever: \<open>Ret None\<close>. What follows such a call is not reached.\<close>

type_synonym 'a blocking = "'a option go"

definition bind_blocking :: "'a blocking \<Rightarrow> ('a \<Rightarrow> 'b blocking) \<Rightarrow> 'b blocking" where
  "bind_blocking m f = bind_go m (\<lambda>r. case r of None \<Rightarrow> Ret None | Some x \<Rightarrow> f x)"

lemma bind_blocking_simps [simp]:
  "bind_blocking (Ret (Some x)) f = f x" "bind_blocking (Ret None) f = Ret None" "bind_blocking (Panic p) f = Panic p"
  by (simp_all add: bind_blocking_def)

subsection \<open>The queue contract\<close>

locale bounded_queue =
  fixes contents :: "'q \<Rightarrow> 'a list" and capacity :: "'q \<Rightarrow> nat" and ready :: "'q \<Rightarrow> bool"
    and send :: "'a \<Rightarrow> 'q \<Rightarrow> 'q option go" and recv :: "'q \<Rightarrow> ('a option \<times> 'q) option"
  assumes ready_bounded: "ready q \<Longrightarrow> length (contents q) \<le> capacity q"
    and send_free: "ready q \<Longrightarrow> length (contents q) < capacity q \<Longrightarrow>
      \<exists>q'. send x q = Ret (Some q') \<and> ready q' \<and> contents q' = contents q @ [x] \<and> capacity q' = capacity q"
    and send_full: "ready q \<Longrightarrow> length (contents q) = capacity q \<Longrightarrow> send x q = Ret None"
    and recv_front: "ready q \<Longrightarrow> contents q = y # ys \<Longrightarrow>
      \<exists>q'. recv q = Some (Some y, q') \<and> ready q' \<and> contents q' = ys \<and> capacity q' = capacity q"
begin

text \<open>A queue of positive capacity can always take an element once its oldest was removed.\<close>

lemma evict_and_send:
  assumes "ready q" "0 < capacity q" "length (contents q) = capacity q"
  obtains y q1 q2 where "recv q = Some (Some y, q1)" "send x q1 = Ret (Some q2)" "ready q2"
    "contents q = y # contents q1" "contents q2 = contents q1 @ [x]" "capacity q2 = capacity q"
proof -
  from assms obtain y ys where front: "contents q = y # ys" by (cases "contents q") auto
  from recv_front [OF assms(1) this] obtain q1 where q1: "recv q = Some (Some y, q1)" "ready q1"
    "contents q1 = ys" "capacity q1 = capacity q" by blast
  with front assms(3) have "length (contents q1) < capacity q1" by simp
  from send_free [OF q1(2) this] obtain q2 where "send x q1 = Ret (Some q2)" "ready q2"
    "contents q2 = contents q1 @ [x]" "capacity q2 = capacity q1" by blast
  with q1 front show thesis by (intro that [of y q1 q2]) simp_all
qed

lemma send_never_panics: "ready q \<Longrightarrow> returns (send x q)"
  using send_free [of q x] send_full [of q x] ready_bounded [of q]
  by (cases "length (contents q) < capacity q") auto

end

interpretation ch: bounded_queue ch_buf ch_cap chan_ready chan_send chan_recv
  by unfold_locales (auto simp: chan_ready_def chan_send_def chan_recv_def)

lemma make_chan_ready:
  "0 \<le> c \<Longrightarrow> \<exists>ch. make_chan c = Ret ch \<and> chan_ready ch \<and> ch_buf ch = [] \<and> ch_cap ch = nat c"
  by (simp add: make_chan_def chan_ready_def)

end
