(* ===== verification/Block_Cache.thy ===== *)
theory Block_Cache
  imports Channels Structs
begin

text \<open>
  \<^verbatim>\<open>src/api/block_cache.go\<close>: a map from heights to blocks and a channel with the blocks of the map, oldest
  first. \<open>Add\<close> evicts the oldest block when the channel is full; an \<open>Add\<close> that would wait forever, with the
  lock held, is \<open>None\<close>. The cache is a window on the blocks added, and every cache the program can reach is
  consistent; \<open>Get\<close> reads the map at height 0 whatever the height asked for.
\<close>

record SimpleBlockCache =
  sbc_space :: "uint64 \<rightharpoonup> Block"
  sbc_blocks :: "Block chan"

definition NewSimpleBlockCache :: "int \<Rightarrow> SimpleBlockCache go" where
  "NewSimpleBlockCache c =
     bind_go (make_chan c) (\<lambda>ch. Ret \<lparr>sbc_space = Map.empty, sbc_blocks = ch\<rparr>)"

definition Add :: "Block \<Rightarrow> SimpleBlockCache \<Rightarrow> SimpleBlockCache option go" where
  "Add bl sbc =
     (if sbc_space sbc (blk_Height bl) \<noteq> None then Ret (Some sbc)
      else let space = (sbc_space sbc)(blk_Height bl \<mapsto> bl)
           in bind_go (chan_send bl (sbc_blocks sbc)) (\<lambda>sent.
                case sent of
                  Some ch \<Rightarrow> Ret (Some \<lparr>sbc_space = space, sbc_blocks = ch\<rparr>)
                | None \<Rightarrow>
                    (case chan_recv (sbc_blocks sbc) of
                       None \<Rightarrow> Ret None
                     | Some (oldBlock, ch1) \<Rightarrow>
                         let space = (case oldBlock of
                               Some ob \<Rightarrow> space(blk_Height ob := None) | None \<Rightarrow> space)
                         in bind_go (chan_send bl ch1) (\<lambda>sent.
                              case sent of
                                Some ch2 \<Rightarrow> Ret (Some \<lparr>sbc_space = space, sbc_blocks = ch2\<rparr>)
                              | None \<Rightarrow> Ret None))))"

definition Get :: "uint64 \<Rightarrow> SimpleBlockCache \<Rightarrow> Block \<times> bool" where
  "Get height sbc =
     (let bl = Block0
      in case sbc_space sbc (blk_Height bl) of
           Some b \<Rightarrow> (b, True)
         | None \<Rightarrow> (Block0, False))"

subsection \<open>The cache as a window\<close>

text \<open>Specification: the blocks of the cache, oldest first.\<close>

definition window_add :: "nat \<Rightarrow> Block \<Rightarrow> Block list \<Rightarrow> Block list" where
  "window_add n bl bs =
     (if blk_Height bl \<in> blk_Height ` set bs then bs else drop (Suc (length bs) - n) (bs @ [bl]))"

definition cache_inv :: "nat \<Rightarrow> SimpleBlockCache \<Rightarrow> bool" where
  "cache_inv n sbc \<longleftrightarrow>
     chan_ready (sbc_blocks sbc) \<and> ch_cap (sbc_blocks sbc) = n \<and>
     distinct (map blk_Height (ch_buf (sbc_blocks sbc))) \<and>
     sbc_space sbc = map_of (map (\<lambda>b. (blk_Height b, b)) (ch_buf (sbc_blocks sbc)))"

lemma cache_inv_hit: "cache_inv n sbc \<Longrightarrow>
    sbc_space sbc h = Some b \<longleftrightarrow> b \<in> set (ch_buf (sbc_blocks sbc)) \<and> blk_Height b = h"
  unfolding cache_inv_def by (auto simp: map_of_eq_Some_iff comp_def)

lemma cache_inv_miss: "cache_inv n sbc \<Longrightarrow>
    sbc_space sbc h = None \<longleftrightarrow> h \<notin> blk_Height ` set (ch_buf (sbc_blocks sbc))"
  unfolding cache_inv_def by (auto simp: map_of_eq_None_iff image_image)

lemma map_of_snoc: "k \<notin> fst ` set xs \<Longrightarrow> map_of (xs @ [(k, v)]) = (map_of xs)(k \<mapsto> v)"
  by (induction xs) (auto simp: fun_upd_twist)

lemma map_of_evict:
  assumes "distinct (map key (x # xs))" "key y \<notin> key ` set (x # xs)"
  shows "map_of (map (\<lambda>b. (key b, b)) (xs @ [y])) =
    (map_of (map (\<lambda>b. (key b, b)) (x # xs)))(key y \<mapsto> y, key x := None)"
proof -
  have "map_of (map (\<lambda>b. (key b, b)) xs) (key x) = None"
    using assms by (simp add: map_of_eq_None_iff image_image)
  with assms show ?thesis
    by (simp add: map_of_snoc image_image fun_upd_twist [of "key y"] fun_upd_idem del: map_of_append)
qed

lemma Add_window:
  assumes inv: "cache_inv n sbc" and "0 < n"
  shows "\<exists>sbc'. Add bl sbc = Ret (Some sbc') \<and> cache_inv n sbc'
    \<and> ch_buf (sbc_blocks sbc') = window_add n bl (ch_buf (sbc_blocks sbc))"
proof -
  let ?bs = "ch_buf (sbc_blocks sbc)" and ?h = "blk_Height bl"
  let ?kv = "\<lambda>bs. map (\<lambda>b. (blk_Height b, b)) bs"
  from inv have ready: "chan_ready (sbc_blocks sbc)" and cap: "ch_cap (sbc_blocks sbc) = n"
    and dist: "distinct (map blk_Height ?bs)" and space: "sbc_space sbc = map_of (?kv ?bs)"
    by (auto simp: cache_inv_def)
  consider (known) "?h \<in> blk_Height ` set ?bs"
    | (room) "?h \<notin> blk_Height ` set ?bs" "length ?bs < n"
    | (full) "?h \<notin> blk_Height ` set ?bs" "length ?bs = n"
    using ch.ready_bounded [OF ready] cap by linarith
  then show ?thesis
  proof cases
    case known
    with inv have "sbc_space sbc ?h \<noteq> None" using cache_inv_miss by blast
    with known inv show ?thesis by (simp add: Add_def window_add_def)
  next
    case room
    with ch.send_free [OF ready] cap obtain ch where ch: "chan_send bl (sbc_blocks sbc) = Ret (Some ch)"
      "chan_ready ch" "ch_buf ch = ?bs @ [bl]" "ch_cap ch = n" by auto
    have "map_of (?kv (?bs @ [bl])) = (map_of (?kv ?bs))(?h \<mapsto> bl)"
      using room by (simp add: map_of_snoc image_image del: map_of_append)
    moreover have "sbc_space sbc ?h = None" using room cache_inv_miss [OF inv] by blast
    ultimately show ?thesis
      using room ch dist space by (simp add: Add_def cache_inv_def window_add_def)
  next
    case full
    with ch.evict_and_send [OF ready, of bl] cap \<open>0 < n\<close> obtain ob ch1 ch2 where
      ch: "chan_recv (sbc_blocks sbc) = Some (Some ob, ch1)" "chan_send bl ch1 = Ret (Some ch2)" "chan_ready ch2"
        "?bs = ob # ch_buf ch1" "ch_buf ch2 = ch_buf ch1 @ [bl]" "ch_cap ch2 = n" by auto
    have blocked: "chan_send bl (sbc_blocks sbc) = Ret None" using ch.send_full [OF ready] full cap by simp
    have "map_of (?kv (ch_buf ch2)) = ((sbc_space sbc)(?h \<mapsto> bl))(blk_Height ob := None)"
      using full dist unfolding space ch(4,5) by (intro map_of_evict) auto
    moreover have "sbc_space sbc ?h = None" using full cache_inv_miss [OF inv] by blast
    ultimately show ?thesis
      using full ch blocked dist by (simp add: Add_def cache_inv_def window_add_def)
  qed
qed

subsection \<open>Reachable caches\<close>

definition new_cache :: "int \<Rightarrow> SimpleBlockCache \<Rightarrow> bool" where
  "new_cache c sbc \<longleftrightarrow> NewSimpleBlockCache c = Ret sbc"

definition adds :: "SimpleBlockCache \<Rightarrow> SimpleBlockCache \<Rightarrow> bool" where
  "adds sbc sbc' \<longleftrightarrow> (\<exists>bl. Add bl sbc = Ret (Some sbc'))"

lemma new_cache_inv: "new_cache c sbc \<Longrightarrow> cache_inv (nat c) sbc"
  by (auto simp: new_cache_def NewSimpleBlockCache_def make_chan_def cache_inv_def chan_ready_def split: if_splits)

interpretation cache: transition_system "new_cache 400" adds "cache_inv 400"
proof
  show "cache_inv 400 sbc" if "new_cache 400 sbc" for sbc using new_cache_inv [OF that] by simp
next
  fix sbc sbc' assume inv: "cache_inv 400 sbc" and "adds sbc sbc'"
  then obtain bl where "Add bl sbc = Ret (Some sbc')" unfolding adds_def by blast
  with Add_window [OF inv, of bl] show "cache_inv 400 sbc'" by auto
qed

text \<open>Claim C18: in every state that a new cache of the size the client uses can reach, the map holds exactly
  the blocks of the channel, no two of one height, never more than 400; and the next \<open>Add\<close> neither blocks nor
  panics, and slides the window: a block of a new height goes in as the newest, the oldest goes out when the
  window is full, and a block of a known height changes nothing.\<close>

theorem cache_is_window:
  assumes "reach (new_cache 400) adds sbc"
  shows "(\<forall>h b. sbc_space sbc h = Some b \<longleftrightarrow> b \<in> set (ch_buf (sbc_blocks sbc)) \<and> blk_Height b = h)
    \<and> distinct (map blk_Height (ch_buf (sbc_blocks sbc))) \<and> length (ch_buf (sbc_blocks sbc)) \<le> 400
    \<and> (\<exists>sbc'. Add bl sbc = Ret (Some sbc') \<and> reach (new_cache 400) adds sbc'
         \<and> ch_buf (sbc_blocks sbc') = window_add 400 bl (ch_buf (sbc_blocks sbc)))"
proof -
  from cache.reachable_invariant [OF assms] have inv: "cache_inv 400 sbc" .
  from Add_window [OF inv, of bl] obtain sbc' where "Add bl sbc = Ret (Some sbc')"
    "ch_buf (sbc_blocks sbc') = window_add 400 bl (ch_buf (sbc_blocks sbc))" by auto
  moreover from this(1) have "adds sbc sbc'" by (auto simp: adds_def)
  ultimately show ?thesis
    using assms cache_inv_hit [OF inv] inv by (auto simp: cache_inv_def chan_ready_def intro: reach_step)
qed

theorem cache_is_window_witness:
  "\<exists>sbc sbc'. new_cache 400 sbc \<and> Add (Block0\<lparr>blk_Height := 5\<rparr>) sbc = Ret (Some sbc')
     \<and> ch_buf (sbc_blocks sbc') = [Block0\<lparr>blk_Height := 5\<rparr>]"
proof -
  let ?sbc = "\<lparr>sbc_space = Map.empty, sbc_blocks = \<lparr>ch_cap = 400, ch_buf = [], ch_closed = False\<rparr>\<rparr>"
  have "new_cache 400 ?sbc" by (simp add: new_cache_def NewSimpleBlockCache_def make_chan_def)
  with cache_is_window [OF reach_init, OF this, of "Block0\<lparr>blk_Height := 5\<rparr>"] show ?thesis
    by (auto simp: window_add_def)
qed

subsection \<open>Looking a block up\<close>

lemma window_add_subset: "set (window_add n bl bs) \<subseteq> insert bl (set bs)"
  using set_drop_subset [of "Suc (length bs) - n" "bs @ [bl]"] by (auto simp: window_add_def)

lemma Get_empty_at_0: "sbc_space sbc 0 = None \<Longrightarrow> Get h sbc = (Block0, False)"
  by (simp add: Get_def Block0_def)

lemma Add_keeps_0_free:
  assumes "cache_inv n sbc" "0 < n" "Add bl sbc = Ret (Some sbc')" "blk_Height bl \<noteq> 0" "sbc_space sbc 0 = None"
  shows "sbc_space sbc' 0 = None"
proof -
  from Add_window [OF assms(1,2), of bl] assms(3) have "cache_inv n sbc'"
    "ch_buf (sbc_blocks sbc') = window_add n bl (ch_buf (sbc_blocks sbc))" by auto
  with assms window_add_subset [of n bl "ch_buf (sbc_blocks sbc)"] show ?thesis
    by (auto simp: cache_inv_miss)
qed

text \<open>Claim C29: the cache never answers. Whatever blocks of heights other than 0 are added to a new cache, and
  whatever height is asked for, also that of a block just added, \<open>Get\<close> finds nothing: it reads the height of
  its own zero-valued result instead of its parameter.\<close>

theorem Get_never_hits:
  assumes "new_cache 400 sbc0"
    and "(\<lambda>s s'. \<exists>bl. blk_Height bl \<noteq> 0 \<and> Add bl s = Ret (Some s'))\<^sup>*\<^sup>* sbc0 sbc"
  shows "Get height sbc = (Block0, False)"
proof -
  from assms(2) have "cache_inv 400 sbc \<and> sbc_space sbc 0 = None"
  proof (induction rule: rtranclp_induct)
    case base
    from assms(1) new_cache_inv [of 400 sbc0] show ?case
      by (auto simp: new_cache_def NewSimpleBlockCache_def make_chan_def)
  next
    case (step s s')
    then show ?case using Add_window [of 400 s] Add_keeps_0_free [of 400 s] by fastforce
  qed
  then show ?thesis by (simp add: Get_empty_at_0)
qed

theorem Get_never_hits_witness:
  "\<exists>sbc sbc'. new_cache 400 sbc \<and> Add (Block0\<lparr>blk_Height := 5\<rparr>) sbc = Ret (Some sbc')
     \<and> sbc_space sbc' 5 = Some (Block0\<lparr>blk_Height := 5\<rparr>) \<and> Get 5 sbc' = (Block0, False)"
proof -
  let ?b = "Block0\<lparr>blk_Height := 5\<rparr>"
  let ?sbc = "\<lparr>sbc_space = Map.empty, sbc_blocks = \<lparr>ch_cap = 400, ch_buf = [], ch_closed = False\<rparr>\<rparr>"
  let ?sbc' = "\<lparr>sbc_space = [5 \<mapsto> ?b], sbc_blocks = \<lparr>ch_cap = 400, ch_buf = [?b], ch_closed = False\<rparr>\<rparr>"
  have new: "new_cache 400 ?sbc" by (simp add: new_cache_def NewSimpleBlockCache_def make_chan_def)
  have add: "Add ?b ?sbc = Ret (Some ?sbc')" by (simp add: Add_def chan_send_def)
  then have "(\<lambda>s s'. \<exists>bl. blk_Height bl \<noteq> 0 \<and> Add bl s = Ret (Some s'))\<^sup>*\<^sup>* ?sbc ?sbc'"
    by (intro r_into_rtranclp exI [of _ ?b]) simp
  from Get_never_hits [OF new this, of 5] new add show ?thesis
    by (intro exI [of _ ?sbc] exI [of _ ?sbc']) simp
qed

end
