(* ===== verification/Blocks.thy ===== *)
theory Blocks
  imports Block_Cache
begin

text \<open>
  \<^verbatim>\<open>src/api/block.go\<close>: blocks by height and the latest block, through the cache. The node, the rate limiter
  and Tendermint's printing of a hash are the parameter \<open>block_service\<close>; answers are indexed by the number of
  the call. The state is the cache and that number.
\<close>

record tm_header =
  th_Height :: int64
  th_Time :: gotime
  th_ChainID :: string

record tm_block =
  tb_Header :: tm_header
  tb_Txs :: "bytes list"

record block_response =
  br_BlockId :: "bytes option"
  br_Block :: "tm_block option"

record block_service =
  bs_Wait :: "nat \<Rightarrow> ext_error option"
  bs_GetLatestBlock :: "nat \<Rightarrow> ext_error + block_response"
  bs_GetBlockByHeight :: "nat \<Rightarrow> int64 \<Rightarrow> ext_error + block_response"
  bs_HexString :: "bytes \<Rightarrow> string"

record api_state =
  Sbc :: SimpleBlockCache
  calls :: nat

record BlocksMap =
  bm_Blocks :: "uint64 \<rightharpoonup> Block"
  bm_NumTxs :: uint64

record BlockErrorPair =
  bp_Height :: uint64
  bp_Block :: Block
  bp_Err :: "go_error option"

definition response_block :: "block_service \<Rightarrow> block_response \<Rightarrow> Block go" where
  "response_block svc lb =
     (case br_BlockId lb of
        None \<Rightarrow> Panic NilDereference
      | Some hash \<Rightarrow>
          (case br_Block lb of
             None \<Rightarrow> Panic NilDereference
           | Some b \<Rightarrow>
               Ret (Block0\<lparr>blk_Hash := bs_HexString svc hash, blk_Height := th_Height (tb_Header b),
                 blk_Time := th_Time (tb_Header b), blk_ChainID := th_ChainID (tb_Header b),
                 blk_NumberOfTransactions := word_of_nat (length (tb_Txs b))\<rparr>)))"

definition GetBlock :: "block_service \<Rightarrow> HeightHash \<Rightarrow> api_state \<Rightarrow> ((Block \<times> go_error option) \<times> api_state) blocking" where
  "GetBlock svc params s =
     (let (block, ok) = (if hh_Height params \<noteq> 0 then Get (hh_Height params) (Sbc s) else (Block0, False))
      in if ok then Ret (Some ((block, None), s))
         else let s1 = s\<lparr>calls := Suc (calls s)\<rparr>
              in case bs_Wait svc (calls s) of
                   Some e \<Rightarrow> Ret (Some ((block, Some (ExtError e)), s1))
                 | None \<Rightarrow>
                     (case (if hh_Height params = 0 then bs_GetLatestBlock svc (calls s)
                            else bs_GetBlockByHeight svc (calls s) (hh_Height params)) of
                        Inl e \<Rightarrow> Ret (Some ((block, Some (ExtError e)), s1))
                      | Inr lb \<Rightarrow>
                          bind_go (response_block svc lb) (\<lambda>block.
                            bind_blocking (Add block (Sbc s)) (\<lambda>sbc.
                              Ret (Some ((block, None), s1\<lparr>Sbc := sbc\<rparr>))))))"

text \<open>\<open>GetBlockAsync\<close> with the heights read from \<open>in\<close> until it is closed, and the pairs written to \<open>out\<close>.\<close>

fun GetBlockAsync :: "block_service \<Rightarrow> uint64 list \<Rightarrow> api_state \<Rightarrow> (BlockErrorPair list \<times> api_state) blocking" where
  "GetBlockAsync svc [] s = Ret (Some ([], s))"
| "GetBlockAsync svc (height # heights) s =
     bind_blocking (GetBlock svc (HeightHash_Height height) s) (\<lambda>((b, err), s1).
       bind_blocking (GetBlockAsync svc heights s1) (\<lambda>(pairs, s2).
         Ret (Some (\<lparr>bp_Height = height, bp_Block = b, bp_Err = err\<rparr> # pairs, s2))))"

text \<open>The loop of \<open>GetBlocksMeta\<close>; \<open>n\<close> is the number of rounds left, \<open>i\<close> the counter.\<close>

fun blocks_meta ::
  "block_service \<Rightarrow> uint64 \<Rightarrow> uint64 \<Rightarrow> nat \<Rightarrow> BlocksMap \<Rightarrow> api_state
     \<Rightarrow> ((BlocksMap \<times> go_error option) \<times> api_state) blocking" where
  "blocks_meta svc start i 0 blocks s = Ret (Some ((blocks, None), s))"
| "blocks_meta svc start i (Suc n) blocks s =
     bind_blocking (GetBlock svc (HeightHash_Height (start + i - 1)) s) (\<lambda>((block, err), s1).
       case err of
         Some e \<Rightarrow>
           Ret (Some ((blocks, Some (Errorf_w (''error fetching block: '' @ FormatUint (start + i - 1) @ '' '') e '' '')), s1))
       | None \<Rightarrow>
           blocks_meta svc start (i + 1) n
             (blocks\<lparr>bm_Blocks := (bm_Blocks blocks)(blk_Height block \<mapsto> block)\<rparr>) s1)"

definition GetBlocksMeta ::
  "block_service \<Rightarrow> HeightRange \<Rightarrow> BlocksMap \<Rightarrow> api_state \<Rightarrow> ((BlocksMap \<times> go_error option) \<times> api_state) blocking" where
  "GetBlocksMeta svc params blocks s =
     (let diff = hr_EndHeight params - hr_StartHeight params;
          rounds = (if diff = 0 then 1 else diff)
      in blocks_meta svc (hr_StartHeight params) 0 (unat rounds) blocks s)"

subsection \<open>States of the client\<close>

text \<open>The states that arise from a chain whose heights start at 1: the cache is a consistent window and has
  no block of height 0.\<close>

definition api_inv :: "api_state \<Rightarrow> bool" where
  "api_inv s \<longleftrightarrow> cache_inv 400 (Sbc s) \<and> sbc_space (Sbc s) 0 = None"

text \<open>What the node promises: a block that was asked for by its height has that height, and both its parts.\<close>

definition node_block :: "block_service \<Rightarrow> nat \<Rightarrow> uint64 \<Rightarrow> Block \<Rightarrow> bool" where
  "node_block svc call h b \<longleftrightarrow>
     bs_Wait svc call = None \<and>
     (\<exists>lb. bs_GetBlockByHeight svc call h = Inr lb \<and> response_block svc lb = Ret b) \<and> blk_Height b = h"

lemma Add_api_inv:
  assumes "api_inv s" "blk_Height b \<noteq> 0"
  obtains sbc where "Add b (Sbc s) = Ret (Some sbc)" "cache_inv 400 sbc" "sbc_space sbc 0 = None"
proof -
  from assms have inv: "cache_inv 400 (Sbc s)" by (simp add: api_inv_def)
  with Add_window [OF inv, of b] obtain sbc where "Add b (Sbc s) = Ret (Some sbc)" "cache_inv 400 sbc" by auto
  with Add_keeps_0_free [OF inv _ this(1)] assms show thesis by (intro that) (simp_all add: api_inv_def)
qed

lemma GetBlock_from_node:
  assumes "api_inv s" "node_block svc (calls s) h b" "h \<noteq> 0"
  obtains s' where "GetBlock svc (HeightHash_Height h) s = Ret (Some ((b, None), s'))"
    "api_inv s'" "calls s' = Suc (calls s)" "Add b (Sbc s) = Ret (Some (Sbc s'))"
proof -
  from assms have "blk_Height b \<noteq> 0" by (simp add: node_block_def)
  with assms(1) obtain sbc where "Add b (Sbc s) = Ret (Some sbc)" "cache_inv 400 sbc" "sbc_space sbc 0 = None"
    by (rule Add_api_inv)
  with assms show thesis
    by (intro that [of "s\<lparr>calls := Suc (calls s), Sbc := sbc\<rparr>"])
      (auto simp: GetBlock_def node_block_def api_inv_def Get_empty_at_0 HeightHash_Height_def)
qed

text \<open>Claim C28: \<open>GetBlock\<close> for a height other than 0 asks the node on every call, also for a block that is in the
  cache: with the node's block at hand it returns that block and adds it to the cache, and a node error comes
  back with an empty block and leaves the cache as it was.\<close>

theorem GetBlock_asks_node:
  assumes "api_inv s" and "h \<noteq> 0" and "bs_Wait svc (calls s) = None"
  shows "(\<forall>b. node_block svc (calls s) h b \<longrightarrow>
      (\<exists>s'. GetBlock svc (HeightHash_Height h) s = Ret (Some ((b, None), s')) \<and> api_inv s'
         \<and> calls s' = Suc (calls s) \<and> Add b (Sbc s) = Ret (Some (Sbc s'))))
    \<and> (\<forall>e. bs_GetBlockByHeight svc (calls s) h = Inl e \<longrightarrow>
      GetBlock svc (HeightHash_Height h) s = Ret (Some ((Block0, Some (ExtError e)), s\<lparr>calls := Suc (calls s)\<rparr>)))"
proof (intro conjI allI impI)
  fix b assume "node_block svc (calls s) h b"
  from GetBlock_from_node [OF assms(1) this assms(2)]
  show "\<exists>s'. GetBlock svc (HeightHash_Height h) s = Ret (Some ((b, None), s')) \<and> api_inv s'
         \<and> calls s' = Suc (calls s) \<and> Add b (Sbc s) = Ret (Some (Sbc s'))" by metis
next
  fix e assume "bs_GetBlockByHeight svc (calls s) h = Inl e"
  with assms show "GetBlock svc (HeightHash_Height h) s = Ret (Some ((Block0, Some (ExtError e)), s\<lparr>calls := Suc (calls s)\<rparr>))"
    by (simp add: GetBlock_def api_inv_def Get_empty_at_0 HeightHash_Height_def)
qed

text \<open>A concrete node: the block of height \<open>h\<close> is \<open>chain_block h\<close>.\<close>

definition chain_block :: "uint64 \<Rightarrow> Block" where
  "chain_block h = Block0\<lparr>blk_Hash := ''AB'', blk_Height := h, blk_ChainID := ''cosmoshub-4'', blk_NumberOfTransactions := 1\<rparr>"

definition sample_node :: block_service where
  "sample_node =
     \<lparr>bs_Wait = (\<lambda>_. None),
      bs_GetLatestBlock = (\<lambda>_. Inl ''unavailable''),
      bs_GetBlockByHeight = (\<lambda>_ h. Inr \<lparr>br_BlockId = Some [], br_Block = Some
        \<lparr>tb_Header = \<lparr>th_Height = h, th_Time = 0, th_ChainID = ''cosmoshub-4''\<rparr>, tb_Txs = [[]]\<rparr>\<rparr>),
      bs_HexString = (\<lambda>_. ''AB'')\<rparr>"

definition new_api_state :: api_state where
  "new_api_state = \<lparr>Sbc = \<lparr>sbc_space = Map.empty, sbc_blocks = \<lparr>ch_cap = 400, ch_buf = [], ch_closed = False\<rparr>\<rparr>, calls = 0\<rparr>"

lemma sample_node_block: "node_block sample_node call h (chain_block h)"
  by (simp add: node_block_def sample_node_def response_block_def chain_block_def Block0_def)

lemma api_inv_new: "api_inv new_api_state"
  by (simp add: api_inv_def new_api_state_def cache_inv_def chan_ready_def)

theorem GetBlock_asks_node_witness:
  "\<exists>s'. GetBlock sample_node (HeightHash_Height 7) new_api_state = Ret (Some ((chain_block 7, None), s')) \<and> api_inv s'"
  using GetBlock_asks_node [OF api_inv_new, of 7 sample_node] sample_node_block [of 0 7]
  by (auto simp: sample_node_def new_api_state_def)

subsection \<open>A range of blocks\<close>

definition fetched :: "(uint64 \<Rightarrow> Block) \<Rightarrow> uint64 set \<Rightarrow> (uint64 \<rightharpoonup> Block)" where
  "fetched chain hs h = (if h \<in> hs then Some (chain h) else None)"

definition heights_from :: "uint64 \<Rightarrow> nat \<Rightarrow> uint64 set" where
  "heights_from h n = (\<lambda>k. h + word_of_nat k) ` {..<n}"

lemma heights_from_simps [simp]:
  "heights_from h 0 = {}" "heights_from h (Suc n) = insert h (heights_from (h + 1) n)"
  by (simp_all add: heights_from_def lessThan_Suc_eq_insert_0 image_image add.assoc)

lemma fetched_insert: "m(h \<mapsto> chain h) ++ fetched chain hs = m ++ fetched chain (insert h hs)"
  by (auto simp: fetched_def map_add_def)

lemma blocks_meta_fetches:
  assumes "api_inv s" "0 \<notin> heights_from h n" "\<And>call x. x \<in> heights_from h n \<Longrightarrow> node_block svc call x (chain x)"
    "start + i - 1 = h"
  shows "\<exists>s'. blocks_meta svc start i n blocks s
      = Ret (Some ((blocks\<lparr>bm_Blocks := bm_Blocks blocks ++ fetched chain (heights_from h n)\<rparr>, None), s'))
    \<and> api_inv s' \<and> calls s' = calls s + n"
  using assms
proof (induction n arbitrary: s i h blocks)
  case 0
  then show ?case by (intro exI [of _ s]) (simp add: fetched_def [abs_def] map_add_def)
next
  case (Suc n)
  from Suc.prems(2,3) have b: "node_block svc (calls s) h (chain h)" "h \<noteq> 0" by auto
  from GetBlock_from_node [OF Suc.prems(1) b] obtain s1
    where s1: "GetBlock svc (HeightHash_Height h) s = Ret (Some ((chain h, None), s1))" "api_inv s1" "calls s1 = Suc (calls s)"
    by blast
  from Suc.prems have "start + (i + 1) - 1 = h + 1" by (simp add: algebra_simps)
  from Suc.IH [OF s1(2) _ _ this, of "blocks\<lparr>bm_Blocks := (bm_Blocks blocks)(h \<mapsto> chain h)\<rparr>"] Suc.prems(2,3)
  obtain s' where "blocks_meta svc start (i + 1) n (blocks\<lparr>bm_Blocks := (bm_Blocks blocks)(h \<mapsto> chain h)\<rparr>) s1
      = Ret (Some ((blocks\<lparr>bm_Blocks := bm_Blocks blocks ++ fetched chain (heights_from h (Suc n))\<rparr>, None), s'))"
    "api_inv s'" "calls s' = Suc (calls s) + n"
    using s1(3) by (simp add: fetched_insert del: fun_upd_apply) blast
  moreover have "blk_Height (chain h) = h" using b by (simp add: node_block_def)
  ultimately show ?case
    using Suc.prems(4) s1(1) by (intro exI [of _ s']) (simp del: fun_upd_apply)
qed

lemma heights_from_range:
  assumes "unat h + n \<le> 2 ^ 64"
  shows "heights_from h n = {x. unat h \<le> unat x \<and> unat x < unat h + n}"
proof (intro equalityI subsetI)
  fix x assume "x \<in> heights_from h n"
  then obtain k where "k < n" "x = h + word_of_nat k" by (auto simp: heights_from_def)
  with assms show "x \<in> {x. unat h \<le> unat x \<and> unat x < unat h + n}"
    by (auto simp: unat_word_ariths unat_of_nat)
next
  fix x :: uint64 assume "x \<in> {x. unat h \<le> unat x \<and> unat x < unat h + n}"
  then have "x = h + word_of_nat (unat x - unat h)" "unat x - unat h < n"
    by (auto simp: of_nat_diff)
  then show "x \<in> heights_from h n" by (auto simp: heights_from_def)
qed

text \<open>Claim C30: \<open>GetBlocksMeta\<close> of a range that starts above height 1 returns, and adds to the map exactly the
  blocks from one before the start up to, and without, one before the end (only the first of them when start and
  end are the same): the last two heights of the range are never fetched. The summary \<open>NumTxs\<close> keeps its value.\<close>

theorem GetBlocksMeta_range:
  assumes "api_inv s" and "1 < start" and "start \<le> end_height"
    and "\<And>call x. x \<noteq> 0 \<Longrightarrow> node_block svc call x (chain x)"
  shows "\<exists>s'. GetBlocksMeta svc \<lparr>hr_StartHeight = start, hr_EndHeight = end_height\<rparr> blocks s
      = Ret (Some ((blocks\<lparr>bm_Blocks := bm_Blocks blocks ++
          fetched chain {x. unat start \<le> unat x + 1 \<and> unat x + 1 < max (unat start + 1) (unat end_height)}\<rparr>, None), s'))
    \<and> api_inv s'"
proof -
  let ?n = "unat (if end_height - start = 0 then 1 else end_height - start)"
  have start: "unat (start - 1) = unat start - 1" "1 < unat start"
    using assms(2) by (auto simp: unat_sub word_le_nat_alt word_less_nat_alt)
  have n: "?n = max 1 (unat end_height - unat start)"
    using assms(3) by (auto simp: unat_sub word_le_nat_alt word_unat_eq_iff max_def)
  have "unat (start - 1) + ?n \<le> 2 ^ 64"
    using start n less_imp_le [OF unat_uint64_less [of end_height]] less_imp_le [OF unat_uint64_less [of start]]
    by (cases "unat end_height - unat start = 0") (simp_all add: max_def)
  note this [THEN heights_from_range]
  also have "{x. unat (start - 1) \<le> unat x \<and> unat x < unat (start - 1) + ?n}
      = {x. unat start \<le> unat x + 1 \<and> unat x + 1 < max (unat start + 1) (unat end_height)}"
    unfolding n start(1) using start(2) by (intro Collect_cong) arith
  finally have hs: "heights_from (start - 1) ?n
      = {x. unat start \<le> unat x + 1 \<and> unat x + 1 < max (unat start + 1) (unat end_height)}" .
  then have zero: "0 \<notin> heights_from (start - 1) ?n" using start by simp
  have "node_block svc call x (chain x)" if "x \<in> heights_from (start - 1) ?n" for call x
    using that zero by (intro assms(4)) blast
  from blocks_meta_fetches [OF assms(1) zero this, of start 0 blocks] show ?thesis
    unfolding hs GetBlocksMeta_def Let_def by auto
qed

theorem GetBlocksMeta_range_witness:
  "\<exists>blocks s'. GetBlocksMeta sample_node \<lparr>hr_StartHeight = 5, hr_EndHeight = 8\<rparr> \<lparr>bm_Blocks = Map.empty, bm_NumTxs = 0\<rparr> new_api_state
      = Ret (Some ((blocks, None), s')) \<and> bm_Blocks blocks 4 = Some (chain_block 4) \<and> bm_Blocks blocks 7 = None"
  using GetBlocksMeta_range [OF api_inv_new, of 5 8 sample_node chain_block] sample_node_block
  by (fastforce simp: fetched_def)

text \<open>The asynchronous reader answers every height it is given, in the order given, one pair for each,
  an unavailable block included.\<close>

lemma GetBlockAsync_one_pair_per_height:
  "GetBlockAsync svc heights s = Ret (Some (pairs, s')) \<Longrightarrow> map bp_Height pairs = heights"
  by (induction heights arbitrary: s pairs s')
    (auto simp: bind_blocking_def go_simps split: option.splits)

lemma GetBlockAsync_one_pair_per_height_witness:
  "\<exists>pairs s'. GetBlockAsync sample_node [5, 0, 6] new_api_state = Ret (Some (pairs, s')) \<and> map bp_Height pairs = [5, 0, 6]"
proof -
  obtain s1 where s1: "GetBlock sample_node (HeightHash_Height 5) new_api_state = Ret (Some ((chain_block 5, None), s1))" "api_inv s1"
    by (rule GetBlock_from_node [OF api_inv_new sample_node_block [of _ 5]]) (simp, blast)
  have s2: "GetBlock sample_node (HeightHash_Height 0) s1 = Ret (Some ((Block0, Some (ExtError ''unavailable'')), s1\<lparr>calls := Suc (calls s1)\<rparr>))"
    by (simp add: GetBlock_def HeightHash_Height_def sample_node_def)
  from s1(2) have "api_inv (s1\<lparr>calls := Suc (calls s1)\<rparr>)" by (simp add: api_inv_def)
  then obtain s3
    where s3: "GetBlock sample_node (HeightHash_Height 6) (s1\<lparr>calls := Suc (calls s1)\<rparr>) = Ret (Some ((chain_block 6, None), s3))"
    by (rule GetBlock_from_node [OF _ sample_node_block [of _ 6]]) (simp, blast)
  have "\<exists>pairs s'. GetBlockAsync sample_node [5, 0, 6] new_api_state = Ret (Some (pairs, s'))"
    using s1 s2 s3 by simp
  with GetBlockAsync_one_pair_per_height show ?thesis by blast
qed

end
