(* ===== verification/Accounts.thy ===== *)
theory Accounts
  imports Mapper_Contract
begin

text \<open>
  \<^verbatim>\<open>src/api/reward.go\<close>, \<^verbatim>\<open>src/api/delegations.go\<close> and \<^verbatim>\<open>src/api/account_balance.go\<close>: what an account holds at
  a height. The query services of the node are the parameter \<open>account_service\<close>; their first argument is the
  text of the block height header the request carries.
\<close>

record 'd DecCoin =
  dc_Denom :: string
  dc_Amount :: 'd

record ('i, 'd) DelegationResponse =
  dr_DelegatorAddress :: string
  dr_ValidatorAddress :: string
  dr_Shares :: 'd
  dr_Balance :: "'i Coin"

record ('i, 'd) account_service =
  as_DelegatorValidators :: "string \<Rightarrow> string \<Rightarrow> ext_error + string list"
  as_DelegationRewards :: "string \<Rightarrow> string \<Rightarrow> string \<Rightarrow> ext_error + 'd DecCoin list"
  as_DelegatorDelegations :: "string \<Rightarrow> string \<Rightarrow> ext_error + ('i, 'd) DelegationResponse list"
  as_AllBalances :: "string \<Rightarrow> string \<Rightarrow> ext_error + 'i Coin list"

record GetRewardResponse =
  gr_Height :: uint64
  gr_Rewards :: "string \<rightharpoonup> TransactionAmount list"

record Delegation =
  dl_Delegator :: string
  dl_Validator :: string
  dl_Shares :: TransactionAmount
  dl_Balance :: TransactionAmount

record GetAccountDelegationsResponse =
  gd_Height :: uint64
  gd_Delegations :: "Delegation list"

record GetAccountBalanceResponse =
  gb_Height :: uint64
  gb_Balances :: "TransactionAmount list"

subsection \<open>Rewards\<close>

definition reward_ta :: "('i, 'd) env \<Rightarrow> 'd DecCoin \<Rightarrow> TransactionAmount" where
  "reward_ta E reward = (dec_ta E (dc_Amount reward))\<lparr>ta_Currency := dc_Denom reward, ta_Exp := sdk_Precision E\<rparr>"

definition reward_step ::
  "('i, 'd) env \<Rightarrow> ('i, 'd) account_service \<Rightarrow> HeightAccount \<Rightarrow> string \<Rightarrow> GetRewardResponse \<Rightarrow> GetRewardResponse result" where
  "reward_step E svc params val resp =
     (case as_DelegationRewards svc (FormatUint (ha_Height params)) (ha_Account params) val of
        Inl e \<Rightarrow> Ret (resp, Some (Errorf_w ''[COSMOS-API] Error fetching delegation rewards: '' (ExtError e) []))
      | Inr rewards \<Rightarrow> Ret (resp\<lparr>gr_Rewards := (gr_Rewards resp)(val \<mapsto> map (reward_ta E) rewards)\<rparr>, None))"

definition GetReward ::
  "('i, 'd) env \<Rightarrow> ('i, 'd) account_service \<Rightarrow> HeightAccount \<Rightarrow> GetRewardResponse result" where
  "GetReward E svc params =
     (let resp = \<lparr>gr_Height = ha_Height params, gr_Rewards = Map.empty\<rparr>
      in case as_DelegatorValidators svc (FormatUint (ha_Height params)) (ha_Account params) of
           Inl e \<Rightarrow> Ret (resp, Some (Errorf_w ''[COSMOS-API] Error fetching validators: '' (ExtError e) []))
         | Inr validators \<Rightarrow> for_go (reward_step E svc params) validators resp)"

subsection \<open>Delegations and balances\<close>

definition delegation_balance :: "('i, 'd) env \<Rightarrow> 'i Coin \<Rightarrow> TransactionAmount" where
  "delegation_balance E c = TransactionAmount0\<lparr>ta_Currency := Denom c, ta_Numeric := Int_BigInt E (Amount c),
     ta_Text := Int_String E (Amount c)\<rparr>"

lemma delegation_balance_eq [simp]: "delegation_balance = coin_ta"
  by (simp add: delegation_balance_def coin_ta_def fun_eq_iff)

definition balance_amount :: "('i, 'd) env \<Rightarrow> 'i Coin \<Rightarrow> TransactionAmount" where
  "balance_amount E c = TransactionAmount0\<lparr>ta_Currency := Denom c, ta_Numeric := Int_BigInt E (Amount c),
     ta_Text := Int_String E (Amount c)\<rparr>"

lemma balance_amount_eq [simp]: "balance_amount = coin_ta"
  by (simp add: balance_amount_def coin_ta_def fun_eq_iff)

definition delegation_of :: "('i, 'd) env \<Rightarrow> ('i, 'd) DelegationResponse \<Rightarrow> Delegation" where
  "delegation_of E dr =
     \<lparr>dl_Delegator = dr_DelegatorAddress dr, dl_Validator = dr_ValidatorAddress dr,
      dl_Shares = TransactionAmount0\<lparr>ta_Numeric := Dec_BigInt E (dr_Shares dr), ta_Exp := sdk_Precision E\<rparr>,
      dl_Balance = delegation_balance E (dr_Balance dr)\<rparr>"

definition GetAccountDelegations ::
  "('i, 'd) env \<Rightarrow> ('i, 'd) account_service \<Rightarrow> HeightAccount \<Rightarrow> GetAccountDelegationsResponse \<times> go_error option" where
  "GetAccountDelegations E svc params =
     (let resp = \<lparr>gd_Height = ha_Height params, gd_Delegations = []\<rparr>
      in case as_DelegatorDelegations svc (FormatUint (ha_Height params)) (ha_Account params) of
           Inl e \<Rightarrow> (resp, Some (Errorf_w ''[COSMOS-API] Error fetching delegations: '' (ExtError e) []))
         | Inr drs \<Rightarrow> (fold (\<lambda>dr resp. resp\<lparr>gd_Delegations := gd_Delegations resp @ [delegation_of E dr]\<rparr>) drs resp, None))"

definition GetAccountBalance ::
  "('i, 'd) env \<Rightarrow> ('i, 'd) account_service \<Rightarrow> HeightAccount \<Rightarrow> GetAccountBalanceResponse \<times> go_error option" where
  "GetAccountBalance E svc params =
     (let resp = \<lparr>gb_Height = ha_Height params, gb_Balances = []\<rparr>
      in case as_AllBalances svc (FormatUint (ha_Height params)) (ha_Account params) of
           Inl e \<Rightarrow> (resp, Some (Errorf_w ''[COSMOS-API] Error fetching balances: '' (ExtError e) []))
         | Inr coins \<Rightarrow> (fold (\<lambda>c resp. resp\<lparr>gb_Balances := gb_Balances resp @ [balance_amount E c]\<rparr>) coins resp, None))"

subsection \<open>Nothing is lost\<close>

abbreviation rewards_query :: "('i, 'd) account_service \<Rightarrow> HeightAccount \<Rightarrow> string \<Rightarrow> ext_error + 'd DecCoin list" where
  "rewards_query svc params v \<equiv> as_DelegationRewards svc (FormatUint (ha_Height params)) (ha_Account params) v"

text \<open>The rewards of the validators in a set; only those the node answered for are looked at.\<close>

definition rewards_of ::
  "('i, 'd) env \<Rightarrow> ('i, 'd) account_service \<Rightarrow> HeightAccount \<Rightarrow> string set \<Rightarrow> (string \<rightharpoonup> TransactionAmount list)" where
  "rewards_of E svc params vs v =
     (if v \<in> vs then Some (map (reward_ta E) (projr (rewards_query svc params v))) else None)"

lemma rewards_of_empty [simp]: "rewards_of E svc params {} = Map.empty"
  by (simp add: rewards_of_def [abs_def])

lemma rewards_of_insert:
  "rewards_query svc params v = Inr rs \<Longrightarrow>
     m(v \<mapsto> map (reward_ta E) rs) ++ rewards_of E svc params vs = m ++ rewards_of E svc params (insert v vs)"
  by (auto simp: rewards_of_def map_add_def)

lemma reward_loop:
  "\<exists>err. for_go (reward_step E svc params) vals resp
      = Ret (resp\<lparr>gr_Rewards := gr_Rewards resp ++
          rewards_of E svc params (set (takeWhile (\<lambda>v. \<not> isl (rewards_query svc params v)) vals))\<rparr>, err)
    \<and> (err = None \<longleftrightarrow> (\<forall>v \<in> set vals. \<not> isl (rewards_query svc params v)))"
proof (induction vals arbitrary: resp)
  case Nil
  then show ?case by simp
next
  case (Cons val vals)
  show ?case
  proof (cases "rewards_query svc params val")
    case (Inl e)
    then have "reward_step E svc params val resp
        = Ret (resp, Some (Errorf_w ''[COSMOS-API] Error fetching delegation rewards: '' (ExtError e) []))"
      by (simp add: reward_step_def)
    with Inl show ?thesis by simp
  next
    case (Inr rs)
    then have "reward_step E svc params val resp
        = Ret (resp\<lparr>gr_Rewards := (gr_Rewards resp)(val \<mapsto> map (reward_ta E) rs)\<rparr>, None)"
      by (simp add: reward_step_def)
    with Inr Cons.IH [of "resp\<lparr>gr_Rewards := (gr_Rewards resp)(val \<mapsto> map (reward_ta E) rs)\<rparr>"] show ?thesis
      by (simp add: rewards_of_insert del: fun_upd_apply)
  qed
qed

text \<open>Claim C26: \<open>GetReward\<close> always returns. When the node answers for every validator it names, the response
  holds exactly these validators, each with all its rewards in the node's order; otherwise an error comes back
  and the response holds exactly the validators before the first one without an answer.\<close>

theorem GetReward_all_validators:
  assumes "as_DelegatorValidators svc (FormatUint (ha_Height params)) (ha_Account params) = Inr vals"
  shows "\<exists>err. GetReward E svc params = Ret (\<lparr>gr_Height = ha_Height params, gr_Rewards =
        rewards_of E svc params (set (takeWhile (\<lambda>v. \<not> isl (rewards_query svc params v)) vals))\<rparr>, err)
    \<and> (err = None \<longleftrightarrow> (\<forall>v \<in> set vals. \<not> isl (rewards_query svc params v)))"
  using reward_loop [of E svc params vals "\<lparr>gr_Height = ha_Height params, gr_Rewards = Map.empty\<rparr>"] assms
  by (simp add: GetReward_def)

definition sample_accounts :: "(int, int) account_service" where
  "sample_accounts =
     \<lparr>as_DelegatorValidators = (\<lambda>_ _. Inr [''val1'', ''val2'']),
      as_DelegationRewards = (\<lambda>_ _ v. if v = ''val1'' then Inr [\<lparr>dc_Denom = ''uatom'', dc_Amount = 7\<rparr>] else Inl ''not found''),
      as_DelegatorDelegations = (\<lambda>_ _. Inr [\<lparr>dr_DelegatorAddress = ''del'', dr_ValidatorAddress = ''val1'', dr_Shares = 4,
        dr_Balance = \<lparr>Denom = ''uatom'', Amount = 4\<rparr>\<rparr>]),
      as_AllBalances = (\<lambda>_ _. Inr [\<lparr>Denom = ''uatom'', Amount = 9\<rparr>])\<rparr>"

theorem GetReward_all_validators_witness:
  "\<exists>resp e. GetReward sample_env sample_accounts \<lparr>ha_Height = 5, ha_Account = ''del''\<rparr> = Ret (resp, Some e)
     \<and> dom (gr_Rewards resp) = {''val1''}"
  using GetReward_all_validators [of sample_accounts "\<lparr>ha_Height = 5, ha_Account = ''del''\<rparr>" "[''val1'', ''val2'']" sample_env]
  by (auto simp: sample_accounts_def rewards_of_def dom_def)

text \<open>Claim C27: the delegations and the balances of an account are reported one for one and in the node's order: each
  delegation with its delegator, its validator, the number of its shares at the precision of the SDK, and its balance; each
  balance with its currency, its number and its text. A node error gives an empty list and an error that wraps it.\<close>

theorem account_queries_keep_entries:
  "(\<forall>drs. as_DelegatorDelegations svc (FormatUint (ha_Height params)) (ha_Account params) = Inr drs \<longrightarrow>
      (\<exists>ds. GetAccountDelegations E svc params = (\<lparr>gd_Height = ha_Height params, gd_Delegations = ds\<rparr>, None)
        \<and> length ds = length drs
        \<and> (\<forall>i < length drs. dl_Delegator (ds ! i) = dr_DelegatorAddress (drs ! i) \<and> dl_Validator (ds ! i) = dr_ValidatorAddress (drs ! i)
             \<and> ta_Numeric (dl_Shares (ds ! i)) = Dec_BigInt E (dr_Shares (drs ! i)) \<and> ta_Exp (dl_Shares (ds ! i)) = sdk_Precision E
             \<and> ta_Currency (dl_Balance (ds ! i)) = Denom (dr_Balance (drs ! i))
             \<and> ta_Numeric (dl_Balance (ds ! i)) = Int_BigInt E (Amount (dr_Balance (drs ! i)))
             \<and> ta_Text (dl_Balance (ds ! i)) = Int_String E (Amount (dr_Balance (drs ! i))) \<and> ta_Exp (dl_Balance (ds ! i)) = 0)))
   \<and> (\<forall>coins. as_AllBalances svc (FormatUint (ha_Height params)) (ha_Account params) = Inr coins \<longrightarrow>
      (\<exists>bs. GetAccountBalance E svc params = (\<lparr>gb_Height = ha_Height params, gb_Balances = bs\<rparr>, None) \<and> length bs = length coins
        \<and> (\<forall>i < length coins. ta_Currency (bs ! i) = Denom (coins ! i) \<and> ta_Numeric (bs ! i) = Int_BigInt E (Amount (coins ! i))
             \<and> ta_Text (bs ! i) = Int_String E (Amount (coins ! i)) \<and> ta_Exp (bs ! i) = 0)))
   \<and> (\<forall>e. as_DelegatorDelegations svc (FormatUint (ha_Height params)) (ha_Account params) = Inl e \<longrightarrow>
      (\<exists>err. GetAccountDelegations E svc params = (\<lparr>gd_Height = ha_Height params, gd_Delegations = []\<rparr>, Some err)
         \<and> errors_Is err (ExtError e)))
   \<and> (\<forall>e. as_AllBalances svc (FormatUint (ha_Height params)) (ha_Account params) = Inl e \<longrightarrow>
      (\<exists>err. GetAccountBalance E svc params = (\<lparr>gb_Height = ha_Height params, gb_Balances = []\<rparr>, Some err)
         \<and> errors_Is err (ExtError e)))"
proof -
  have dels: "fold (\<lambda>dr resp. resp\<lparr>gd_Delegations := gd_Delegations resp @ [delegation_of E dr]\<rparr>) drs resp
      = resp\<lparr>gd_Delegations := gd_Delegations resp @ map (delegation_of E) drs\<rparr>" for drs resp
    by (induction drs arbitrary: resp) auto
  have coins: "fold (\<lambda>c resp. resp\<lparr>gb_Balances := gb_Balances resp @ [balance_amount E c]\<rparr>) cs resp
      = resp\<lparr>gb_Balances := gb_Balances resp @ map (balance_amount E) cs\<rparr>" for cs resp
    by (induction cs arbitrary: resp) auto
  note queries = GetAccountDelegations_def GetAccountBalance_def dels coins
  show ?thesis
  proof (intro conjI allI impI)
    fix drs assume "as_DelegatorDelegations svc (FormatUint (ha_Height params)) (ha_Account params) = Inr drs"
    then have "GetAccountDelegations E svc params = (\<lparr>gd_Height = ha_Height params, gd_Delegations = map (delegation_of E) drs\<rparr>, None)"
      by (simp add: queries)
    then show "\<exists>ds. GetAccountDelegations E svc params = (\<lparr>gd_Height = ha_Height params, gd_Delegations = ds\<rparr>, None)
        \<and> length ds = length drs
        \<and> (\<forall>i < length drs. dl_Delegator (ds ! i) = dr_DelegatorAddress (drs ! i) \<and> dl_Validator (ds ! i) = dr_ValidatorAddress (drs ! i)
             \<and> ta_Numeric (dl_Shares (ds ! i)) = Dec_BigInt E (dr_Shares (drs ! i)) \<and> ta_Exp (dl_Shares (ds ! i)) = sdk_Precision E
             \<and> ta_Currency (dl_Balance (ds ! i)) = Denom (dr_Balance (drs ! i))
             \<and> ta_Numeric (dl_Balance (ds ! i)) = Int_BigInt E (Amount (dr_Balance (drs ! i)))
             \<and> ta_Text (dl_Balance (ds ! i)) = Int_String E (Amount (dr_Balance (drs ! i))) \<and> ta_Exp (dl_Balance (ds ! i)) = 0)"
      by (simp add: delegation_of_def coin_ta_def TransactionAmount0_def)
  next
    fix coins assume "as_AllBalances svc (FormatUint (ha_Height params)) (ha_Account params) = Inr coins"
    then have "GetAccountBalance E svc params = (\<lparr>gb_Height = ha_Height params, gb_Balances = map (balance_amount E) coins\<rparr>, None)"
      by (simp add: GetAccountBalance_def coins del: balance_amount_eq)
    then show "\<exists>bs. GetAccountBalance E svc params = (\<lparr>gb_Height = ha_Height params, gb_Balances = bs\<rparr>, None) \<and> length bs = length coins
        \<and> (\<forall>i < length coins. ta_Currency (bs ! i) = Denom (coins ! i) \<and> ta_Numeric (bs ! i) = Int_BigInt E (Amount (coins ! i))
             \<and> ta_Text (bs ! i) = Int_String E (Amount (coins ! i)) \<and> ta_Exp (bs ! i) = 0)"
      by (simp add: coin_ta_def TransactionAmount0_def)
  qed (simp_all add: queries Errorf_w_def)
qed

theorem account_queries_keep_entries_witness:
  "\<exists>b. GetAccountBalance sample_env sample_accounts \<lparr>ha_Height = 5, ha_Account = ''del''\<rparr> = (\<lparr>gb_Height = 5, gb_Balances = [b]\<rparr>, None)
     \<and> ta_Currency b = ''uatom'' \<and> ta_Numeric b = Some 9"
proof -
  obtain bs where "GetAccountBalance sample_env sample_accounts \<lparr>ha_Height = 5, ha_Account = ''del''\<rparr> = (\<lparr>gb_Height = 5, gb_Balances = bs\<rparr>, None)"
      "length bs = 1" "ta_Currency (bs ! 0) = ''uatom''" "ta_Numeric (bs ! 0) = Some 9"
    using account_queries_keep_entries [of sample_accounts "\<lparr>ha_Height = 5, ha_Account = ''del''\<rparr>" sample_env]
    by (auto simp: sample_accounts_def sample_env_def)
  then show ?thesis by (cases bs) auto
qed

end
