(* ===== verification/Client_Fetch.thy ===== *)
theory Client_Fetch
  imports Accounts
begin

text \<open>
  The parts of \<^verbatim>\<open>src/client/client.go\<close> that work on one height or on a range without concurrency: the interface
  \<open>GRPC\<close> the handlers are given (a record of functions), \<open>blockAndTx\<close>, the responses that a worker makes of its
  result, and \<open>getLastHeightRange\<close>, on 64-bit integers.
\<close>

datatype payload =
    NoPayload
  | PBlock Block
  | PTransaction Transaction
  | PReward GetRewardResponse
  | PBalance GetAccountBalanceResponse
  | PDelegations GetAccountDelegationsResponse

record OutResp =
  or_ID :: uuid
  or_Type :: string
  or_Payload :: payload
  or_Error :: "go_error option"

record GRPC =
  g_GetBlock :: "HeightHash \<Rightarrow> Block \<times> go_error option"
  g_SearchTx :: "HeightHash \<Rightarrow> Block \<Rightarrow> uint64 \<Rightarrow> Transaction list \<times> go_error option"
  g_GetReward :: "HeightAccount \<Rightarrow> GetRewardResponse \<times> go_error option"
  g_GetAccountBalance :: "HeightAccount \<Rightarrow> GetAccountBalanceResponse \<times> go_error option"
  g_GetAccountDelegations :: "HeightAccount \<Rightarrow> GetAccountDelegationsResponse \<times> go_error option"

definition page_size :: uint64 where
  "page_size = 100"

definition blockAndTx :: "GRPC \<Rightarrow> uint64 \<Rightarrow> Block \<times> Transaction list \<times> go_error option" where
  "blockAndTx client height =
     (let (block, err) = g_GetBlock client (HeightHash_Height height)
      in case err of
           Some e \<Rightarrow> (block, [], Some (Errorf_w (''error fetching block: '' @ FormatUint height @ '' '') e '' ''))
         | None \<Rightarrow>
             if blk_NumberOfTransactions block > 0
             then let (txs, err) = g_SearchTx client (HeightHash_Height height) block page_size in (block, txs, err)
             else (block, [], None))"

text \<open>What \<open>asyncBlockAndTx\<close> sends for one height.\<close>

definition error_resp :: "Block \<Rightarrow> go_error \<Rightarrow> OutResp" where
  "error_resp b e = \<lparr>or_ID = blk_ID b, or_Type = ''Error'', or_Payload = NoPayload, or_Error = Some e\<rparr>"

definition block_resp :: "Block \<Rightarrow> OutResp" where
  "block_resp b = \<lparr>or_ID = blk_ID b, or_Type = ''Block'', or_Payload = PBlock b, or_Error = None\<rparr>"

definition transaction_resp :: "Transaction \<Rightarrow> OutResp" where
  "transaction_resp t = \<lparr>or_ID = tx_ID t, or_Type = ''Transaction'', or_Payload = PTransaction t, or_Error = None\<rparr>"

definition partial_resp :: "Block \<Rightarrow> OutResp" where
  "partial_resp b = \<lparr>or_ID = blk_ID b, or_Type = ''Partial'', or_Payload = NoPayload, or_Error = None\<rparr>"

definition height_responses :: "GRPC \<Rightarrow> uint64 \<Rightarrow> OutResp list" where
  "height_responses client height =
     (case blockAndTx client height of
        (b, txs, Some e) \<Rightarrow> [error_resp b e]
      | (b, txs, None) \<Rightarrow> block_resp b # map transaction_resp txs @ [partial_resp b])"

definition getLastHeightRange :: "uint64 \<Rightarrow> uint64 \<Rightarrow> uint64 \<Rightarrow> HeightRange" where
  "getLastHeightRange lastKnownHeight maximumHeightsToGet lastBlockFromNetwork =
     (let lastX = lastBlockFromNetwork - maximumHeightsToGet
      in if lastKnownHeight = 0 \<and> lastX > 0
         then \<lparr>hr_StartHeight = lastX, hr_EndHeight = lastBlockFromNetwork\<rparr>
         else if maximumHeightsToGet < lastBlockFromNetwork - lastKnownHeight
         then \<lparr>hr_StartHeight = lastBlockFromNetwork - maximumHeightsToGet, hr_EndHeight = lastBlockFromNetwork\<rparr>
         else \<lparr>hr_StartHeight = lastKnownHeight, hr_EndHeight = lastBlockFromNetwork\<rparr>)"

subsection \<open>The range that is asked for\<close>

lemma card_heights:
  fixes a b :: uint64
  assumes "a \<le> b"
  shows "card {a..b} = Suc (unat b - unat a)"
proof -
  have "unat ` {a..b} = {unat a..unat b}"
  proof (intro equalityI subsetI)
    fix n assume "n \<in> {unat a..unat b}"
    then have "n < 2 ^ 64" using unat_uint64_less [of b] by (simp del: unat_uint64_less)
    then have "unat (word_of_nat n :: uint64) = n" by (simp add: unat_of_nat)
    with \<open>n \<in> {unat a..unat b}\<close> show "n \<in> unat ` {a..b}"
      by (intro image_eqI [of _ _ "word_of_nat n"]) (auto simp: word_le_nat_alt)
  qed (auto simp: word_le_nat_alt)
  then have "card {a..b} = card {unat a..unat b}" by (metis card_image inj_on_def word_eq_iff_unsigned)
  then show ?thesis using assms by (simp add: word_le_nat_alt Suc_diff_le)
qed

text \<open>Claim C25: when the network is at or above the last known height and its height is at least the maximum, the
  range ends at the network's block and starts at the last known height, or at the maximum below the network's block when
  that is later; so it has one height more than the smaller of the maximum and of the heights since the last known one.\<close>

theorem getLastHeightRange_bounds:
  assumes "known \<le> last_block" and "maximum \<le> last_block"
  shows "let r = getLastHeightRange known maximum last_block in
    hr_EndHeight r = last_block \<and> hr_StartHeight r \<le> last_block \<and> known \<le> hr_StartHeight r
    \<and> unat (hr_StartHeight r) = max (unat known) (unat last_block - unat maximum)
    \<and> card {hr_StartHeight r..hr_EndHeight r} = Suc (min (unat maximum) (unat last_block - unat known))"
proof -
  define r where "r = getLastHeightRange known maximum last_block"
  have r: "hr_EndHeight r = last_block" "hr_StartHeight r \<le> last_block" "known \<le> hr_StartHeight r"
      "unat (hr_StartHeight r) = max (unat known) (unat last_block - unat maximum)"
    using assms unfolding r_def getLastHeightRange_def Let_def
    by (auto simp: word_le_nat_alt word_less_nat_alt unat_sub unat_gt_0 max_def)
  moreover have "card {hr_StartHeight r..hr_EndHeight r} = Suc (unat last_block - unat (hr_StartHeight r))"
    using card_heights [OF r(2)] r(1) by simp
  moreover have "unat last_block - unat (hr_StartHeight r) = min (unat maximum) (unat last_block - unat known)"
    using r(4) assms by (auto simp: word_le_nat_alt max_def min_def)
  ultimately show ?thesis unfolding r_def [symmetric] by simp
qed

theorem getLastHeightRange_bounds_witness:
  "getLastHeightRange 90 20 100 = \<lparr>hr_StartHeight = 90, hr_EndHeight = 100\<rparr>
   \<and> getLastHeightRange 10 20 100 = \<lparr>hr_StartHeight = 80, hr_EndHeight = 100\<rparr>
   \<and> unat (hr_StartHeight (getLastHeightRange 10 20 100)) = 80"
  using getLastHeightRange_bounds [of 10 100 20] by (simp add: getLastHeightRange_def Let_def)

text \<open>On a chain shorter than the maximum, with nothing scraped yet, the subtraction wraps around: the
  range starts above its end, at a height near the largest 64-bit number, and no block of the chain is in it.\<close>

lemma getLastHeightRange_wraps:
  assumes "last_block < maximum"
  shows "hr_StartHeight (getLastHeightRange 0 maximum last_block) > hr_EndHeight (getLastHeightRange 0 maximum last_block)
    \<and> unat (hr_StartHeight (getLastHeightRange 0 maximum last_block)) = 2 ^ 64 - (unat maximum - unat last_block)"
proof -
  have "unat (last_block - maximum) = 2 ^ 64 - (unat maximum - unat last_block)"
    using assms by (simp add: unat_sub_if_size word_less_nat_alt word_size not_le)
  moreover have "unat last_block < 2 ^ 64 - (unat maximum - unat last_block)"
    using assms unat_uint64_less [of maximum] by (simp add: word_less_nat_alt del: unat_uint64_less)
  ultimately show ?thesis
    by (auto simp: getLastHeightRange_def Let_def word_less_nat_alt)
qed

lemma getLastHeightRange_wraps_witness:
  "hr_EndHeight (getLastHeightRange 0 10000 500) = 500
   \<and> unat (hr_StartHeight (getLastHeightRange 0 10000 500)) = 2 ^ 64 - 9500"
  using getLastHeightRange_wraps [of 500 10000] by (simp add: getLastHeightRange_def Let_def)

subsection \<open>The responses of a height\<close>

definition is_error :: "OutResp \<Rightarrow> bool" where
  "is_error r \<longleftrightarrow> or_Type r = ''Error''"

definition is_partial :: "OutResp \<Rightarrow> bool" where
  "is_partial r \<longleftrightarrow> or_Type r = ''Partial''"

lemma resp_kinds [simp]:
  "is_error (error_resp b e)" "\<not> is_error (block_resp b)" "\<not> is_error (transaction_resp t)" "\<not> is_error (partial_resp b)"
  "\<not> is_partial (error_resp b e)" "\<not> is_partial (block_resp b)" "\<not> is_partial (transaction_resp t)" "is_partial (partial_resp b)"
  by (simp_all add: is_error_def is_partial_def error_resp_def block_resp_def transaction_resp_def partial_resp_def)

text \<open>A height's responses are content followed by one terminator: \<open>Partial\<close>, or a lone \<open>Error\<close>.\<close>

lemma height_responses_shape:
  obtains (ok) rs p where "height_responses client h = rs @ [p]" "is_partial p" "\<not> is_error p"
      "\<forall>r \<in> set rs. \<not> is_partial r \<and> \<not> is_error r"
    | (failed) r where "height_responses client h = [r]" "is_error r" "\<not> is_partial r"
proof -
  obtain b txs err where bt: "blockAndTx client h = (b, txs, err)" by (cases "blockAndTx client h") auto
  show thesis
  proof (cases err)
    case None
    with bt show thesis
      by (intro ok [of "block_resp b # map transaction_resp txs" "partial_resp b"]) (auto simp: height_responses_def)
  next
    case (Some e)
    with bt show thesis by (intro failed [of "error_resp b e"]) (auto simp: height_responses_def)
  qed
qed

end
