(* ===== verification/Stream.thy ===== *)
theory Stream
  imports Client_Fetch
begin

text \<open>
  \<open>sendResp\<close> of \<^verbatim>\<open>src/client/client.go\<close>: it numbers the responses it receives, encodes them and sends them, and
  sends a last response \<open>END\<close> when its input is closed or its context is done. What its \<open>select\<close> sees, in the
  order it sees it, is a list of events; a list without an end is a call that still waits, \<open>None\<close>. The encoding
  of a payload as JSON is a parameter; an error of \<open>Send\<close> is only logged, so the result is what was handed to
  \<open>Send\<close>.
\<close>

record TaskRequest =
  rq_Id :: uuid
  rq_Type :: string
  rq_Payload :: bytes

record TaskResponse =
  tr_Id :: uuid
  tr_Type :: string
  tr_Order :: uint64
  tr_Payload :: bytes
  tr_Error :: string
  tr_Final :: bool

datatype send_event = Received OutResp | InClosed | CtxDone

type_synonym encoder = "payload \<Rightarrow> ext_error + bytes"

text \<open>\<open>b.Reset(); enc.Encode(t.Payload)\<close>: the encoder writes nothing when it fails.\<close>

definition encoded :: "encoder \<Rightarrow> payload \<Rightarrow> bytes" where
  "encoded enc p = (case enc p of Inl _ \<Rightarrow> [] | Inr b \<Rightarrow> b)"

definition task_response :: "encoder \<Rightarrow> uuid \<Rightarrow> OutResp \<Rightarrow> uint64 \<Rightarrow> TaskResponse" where
  "task_response enc rid t order =
     \<lparr>tr_Id = rid, tr_Type = or_Type t, tr_Order = order, tr_Payload = encoded enc (or_Payload t), tr_Error = [], tr_Final = False\<rparr>"

definition end_response :: "uuid \<Rightarrow> uint64 \<Rightarrow> TaskResponse" where
  "end_response rid order = \<lparr>tr_Id = rid, tr_Type = ''END'', tr_Order = order, tr_Payload = [], tr_Error = [], tr_Final = True\<rparr>"

text \<open>\<open>SendLoop\<close>; the result is what was sent, the next number and whether the context was done.\<close>

fun send_loop :: "encoder \<Rightarrow> uuid \<Rightarrow> uint64 \<Rightarrow> send_event list \<Rightarrow> (TaskResponse list \<times> uint64 \<times> bool) option" where
  "send_loop enc rid order [] = None"
| "send_loop enc rid order (CtxDone # es) = Some ([], order, True)"
| "send_loop enc rid order (InClosed # es) = Some ([], order, False)"
| "send_loop enc rid order (Received t # es) =
     map_option (\<lambda>(rs, n, d). (task_response enc rid t order # rs, n, d)) (send_loop enc rid (order + 1) es)"

text \<open>What is sent on \<open>fin\<close> before it is closed; \<open>None\<close> when there is no such channel.\<close>

definition sendResp ::
  "encoder \<Rightarrow> uuid \<Rightarrow> send_event list \<Rightarrow> bool \<Rightarrow> (TaskResponse list \<times> bool list option) option" where
  "sendResp enc rid es fin =
     map_option (\<lambda>(rs, order, contextDone).
         (rs @ [end_response rid order], if fin then Some (if contextDone then [] else [True]) else None))
       (send_loop enc rid 0 es)"

subsection \<open>Numbering\<close>

text \<open>The schedules of a sender whose input holds \<open>ts\<close> and is then closed.\<close>

datatype stop = Complete | CancelledAfter nat

fun send_events :: "OutResp list \<Rightarrow> stop \<Rightarrow> send_event list" where
  "send_events ts Complete = map Received ts @ [InClosed]"
| "send_events ts (CancelledAfter k) = map Received (take k ts) @ [CtxDone]"

definition stopped_at :: "OutResp list \<Rightarrow> stop \<Rightarrow> OutResp list" where
  "stopped_at ts stop = (case stop of Complete \<Rightarrow> ts | CancelledAfter k \<Rightarrow> take k ts)"

definition numbered :: "encoder \<Rightarrow> uuid \<Rightarrow> nat \<Rightarrow> OutResp list \<Rightarrow> TaskResponse list" where
  "numbered enc rid n ts = map (\<lambda>(i, t). task_response enc rid t (word_of_nat i)) (enumerate n ts)"

lemma numbered_simps [simp]:
  "numbered enc rid n [] = []"
  "numbered enc rid n (t # ts) = task_response enc rid t (word_of_nat n) # numbered enc rid (Suc n) ts"
  "length (numbered enc rid n ts) = length ts"
  by (simp_all add: numbered_def)

lemma send_loop_received:
  "send_loop enc rid (word_of_nat n) (map Received ts @ es) =
     map_option (\<lambda>(rs, m, d). (numbered enc rid n ts @ rs, m, d)) (send_loop enc rid (word_of_nat (n + length ts)) es)"
proof (induction ts arbitrary: n)
  case Nil
  then show ?case by (simp add: option.map_ident case_prod_beta)
next
  case (Cons t ts)
  from Cons.IH [of "Suc n"] show ?case
    by (simp add: option.map_comp comp_def case_prod_beta add.commute)
qed

lemma sendResp_events:
  "sendResp enc rid (send_events ts stop) fin =
     Some (numbered enc rid 0 (stopped_at ts stop) @ [end_response rid (word_of_nat (length (stopped_at ts stop)))],
           if fin then Some (if stop = Complete then [True] else []) else None)"
  using send_loop_received [of enc rid 0 "stopped_at ts stop"]
  by (cases stop) (auto simp: sendResp_def stopped_at_def)

lemma numbered_orders: "map tr_Order (numbered enc rid n ts) = map word_of_nat [n..<n + length ts]"
  by (induction ts arbitrary: n) (auto simp: task_response_def upt_rec)

lemma numbered_fields:
  "r \<in> set (numbered enc rid n ts) \<Longrightarrow> tr_Id r = rid \<and> \<not> tr_Final r \<and> tr_Error r = []"
  by (auto simp: numbered_def task_response_def)

lemma numbered_payloads:
  "map (\<lambda>r. (tr_Type r, tr_Payload r)) (numbered enc rid n ts) = map (\<lambda>t. (or_Type t, encoded enc (or_Payload t))) ts"
  by (induction ts arbitrary: n) (auto simp: task_response_def)

text \<open>Claim C14: \<open>sendResp\<close> sends one response per response it received, with the same type and the encoded payload, in
  the order of receipt, numbered from 0, all but the last not final; then exactly one final response \<open>END\<close> with the
  next number. It does so when the input is closed and when the context is done; it signals \<open>fin\<close> only in the
  first case.\<close>

theorem sendResp_numbers_and_ends:
  "\<exists>rs e. sendResp enc rid (send_events ts stop) fin = Some (rs @ [e], if fin then Some (if stop = Complete then [True] else []) else None)
     \<and> tr_Id e = rid \<and> tr_Type e = ''END'' \<and> tr_Order e = word_of_nat (length (stopped_at ts stop)) \<and> tr_Final e
     \<and> map tr_Order rs = map word_of_nat [0..<length (stopped_at ts stop)]
     \<and> map (\<lambda>r. (tr_Type r, tr_Payload r)) rs = map (\<lambda>t. (or_Type t, encoded enc (or_Payload t))) (stopped_at ts stop)
     \<and> list_all (\<lambda>r. tr_Id r = rid \<and> \<not> tr_Final r \<and> tr_Error r = []) rs"
  using numbered_orders [of enc rid 0 "stopped_at ts stop"] numbered_payloads [of enc rid 0 "stopped_at ts stop"]
    numbered_fields [of _ enc rid 0 "stopped_at ts stop"]
  by (intro exI [of _ "numbered enc rid 0 (stopped_at ts stop)"] exI [of _ "end_response rid (word_of_nat (length (stopped_at ts stop)))"]
      conjI sendResp_events) (auto simp: list_all_iff end_response_def)

end
