(* ===== verification/Pools.thy ===== *)
theory Pools
  imports Channels Client_Fetch
begin

text \<open>
  \<^verbatim>\<open>src/client/pool.go\<close>: the two pools of channels that are used again. Channels live in a store, so that two
  references to one channel can be told from two channels; a reference is the channel's address, or \<open>None\<close> for a
  \<open>nil\<close> channel. \<open>Get\<close> drains the channel it takes out of the pool; draining is the loop of the source and
  may not end. The contract \<open>channel_pool\<close> is what \<open>getRange\<close> relies on: a channel that was handed out is
  empty, open and nobody else's until it is put back.
\<close>

type_synonym chan_ref = "nat option"

record 'a pool =
  stor :: "chan_ref chan"
  chan_at :: "nat \<rightharpoonup> 'a chan"
  next_chan :: nat

subsection \<open>Operations\<close>

text \<open>\<open>for { select { case <-c: default: return } }\<close>\<close>

partial_function (option) drain :: "'a chan \<Rightarrow> 'a chan option" where
  "drain c = (case chan_recv c of Some (x, c') \<Rightarrow> drain c' | None \<Rightarrow> Some c)"

text \<open>A receive from a \<open>nil\<close> channel is never ready, so the \<open>default\<close> branch returns at once.\<close>

definition drain_ref :: "chan_ref \<Rightarrow> 'a pool \<Rightarrow> 'a pool option" where
  "drain_ref r p =
     (case r of
        None \<Rightarrow> Some p
      | Some i \<Rightarrow>
          (case chan_at p i of
             None \<Rightarrow> Some p
           | Some c \<Rightarrow> map_option (\<lambda>c'. p\<lparr>chan_at := (chan_at p)(i \<mapsto> c')\<rparr>) (drain c)))"

definition hBTxDrain :: "chan_ref \<Rightarrow> 'a pool \<Rightarrow> 'a pool option" where
  "hBTxDrain c p = drain_ref c p"

definition outRespDrain :: "chan_ref \<Rightarrow> OutResp pool \<Rightarrow> OutResp pool option" where
  "outRespDrain c p = drain_ref c p"

text \<open>\<open>make(chan ..., n)\<close>\<close>

definition fresh_chan :: "nat \<Rightarrow> 'a pool \<Rightarrow> chan_ref \<times> 'a pool" where
  "fresh_chan n p =
     (Some (next_chan p),
      p\<lparr>chan_at := (chan_at p)(next_chan p \<mapsto> \<lparr>ch_cap = n, ch_buf = [], ch_closed = False\<rparr>),
        next_chan := Suc (next_chan p)\<rparr>)"

text \<open>A \<open>Get\<close> that does not return is \<open>None\<close>; \<open>drained\<close> is the drain of the pool's channels.\<close>

definition pool_Get :: "(chan_ref \<Rightarrow> 'a pool \<Rightarrow> 'a pool option) \<Rightarrow> nat \<Rightarrow> 'a pool \<Rightarrow> (chan_ref \<times> 'a pool) option" where
  "pool_Get drained n p =
     (case chan_recv (stor p) of
        Some (a, st) \<Rightarrow>
          let r = (case a of Some r \<Rightarrow> r | None \<Rightarrow> None)
          in map_option (\<lambda>p'. (r, p')) (drained r (p\<lparr>stor := st\<rparr>))
      | None \<Rightarrow> Some (fresh_chan n p))"

definition pool_Put :: "chan_ref \<Rightarrow> 'a pool \<Rightarrow> 'a pool go" where
  "pool_Put r p =
     bind_go (chan_send r (stor p)) (\<lambda>st'.
       case st' of
         Some st \<Rightarrow> Ret (p\<lparr>stor := st\<rparr>)
       | None \<Rightarrow>
           (case r of
              None \<Rightarrow> Panic CloseOfNilChannel
            | Some i \<Rightarrow>
                (case chan_at p i of
                   None \<Rightarrow> Ret p
                 | Some c \<Rightarrow> bind_go (chan_close c) (\<lambda>c'. Ret (p\<lparr>chan_at := (chan_at p)(i \<mapsto> c')\<rparr>)))))"

definition new_pool :: "int \<Rightarrow> 'a pool go" where
  "new_pool c = bind_go (make_chan c) (\<lambda>st. Ret \<lparr>stor = st, chan_at = Map.empty, next_chan = 0\<rparr>)"

definition NewOutRespPool :: "int \<Rightarrow> OutResp pool go" where
  "NewOutRespPool c = new_pool c"

definition outRespPool_Get :: "OutResp pool \<Rightarrow> (chan_ref \<times> OutResp pool) option" where
  "outRespPool_Get p = pool_Get outRespDrain 1000 p"

definition outRespPool_Put :: "chan_ref \<Rightarrow> OutResp pool \<Rightarrow> OutResp pool go" where
  "outRespPool_Put r p = pool_Put r p"

definition NewHBTxPool :: "int \<Rightarrow> 'a pool go" where
  "NewHBTxPool c = new_pool c"

definition hBTxPool_Get :: "'a pool \<Rightarrow> (chan_ref \<times> 'a pool) option" where
  "hBTxPool_Get p = pool_Get hBTxDrain 10 p"

definition hBTxPool_Put :: "chan_ref \<Rightarrow> 'a pool \<Rightarrow> 'a pool go" where
  "hBTxPool_Put r p = pool_Put r p"

subsection \<open>Draining\<close>

lemma drain_open:
  "\<not> ch_closed c \<Longrightarrow> drain c = Some (c\<lparr>ch_buf := []\<rparr>)"
proof (induction "ch_buf c" arbitrary: c)
  case Nil
  then show ?case by (subst drain.simps) (simp add: chan_recv_def)
next
  case (Cons x xs)
  from Cons(2) have "chan_recv c = Some (Some x, c\<lparr>ch_buf := xs\<rparr>)" by (simp add: chan_recv_def Cons(2) [symmetric])
  with Cons(1) [of "c\<lparr>ch_buf := xs\<rparr>"] Cons(3) show ?case by (subst drain.simps) simp
qed

lemma drain_closed_diverges:
  assumes "drain c = Some c'"
  shows "\<not> ch_closed c"
  using assms
proof (rule drain.raw_induct [where P = "\<lambda>c c'. \<not> ch_closed c", rotated])
  fix dr and c c' :: "'a chan"
  assume IH: "\<And>c c'. dr c = Some c' \<Longrightarrow> \<not> ch_closed c"
    and step: "(case chan_recv c of Some (x, c') \<Rightarrow> dr c' | None \<Rightarrow> Some c) = Some c'"
  show "\<not> ch_closed c"
  proof
    assume "ch_closed c"
    then obtain x c1 where "chan_recv c = Some (x, c1)" "ch_closed c1"
      by (cases "ch_buf c") (auto simp: chan_recv_def)
    with step IH show False by auto
  qed
qed

subsection \<open>The contract of a pool\<close>

text \<open>The channels in the pool are different open channels of the store.\<close>

definition idle :: "'a pool \<Rightarrow> nat set" where
  "idle p = {i. Some i \<in> set (ch_buf (stor p))}"

definition pool_inv :: "'a pool \<Rightarrow> bool" where
  "pool_inv p \<longleftrightarrow>
     chan_ready (stor p) \<and> None \<notin> set (ch_buf (stor p)) \<and> distinct (ch_buf (stor p)) \<and>
     (\<forall>i \<in> idle p. \<exists>c. chan_at p i = Some c \<and> \<not> ch_closed c) \<and>
     (\<forall>i. chan_at p i \<noteq> None \<longrightarrow> i < next_chan p)"

text \<open>What the other users of a pool do while one of them holds channel \<open>i\<close>: they take channels, and they put
  back channels that are open, outside the pool and not \<open>i\<close>.\<close>

definition others_use ::
  "('a pool \<Rightarrow> (chan_ref \<times> 'a pool) option) \<Rightarrow> (chan_ref \<Rightarrow> 'a pool \<Rightarrow> 'a pool go) \<Rightarrow> nat \<Rightarrow> 'a pool \<Rightarrow> 'a pool \<Rightarrow> bool" where
  "others_use get put i p p' \<longleftrightarrow>
     (\<exists>r. get p = Some (r, p')) \<or>
     (\<exists>j c. j \<noteq> i \<and> j \<notin> idle p \<and> chan_at p j = Some c \<and> \<not> ch_closed c \<and> put (Some j) p = Ret p')"

text \<open>\<open>handed_out i p p'\<close>: the step from \<open>p\<close> to \<open>p'\<close> gave channel \<open>i\<close> away, empty and open, and touched no other.\<close>

definition handed_out :: "nat \<Rightarrow> 'a pool \<Rightarrow> 'a pool \<Rightarrow> bool" where
  "handed_out i p p' \<longleftrightarrow>
     i \<notin> idle p' \<and> idle p' \<subseteq> idle p \<and> (i \<in> idle p \<or> chan_at p i = None) \<and>
     (\<exists>c. chan_at p' i = Some c \<and> ch_buf c = [] \<and> \<not> ch_closed c) \<and> (\<forall>j. j \<noteq> i \<longrightarrow> chan_at p' j = chan_at p j)"

locale channel_pool =
  fixes get :: "'a pool \<Rightarrow> (chan_ref \<times> 'a pool) option" and put :: "chan_ref \<Rightarrow> 'a pool \<Rightarrow> 'a pool go"
  assumes get_exclusive: "pool_inv p \<Longrightarrow> \<exists>i p'. get p = Some (Some i, p') \<and> pool_inv p' \<and> handed_out i p p'"
    and put_owned: "pool_inv p \<Longrightarrow> i \<notin> idle p \<Longrightarrow> chan_at p i = Some c \<Longrightarrow> \<not> ch_closed c \<Longrightarrow>
      \<exists>p'. put (Some i) p = Ret p' \<and> pool_inv p' \<and> idle p' \<subseteq> insert i (idle p) \<and> (\<forall>j. j \<noteq> i \<longrightarrow> chan_at p' j = chan_at p j)"
begin

lemma others_use_keep:
  assumes use: "others_use get put i p p'" and p: "pool_inv p" "i \<notin> idle p" "chan_at p i = Some c"
  shows "pool_inv p' \<and> i \<notin> idle p' \<and> chan_at p' i = Some c"
proof -
  consider r where "get p = Some (r, p')"
    | j d where "j \<noteq> i" "j \<notin> idle p" "chan_at p j = Some d" "\<not> ch_closed d" "put (Some j) p = Ret p'"
    using use unfolding others_use_def by blast
  then show ?thesis
  proof cases
    case 1
    with get_exclusive [OF p(1)] obtain j where "pool_inv p'" "handed_out j p p'" by auto
    with p show ?thesis by (cases "j = i") (auto simp: handed_out_def)
  next
    case 2
    with put_owned [OF p(1)] have "pool_inv p'" "idle p' \<subseteq> insert j (idle p)" "\<forall>k. k \<noteq> j \<longrightarrow> chan_at p' k = chan_at p k"
      by fastforce+
    with 2 p show ?thesis by auto
  qed
qed

lemma held_channel_is_private:
  assumes "pool_inv p" "get p = Some (Some i, p1)" "(others_use get put i)\<^sup>*\<^sup>* p1 p2"
  shows "pool_inv p2 \<and> i \<notin> idle p2 \<and> (\<exists>c. chan_at p2 i = Some c \<and> ch_buf c = [] \<and> \<not> ch_closed c)
    \<and> (\<exists>j p3. get p2 = Some (Some j, p3) \<and> j \<noteq> i \<and> (\<exists>d. chan_at p3 j = Some d \<and> ch_buf d = [] \<and> \<not> ch_closed d))"
proof -
  from get_exclusive [OF assms(1)] assms(2) obtain c where p1: "pool_inv p1" "i \<notin> idle p1" "chan_at p1 i = Some c"
    "ch_buf c = []" "\<not> ch_closed c" by (auto simp: handed_out_def)
  from assms(3) have p2: "pool_inv p2 \<and> i \<notin> idle p2 \<and> chan_at p2 i = Some c"
    by (induction rule: rtranclp_induct) (use p1 in simp, blast dest: others_use_keep)
  then obtain j p3 where "get p2 = Some (Some j, p3)" "handed_out j p2 p3" using get_exclusive [of p2] by blast
  moreover from this(2) p2 have "j \<noteq> i" "\<exists>d. chan_at p3 j = Some d \<and> ch_buf d = [] \<and> \<not> ch_closed d" by (auto simp: handed_out_def)
  ultimately show ?thesis using p1(4,5) p2 by blast
qed

end

subsection \<open>Both pools fulfil it\<close>

lemma pool_Get_exclusive:
  assumes inv: "pool_inv p" and drained: "\<And>r p. drained r p = drain_ref r p"
  shows "\<exists>i p'. pool_Get drained n p = Some (Some i, p') \<and> pool_inv p' \<and> handed_out i p p'"
proof (cases "ch_buf (stor p)")
  case Nil
  have new: "chan_at p (next_chan p) = None" using inv unfolding pool_inv_def by (meson less_irrefl)
  with Nil inv have "pool_Get drained n p = Some (fresh_chan n p)"
    by (simp add: pool_Get_def chan_recv_def pool_inv_def chan_ready_def)
  moreover have "pool_inv (snd (fresh_chan n p))"
    using inv Nil by (auto simp: pool_inv_def fresh_chan_def idle_def less_Suc_eq)
  ultimately show ?thesis using new Nil by (auto simp: fresh_chan_def handed_out_def idle_def)
next
  case (Cons a st)
  with inv obtain i c where i: "a = Some i" "chan_at p i = Some c" "\<not> ch_closed c" "Some i \<notin> set st"
    by (cases a) (auto simp: pool_inv_def idle_def)
  let ?p' = "p\<lparr>stor := (stor p)\<lparr>ch_buf := st\<rparr>, chan_at := (chan_at p)(i \<mapsto> c\<lparr>ch_buf := []\<rparr>)\<rparr>"
  from Cons i drain_open [of c] have "pool_Get drained n p = Some (Some i, ?p')"
    by (simp add: pool_Get_def chan_recv_def drained drain_ref_def)
  moreover have "pool_inv ?p'" using inv Cons i by (auto simp: pool_inv_def idle_def chan_ready_def)
  moreover have "handed_out i p ?p'" using Cons i by (auto simp: handed_out_def idle_def)
  ultimately show ?thesis by blast
qed

lemma pool_Put_owned:
  assumes inv: "pool_inv p" and i: "i \<notin> idle p" "chan_at p i = Some c" "\<not> ch_closed c"
  shows "\<exists>p'. pool_Put (Some i) p = Ret p' \<and> pool_inv p' \<and> idle p' \<subseteq> insert i (idle p) \<and> (\<forall>j. j \<noteq> i \<longrightarrow> chan_at p' j = chan_at p j)"
proof (cases "length (ch_buf (stor p)) < ch_cap (stor p)")
  case True
  let ?p' = "p\<lparr>stor := (stor p)\<lparr>ch_buf := ch_buf (stor p) @ [Some i]\<rparr>\<rparr>"
  from True inv have "pool_Put (Some i) p = Ret ?p'"
    by (simp add: pool_Put_def chan_send_def pool_inv_def chan_ready_def)
  moreover have "pool_inv ?p'" using inv i True by (auto simp: pool_inv_def idle_def chan_ready_def)
  ultimately show ?thesis by (auto simp: idle_def)
next
  case False
  let ?p' = "p\<lparr>chan_at := (chan_at p)(i \<mapsto> c\<lparr>ch_closed := True\<rparr>)\<rparr>"
  from False inv i have "pool_Put (Some i) p = Ret ?p'"
    by (simp add: pool_Put_def chan_send_def pool_inv_def chan_ready_def chan_close_def)
  moreover have "pool_inv ?p'" using inv i by (auto simp: pool_inv_def idle_def)
  ultimately show ?thesis by (auto simp: idle_def)
qed

interpretation outResp: channel_pool outRespPool_Get outRespPool_Put
  by unfold_locales
    (auto simp: outRespPool_Get_def outRespPool_Put_def outRespDrain_def pool_Put_owned intro!: pool_Get_exclusive)

interpretation hBTxs: channel_pool hBTxPool_Get hBTxPool_Put
  by unfold_locales
    (auto simp: hBTxPool_Get_def hBTxPool_Put_def hBTxDrain_def pool_Put_owned intro!: pool_Get_exclusive)

subsection \<open>Properties\<close>


definition sample_pool :: "OutResp pool" where
  "sample_pool = \<lparr>stor = \<lparr>ch_cap = 20, ch_buf = [], ch_closed = False\<rparr>, chan_at = Map.empty, next_chan = 0\<rparr>"

lemma sample_pool_new: "NewOutRespPool 20 = Ret sample_pool"
  by (simp add: NewOutRespPool_def new_pool_def make_chan_def sample_pool_def)

lemma sample_pool_inv: "pool_inv sample_pool"
  by (simp add: pool_inv_def sample_pool_def chan_ready_def idle_def)


text \<open>Draining a channel returns exactly when the channel is open, and then the channel is empty. A closed
  channel is received from forever: a channel must not be in the pool once it is closed.\<close>

lemma drain_returns_iff_open:
  "(\<exists>c'. drain c = Some c') = (\<not> ch_closed c) \<and> (\<forall>c'. drain c = Some c' \<longrightarrow> c' = c\<lparr>ch_buf := []\<rparr>)"
  using drain_open [of c] drain_closed_diverges [of c] by auto

lemma drain_returns_iff_open_witness:
  "drain \<lparr>ch_cap = 2, ch_buf = [True, False], ch_closed = False\<rparr> = Some \<lparr>ch_cap = 2, ch_buf = [], ch_closed = False\<rparr>"
  using drain_returns_iff_open [of "\<lparr>ch_cap = 2, ch_buf = [True, False], ch_closed = False\<rparr>"] by auto

text \<open>A \<open>nil\<close> channel that is put into the pool, as \<open>getRange\<close> does for the marker of the last height when
  it discards responses, comes out again: an empty pool with room takes it and the next \<open>Get\<close> returns \<open>nil\<close>, on
  which every send and receive blocks; a full pool panics when it closes it.\<close>

lemma nil_channel_in_pool:
  assumes "chan_ready (stor p)"
  shows "(ch_buf (stor p) = [] \<and> 0 < ch_cap (stor p) \<longrightarrow>
        (\<exists>p1. outRespPool_Put None p = Ret p1 \<and> outRespPool_Get p1 = Some (None, p)))
    \<and> (length (ch_buf (stor p)) = ch_cap (stor p) \<longrightarrow> outRespPool_Put None p = Panic CloseOfNilChannel)"
  using assms
  by (auto simp: chan_ready_def outRespPool_Put_def outRespPool_Get_def pool_Put_def pool_Get_def chan_send_def chan_recv_def
      outRespDrain_def drain_ref_def)

lemma nil_channel_in_pool_witness:
  "\<exists>p1. outRespPool_Put None sample_pool = Ret p1 \<and> outRespPool_Get p1 = Some (None, sample_pool)"
  using nil_channel_in_pool [of sample_pool] by (simp add: sample_pool_def chan_ready_def)

end
