(* ===== verification/Pipeline.thy ===== *)
theory Pipeline
  imports Client_Fetch
begin

text \<open>
  The concurrent part of \<^verbatim>\<open>src/client/client.go\<close>: \<open>getRange\<close> starts one \<open>populateRange\<close> and five
  \<open>asyncBlockAndTx\<close> goroutines and forwards their responses to \<open>out\<close>, from which \<open>sendResp\<close> reads. The system is a
  state machine: every goroutine has a program counter, every channel a bounded buffer, and an action is one
  channel operation of one goroutine, taken in any order.

  A lane is what belongs to one round of \<open>populateRange\<close>: the response channel it took from the pool and the
  work on it. The pool hands out an empty channel that nobody else uses, so lanes are numbered in the order of
  the rounds and each has a buffer of its own. \<open>todo\<close> of a lane is what the worker that took it still has to send.
\<close>

subsection \<open>State\<close>

datatype publisher = PubOut uint64 | PubIn uint64 | PubNext uint64 | PubLast | PubClose | PubDone

datatype worker = Receiving | Sending nat | Exited

datatype collector =
    Collecting
  | Reading nat
  | Forwarding nat OutResp
  | Signalling OutResp
  | Reporting OutResp
  | Waiting "go_error option"
  | Purifying "go_error option"
  | Returned "go_error option"

datatype hBTx = Lane nat uint64 | LastHeight

record pipe =
  pub :: publisher
  lanes :: nat
  chIn :: "(nat \<times> uint64) list"
  inClosed :: bool
  chOut :: "hBTx list"
  errored :: nat
  workers :: "nat \<Rightarrow> worker"
  resp_ch :: "nat \<Rightarrow> OutResp list"
  todo :: "nat \<Rightarrow> OutResp list"
  coll :: collector
  outp :: "OutResp list"
  sent :: "OutResp list"

definition hbtx_cap :: nat where "hbtx_cap = 10"
definition resp_cap :: nat where "resp_cap = 1000"
definition out_cap :: nat where "out_cap = 201"
definition errored_cap :: nat where "errored_cap = 7"
definition num_workers :: nat where "num_workers = 5"

definition pipe_init :: "HeightRange \<Rightarrow> pipe" where
  "pipe_init hr =
     \<lparr>pub = PubOut (hr_StartHeight hr), lanes = 0, chIn = [], inClosed = False, chOut = [], errored = 0,
      workers = (\<lambda>_. Receiving), resp_ch = (\<lambda>_. []), todo = (\<lambda>_. []), coll = Collecting, outp = [], sent = []\<rparr>"

text \<open>A receive from \<open>errored\<close> succeeds on a token, and always once \<open>getRange\<close> has returned, which closes it.\<close>

definition returned :: "pipe \<Rightarrow> bool" where
  "returned s = (case coll s of Returned _ \<Rightarrow> True | _ \<Rightarrow> False)"

definition recv_errored :: "pipe \<Rightarrow> pipe option" where
  "recv_errored s =
     (if errored s > 0 then Some (s\<lparr>errored := errored s - 1\<rparr>)
      else if returned s then Some s else None)"

subsection \<open>Actions\<close>

datatype action = Publish | Interrupt | Take nat | Produce nat | Collect | Deliver

text \<open>\<open>populateRange\<close>: the channel operation of each \<open>select\<close>.\<close>

definition populate_send :: "HeightRange \<Rightarrow> pipe \<Rightarrow> pipe option" where
  "populate_send hr s =
     (case pub s of
        PubOut h \<Rightarrow>
          if length (chOut s) < hbtx_cap
          then Some (s\<lparr>chOut := chOut s @ [Lane (lanes s) h], pub := PubIn h\<rparr>) else None
      | PubIn h \<Rightarrow>
          if length (chIn s) < hbtx_cap
          then Some (s\<lparr>chIn := chIn s @ [(lanes s, h)], pub := PubNext h\<rparr>) else None
      | PubNext h \<Rightarrow>
          if h + 1 > hr_EndHeight hr then Some (s\<lparr>pub := PubLast\<rparr>)
          else Some (s\<lparr>pub := PubOut (h + 1), lanes := Suc (lanes s)\<rparr>)
      | PubLast \<Rightarrow>
          if length (chOut s) < hbtx_cap then Some (s\<lparr>chOut := chOut s @ [LastHeight], pub := PubClose\<rparr>) else None
      | PubClose \<Rightarrow> Some (s\<lparr>inClosed := True, pub := PubDone\<rparr>)
      | PubDone \<Rightarrow> None)"

text \<open>Its alternative \<open>case <-er\<close>: the \<open>break\<close> there leaves the \<open>select\<close> only, not the loop.\<close>

definition populate_interrupt :: "pipe \<Rightarrow> pipe option" where
  "populate_interrupt s =
     (case pub s of
        PubOut h \<Rightarrow> map_option (\<lambda>s. s\<lparr>pub := PubIn h\<rparr>) (recv_errored s)
      | PubIn h \<Rightarrow> map_option (\<lambda>s. s\<lparr>pub := PubNext h\<rparr>) (recv_errored s)
      | PubLast \<Rightarrow> map_option (\<lambda>s. s\<lparr>pub := PubClose\<rparr>) (recv_errored s)
      | _ \<Rightarrow> None)"

text \<open>\<open>asyncBlockAndTx\<close>: \<open>for in := range cinn\<close> with the call of \<open>blockAndTx\<close>, and the sends on \<open>in.Ch\<close>.\<close>

definition worker_take :: "GRPC \<Rightarrow> nat \<Rightarrow> pipe \<Rightarrow> pipe option" where
  "worker_take client w s =
     (if w < num_workers \<and> workers s w = Receiving then
        (case chIn s of
           (k, h) # rest \<Rightarrow>
             Some (s\<lparr>chIn := rest, workers := (workers s)(w := Sending k),
                     todo := (todo s)(k := height_responses client h)\<rparr>)
         | [] \<Rightarrow> if inClosed s then Some (s\<lparr>workers := (workers s)(w := Exited)\<rparr>) else None)
      else None)"

definition worker_produce :: "nat \<Rightarrow> pipe \<Rightarrow> pipe option" where
  "worker_produce w s =
     (if w < num_workers then
        (case workers s w of
           Sending k \<Rightarrow>
             (case todo s k of
                r # rs \<Rightarrow>
                  if length (resp_ch s k) < resp_cap
                  then Some (s\<lparr>resp_ch := (resp_ch s)(k := resp_ch s k @ [r]), todo := (todo s)(k := rs),
                               workers := (workers s)(w := if is_error r then Exited
                                                           else if rs = [] then Receiving else Sending k)\<rparr>)
                  else None
              | [] \<Rightarrow> None)
         | _ \<Rightarrow> None)
      else None)"

text \<open>The loops of \<open>getRange\<close>: \<open>RANGE_LOOP\<close>, \<open>INNER_LOOP\<close>, \<open>wg.Wait()\<close> and \<open>PURIFY_CHANNELS\<close>. A response that was received
  is held by \<open>Forwarding\<close> until \<open>out\<close> has room for it; an error is held while \<open>errored\<close> is signalled, then while it is
  reported on \<open>out\<close>.\<close>

definition collect :: "pipe \<Rightarrow> pipe option" where
  "collect s =
     (case coll s of
        Collecting \<Rightarrow>
          (case chOut s of
             Lane k h # rest \<Rightarrow> Some (s\<lparr>chOut := rest, coll := Reading k\<rparr>)
           | LastHeight # rest \<Rightarrow> Some (s\<lparr>chOut := rest, coll := Returned None\<rparr>)
           | [] \<Rightarrow> None)
      | Reading k \<Rightarrow>
          (case resp_ch s k of
             r # rs \<Rightarrow>
               Some (s\<lparr>resp_ch := (resp_ch s)(k := rs),
                       coll := if is_partial r then Collecting else if is_error r then Signalling r else Forwarding k r\<rparr>)
           | [] \<Rightarrow> None)
      | Forwarding k r \<Rightarrow>
          if length (outp s) < out_cap then Some (s\<lparr>outp := outp s @ [r], coll := Reading k\<rparr>) else None
      | Signalling r \<Rightarrow>
          if errored s < errored_cap then Some (s\<lparr>errored := Suc (errored s), coll := Reporting r\<rparr>) else None
      | Reporting r \<Rightarrow>
          if length (outp s) < out_cap
          then Some (s\<lparr>outp := outp s @ [r], coll := Waiting (or_Error r)\<rparr>) else None
      | Waiting e \<Rightarrow>
          if \<forall>w \<in> set [0..<num_workers]. workers s w = Exited then Some (s\<lparr>coll := Purifying e\<rparr>) else None
      | Purifying e \<Rightarrow>
          (case chOut s of
             Lane k h # rest \<Rightarrow> Some (s\<lparr>chOut := rest, resp_ch := (resp_ch s)(k := [])\<rparr>)
           | LastHeight # rest \<Rightarrow> Some (s\<lparr>chOut := rest\<rparr>)
           | [] \<Rightarrow> Some (s\<lparr>coll := Returned e\<rparr>))
      | Returned e \<Rightarrow> None)"

text \<open>\<open>sendResp\<close> receives from \<open>out\<close>.\<close>

definition deliver :: "pipe \<Rightarrow> pipe option" where
  "deliver s = (case outp s of r # rs \<Rightarrow> Some (s\<lparr>outp := rs, sent := sent s @ [r]\<rparr>) | [] \<Rightarrow> None)"

primrec act :: "GRPC \<Rightarrow> HeightRange \<Rightarrow> action \<Rightarrow> pipe \<Rightarrow> pipe option" where
  "act client hr Publish s = populate_send hr s"
| "act client hr Interrupt s = populate_interrupt s"
| "act client hr (Take w) s = worker_take client w s"
| "act client hr (Produce w) s = worker_produce w s"
| "act client hr Collect s = collect s"
| "act client hr Deliver s = deliver s"

inductive getRange :: "GRPC \<Rightarrow> HeightRange \<Rightarrow> pipe \<Rightarrow> pipe \<Rightarrow> bool" for client hr where
  getRange_step: "act client hr a s = Some t \<Longrightarrow> getRange client hr s t"

inductive_cases getRange_cases: "getRange client hr s t"

text \<open>A schedule is a list of actions.\<close>

primrec run :: "GRPC \<Rightarrow> HeightRange \<Rightarrow> action list \<Rightarrow> pipe \<Rightarrow> pipe option" where
  "run client hr [] s = Some s"
| "run client hr (a # as) s = (case act client hr a s of Some t \<Rightarrow> run client hr as t | None \<Rightarrow> None)"

lemma run_getRange: "run client hr as s = Some t \<Longrightarrow> (getRange client hr)\<^sup>*\<^sup>* s t"
proof (induction as arbitrary: s)
  case Nil
  then show ?case by simp
next
  case (Cons a as)
  then obtain u where "act client hr a s = Some u" "run client hr as u = Some t" by (auto split: option.splits)
  with Cons.IH show ?case by (meson converse_rtranclp_into_rtranclp getRange_step)
qed

end
