(* ===== verification/Pipeline_Order.thy ===== *)
theory Pipeline_Order
  imports Pipeline "HOL-Library.Sublist"
begin

text \<open>
  The invariant of the machine of \<open>Pipeline\<close>. Five workers answer the heights of a range in any order and at any
  speed; what is forwarded is nevertheless the responses height by height. The invariant ties every lane to the
  responses of its height: what was read, what is in its channel and what its worker still has to send are
  together exactly these. It is kept by every action, separately for the queues, the lanes and the workers.
\<close>

subsection \<open>The order of the responses\<close>

definition lane_height :: "HeightRange \<Rightarrow> nat \<Rightarrow> uint64" where
  "lane_height hr k = hr_StartHeight hr + word_of_nat k"

definition lane_responses :: "GRPC \<Rightarrow> HeightRange \<Rightarrow> nat \<Rightarrow> OutResp list" where
  "lane_responses client hr k = height_responses client (lane_height hr k)"

definition last_lane :: "HeightRange \<Rightarrow> nat" where
  "last_lane hr = unat (hr_EndHeight hr) - unat (hr_StartHeight hr)"

definition content :: "OutResp list \<Rightarrow> OutResp list" where
  "content rs = filter (\<lambda>r. \<not> is_partial r) rs"

definition fails :: "OutResp list \<Rightarrow> bool" where
  "fails rs = list_ex is_error rs"

text \<open>What has to come out for the first \<open>n\<close> lanes.\<close>

definition in_order :: "GRPC \<Rightarrow> HeightRange \<Rightarrow> nat \<Rightarrow> OutResp list" where
  "in_order client hr n = concat (map (\<lambda>k. content (lane_responses client hr k)) [0..<n])"

definition proper_range :: "HeightRange \<Rightarrow> bool" where
  "proper_range hr \<longleftrightarrow> hr_StartHeight hr \<le> hr_EndHeight hr \<and> unat (hr_EndHeight hr) + 1 < 2 ^ 64"

text \<open>How many lanes were put on \<open>chOut\<close> and on \<open>chIn\<close>.\<close>

definition pushed :: "pipe \<Rightarrow> nat" where
  "pushed s = lanes s + (case pub s of PubOut _ \<Rightarrow> 0 | _ \<Rightarrow> 1)"

definition offered :: "pipe \<Rightarrow> nat" where
  "offered s = lanes s + (case pub s of PubOut _ \<Rightarrow> 0 | PubIn _ \<Rightarrow> 0 | _ \<Rightarrow> 1)"

definition pub_ok :: "HeightRange \<Rightarrow> pipe \<Rightarrow> bool" where
  "pub_ok hr s \<longleftrightarrow>
     (case pub s of
        PubOut h \<Rightarrow> h = lane_height hr (lanes s) \<and> lanes s \<le> last_lane hr
      | PubIn h \<Rightarrow> h = lane_height hr (lanes s) \<and> lanes s \<le> last_lane hr
      | PubNext h \<Rightarrow> h = lane_height hr (lanes s) \<and> lanes s \<le> last_lane hr
      | _ \<Rightarrow> lanes s = last_lane hr)"

text \<open>While no error was seen: \<open>t\<close> lanes were taken by workers, \<open>f\<close> is the first lane on \<open>chOut\<close>, \<open>c\<close> lanes are
  completely forwarded, and \<open>rd\<close> was read of lane \<open>c\<close>.\<close>

definition queues_ok :: "HeightRange \<Rightarrow> nat \<Rightarrow> nat \<Rightarrow> pipe \<Rightarrow> bool" where
  "queues_ok hr f t s \<longleftrightarrow>
     errored s = 0 \<and> f \<le> pushed s \<and> t \<le> offered s \<and>
     chIn s = map (\<lambda>k. (k, lane_height hr k)) [t..<offered s] \<and>
     chOut s = map (\<lambda>k. Lane k (lane_height hr k)) [f..<pushed s]
       @ (if pub s = PubClose \<or> pub s = PubDone then [LastHeight] else []) \<and>
     (inClosed s \<longleftrightarrow> pub s = PubDone)"

definition lane_ok :: "GRPC \<Rightarrow> HeightRange \<Rightarrow> nat \<Rightarrow> nat \<Rightarrow> OutResp list \<Rightarrow> OutResp list \<Rightarrow> OutResp list \<Rightarrow> bool" where
  "lane_ok client hr t k rd buffer rest \<longleftrightarrow>
     rd @ buffer @ (if k < t then rest else lane_responses client hr k) = lane_responses client hr k"

definition lanes_ok :: "GRPC \<Rightarrow> HeightRange \<Rightarrow> nat \<Rightarrow> nat \<Rightarrow> OutResp list \<Rightarrow> pipe \<Rightarrow> bool" where
  "lanes_ok client hr c t rd s \<longleftrightarrow>
     c \<le> t \<and>
     (\<forall>k < c. todo s k = [] \<and> \<not> fails (lane_responses client hr k)) \<and>
     (\<forall>k \<ge> c. lane_ok client hr t k (if k = c then rd else []) (resp_ch s k) (todo s k)) \<and>
     sent s @ outp s = in_order client hr c @ rd \<and>
     (\<forall>r \<in> set rd. \<not> is_partial r \<and> \<not> is_error r)"

definition busy_sound :: "nat \<Rightarrow> (nat \<Rightarrow> worker) \<Rightarrow> (nat \<Rightarrow> OutResp list) \<Rightarrow> bool" where
  "busy_sound t ws td \<longleftrightarrow> (\<forall>w < num_workers. \<forall>k. ws w = Sending k \<longrightarrow> k < t \<and> td k \<noteq> [])"

definition busy_complete :: "nat \<Rightarrow> (nat \<Rightarrow> worker) \<Rightarrow> (nat \<Rightarrow> OutResp list) \<Rightarrow> bool" where
  "busy_complete t ws td \<longleftrightarrow> (\<forall>k < t. td k \<noteq> [] \<longrightarrow> (\<exists>w < num_workers. ws w = Sending k))"

definition busy_unique :: "(nat \<Rightarrow> worker) \<Rightarrow> bool" where
  "busy_unique ws \<longleftrightarrow> (\<forall>w < num_workers. \<forall>w' < num_workers. \<forall>k. ws w = Sending k \<longrightarrow> ws w' = Sending k \<longrightarrow> w = w')"

definition workers_ok :: "GRPC \<Rightarrow> HeightRange \<Rightarrow> nat \<Rightarrow> pipe \<Rightarrow> bool" where
  "workers_ok client hr t s \<longleftrightarrow>
     busy_sound t (workers s) (todo s) \<and> busy_complete t (workers s) (todo s) \<and> busy_unique (workers s) \<and>
     (\<forall>w < num_workers. workers s w = Exited \<longrightarrow> inClosed s \<and> chIn s = [] \<or> (\<exists>k < t. fails (lane_responses client hr k)))"

definition live :: "GRPC \<Rightarrow> HeightRange \<Rightarrow> nat \<Rightarrow> nat \<Rightarrow> nat \<Rightarrow> OutResp list \<Rightarrow> pipe \<Rightarrow> bool" where
  "live client hr c f t rd s \<longleftrightarrow>
     queues_ok hr f t s \<and> lanes_ok client hr c t rd s \<and> workers_ok client hr t s"

text \<open>Once lane \<open>c\<close> failed, everything before it and its error are all that ever comes out.\<close>

definition failed_at :: "GRPC \<Rightarrow> HeightRange \<Rightarrow> nat \<Rightarrow> OutResp \<Rightarrow> bool" where
  "failed_at client hr c r \<longleftrightarrow>
     c \<le> last_lane hr \<and> lane_responses client hr c = [r] \<and> is_error r \<and> (\<forall>k < c. \<not> fails (lane_responses client hr k))"

definition outcome :: "GRPC \<Rightarrow> HeightRange \<Rightarrow> collector \<Rightarrow> OutResp list \<Rightarrow> bool" where
  "outcome client hr co rs =
     (case co of
        Signalling r \<Rightarrow> (\<exists>c. failed_at client hr c r \<and> rs = in_order client hr c)
      | Reporting r \<Rightarrow> (\<exists>c. failed_at client hr c r \<and> rs = in_order client hr c)
      | Returned None \<Rightarrow> (\<forall>k \<le> last_lane hr. \<not> fails (lane_responses client hr k)) \<and> rs = in_order client hr (Suc (last_lane hr))
      | Waiting (Some e) \<Rightarrow> (\<exists>c r. failed_at client hr c r \<and> or_Error r = Some e \<and> rs = in_order client hr c @ [r])
      | Purifying (Some e) \<Rightarrow> (\<exists>c r. failed_at client hr c r \<and> or_Error r = Some e \<and> rs = in_order client hr c @ [r])
      | Returned (Some e) \<Rightarrow> (\<exists>c r. failed_at client hr c r \<and> or_Error r = Some e \<and> rs = in_order client hr c @ [r])
      | _ \<Rightarrow> False)"

text \<open>While a response waits for room on \<open>out\<close>, the lanes are as if it was there already.\<close>

abbreviation put_out :: "OutResp \<Rightarrow> pipe \<Rightarrow> pipe" where
  "put_out r s \<equiv> s\<lparr>outp := outp s @ [r]\<rparr>"

definition pipe_inv :: "GRPC \<Rightarrow> HeightRange \<Rightarrow> pipe \<Rightarrow> bool" where
  "pipe_inv client hr s \<longleftrightarrow>
     pub_ok hr s \<and>
     (case coll s of
        Collecting \<Rightarrow> \<exists>c t. live client hr c c t [] s
      | Reading k \<Rightarrow> k < pushed s \<and> (\<exists>t rd. live client hr k (Suc k) t rd s)
      | Forwarding k r \<Rightarrow> k < pushed s \<and> (\<exists>t rd. live client hr k (Suc k) t rd (put_out r s))
      | co \<Rightarrow> outcome client hr co (sent s @ outp s))"

lemma lane_height_Suc: "lane_height hr (Suc k) = lane_height hr k + 1"
  by (simp add: lane_height_def add.commute add.left_commute)

lemma last_lane_reached:
  assumes "proper_range hr" "k \<le> last_lane hr"
  shows "hr_EndHeight hr < lane_height hr k + 1 \<longleftrightarrow> k = last_lane hr"
proof -
  have e: "unat (hr_EndHeight hr) + 1 < 2 ^ 64" "unat (hr_StartHeight hr) \<le> unat (hr_EndHeight hr)"
    using assms(1) by (simp_all add: proper_range_def word_le_nat_alt)
  then have "unat (hr_StartHeight hr) + k + 1 < 2 ^ 64" using assms(2) by (simp add: last_lane_def)
  then have "unat (lane_height hr k + 1) = unat (hr_StartHeight hr) + k + 1"
    by (simp add: lane_height_def unat_word_ariths unat_of_nat)
  with e assms(2) show ?thesis by (auto simp: word_less_nat_alt last_lane_def)
qed

lemma partial_ends_lane:
  assumes "rd @ r # zs = lane_responses client hr k" "\<forall>x \<in> set rd. \<not> is_partial x \<and> \<not> is_error x" "is_partial r"
  shows "zs = [] \<and> content (lane_responses client hr k) = rd \<and> \<not> fails (lane_responses client hr k)"
proof (rule height_responses_shape [of client "lane_height hr k"])
  fix rs p assume *: "height_responses client (lane_height hr k) = rs @ [p]" "is_partial p" "\<not> is_error p"
    "\<forall>r \<in> set rs. \<not> is_partial r \<and> \<not> is_error r"
  with assms(1) have eq: "rd @ r # zs = rs @ [p]" by (simp add: lane_responses_def)
  have "zs = []"
  proof (rule ccontr)
    assume "zs \<noteq> []"
    with eq have "r \<in> set rs" by (metis butlast_append butlast_snoc in_set_conv_decomp list.distinct(1) butlast.simps(2))
    with *(4) assms(3) show False by blast
  qed
  with eq * show ?thesis by (auto simp: content_def fails_def list_ex_iff lane_responses_def filter_id_conv)
next
  fix x assume "height_responses client (lane_height hr k) = [x]" "is_error x" "\<not> is_partial x"
  with assms show ?thesis by (auto simp: lane_responses_def append_eq_Cons_conv)
qed

lemma error_fills_lane:
  assumes "rd @ r # zs = lane_responses client hr k" "is_error r"
  shows "rd = [] \<and> zs = [] \<and> lane_responses client hr k = [r]"
proof (rule height_responses_shape [of client "lane_height hr k"])
  fix rs p assume *: "height_responses client (lane_height hr k) = rs @ [p]" "is_partial p" "\<not> is_error p"
    "\<forall>r \<in> set rs. \<not> is_partial r \<and> \<not> is_error r"
  with assms(1) have "r \<in> set (rs @ [p])" by (metis in_set_conv_decomp lane_responses_def)
  with assms(2) * show ?thesis by auto
next
  fix x assume "height_responses client (lane_height hr k) = [x]" "is_error x" "\<not> is_partial x"
  with assms show ?thesis by (auto simp: lane_responses_def append_eq_Cons_conv)
qed

lemma lane_responses_nonempty [simp]: "lane_responses client hr k \<noteq> []"
  unfolding lane_responses_def by (rule height_responses_shape [of client "lane_height hr k"]) auto

subsection \<open>Every action keeps the order\<close>

text \<open>What the parts of the invariant do not depend on.\<close>

lemma queues_ok_frame [simp]:
  "queues_ok hr f t (s\<lparr>workers := a1\<rparr>) = queues_ok hr f t s" "queues_ok hr f t (s\<lparr>resp_ch := a2\<rparr>) = queues_ok hr f t s"
  "queues_ok hr f t (s\<lparr>todo := a2\<rparr>) = queues_ok hr f t s" "queues_ok hr f t (s\<lparr>coll := a3\<rparr>) = queues_ok hr f t s"
  "queues_ok hr f t (s\<lparr>outp := a4\<rparr>) = queues_ok hr f t s" "queues_ok hr f t (s\<lparr>sent := a4\<rparr>) = queues_ok hr f t s"
  by (simp_all add: queues_ok_def pushed_def offered_def)

lemma lanes_ok_frame [simp]:
  "lanes_ok client hr c t rd (s\<lparr>pub := b1\<rparr>) = lanes_ok client hr c t rd s"
  "lanes_ok client hr c t rd (s\<lparr>lanes := b2\<rparr>) = lanes_ok client hr c t rd s"
  "lanes_ok client hr c t rd (s\<lparr>chIn := b3\<rparr>) = lanes_ok client hr c t rd s"
  "lanes_ok client hr c t rd (s\<lparr>inClosed := b4\<rparr>) = lanes_ok client hr c t rd s"
  "lanes_ok client hr c t rd (s\<lparr>chOut := b5\<rparr>) = lanes_ok client hr c t rd s"
  "lanes_ok client hr c t rd (s\<lparr>workers := b6\<rparr>) = lanes_ok client hr c t rd s"
  "lanes_ok client hr c t rd (s\<lparr>coll := b7\<rparr>) = lanes_ok client hr c t rd s"
  by (simp_all add: lanes_ok_def)

lemma workers_ok_frame [simp]:
  "workers_ok client hr t (s\<lparr>pub := c1\<rparr>) = workers_ok client hr t s"
  "workers_ok client hr t (s\<lparr>lanes := c2\<rparr>) = workers_ok client hr t s"
  "workers_ok client hr t (s\<lparr>chOut := c4\<rparr>) = workers_ok client hr t s"
  "workers_ok client hr t (s\<lparr>resp_ch := c5\<rparr>) = workers_ok client hr t s"
  "workers_ok client hr t (s\<lparr>coll := c6\<rparr>) = workers_ok client hr t s"
  "workers_ok client hr t (s\<lparr>outp := c7\<rparr>) = workers_ok client hr t s"
  "workers_ok client hr t (s\<lparr>sent := c7\<rparr>) = workers_ok client hr t s"
  by (simp_all add: workers_ok_def)

lemma pub_ok_frame [simp]:
  "pub_ok hr (s\<lparr>chIn := d1\<rparr>) = pub_ok hr s" "pub_ok hr (s\<lparr>chOut := d2\<rparr>) = pub_ok hr s"
  "pub_ok hr (s\<lparr>workers := d3\<rparr>) = pub_ok hr s" "pub_ok hr (s\<lparr>resp_ch := d4\<rparr>) = pub_ok hr s"
  "pub_ok hr (s\<lparr>todo := d4\<rparr>) = pub_ok hr s" "pub_ok hr (s\<lparr>coll := d5\<rparr>) = pub_ok hr s"
  "pub_ok hr (s\<lparr>outp := d6\<rparr>) = pub_ok hr s" "pub_ok hr (s\<lparr>sent := d6\<rparr>) = pub_ok hr s"
  "pub_ok hr (s\<lparr>errored := d7\<rparr>) = pub_ok hr s"
  by (simp_all add: pub_ok_def split: publisher.split)

lemma pub_ok_cong: "pub s' = pub s \<Longrightarrow> lanes s' = lanes s \<Longrightarrow> pub_ok hr s' = pub_ok hr s"
  by (simp add: pub_ok_def split: publisher.split)

lemma workers_ok_close: "workers_ok client hr t s \<Longrightarrow> workers_ok client hr t (s\<lparr>inClosed := True\<rparr>)"
  by (auto simp: workers_ok_def)

lemma workers_ok_offer: "workers_ok client hr t s \<Longrightarrow> \<not> inClosed s \<Longrightarrow> workers_ok client hr t (s\<lparr>chIn := xs\<rparr>)"
  by (simp add: workers_ok_def)

lemma publish_queues:
  assumes "populate_send hr s = Some s'" "queues_ok hr f t s" "pub_ok hr s"
  shows "queues_ok hr f t s'"
  using assms unfolding populate_send_def queues_ok_def pub_ok_def pushed_def offered_def
  by (cases "pub s") (simp_all split: if_split_asm add: upt_Suc_append; clarsimp)+

lemma publish_pub_ok:
  assumes "populate_send hr s = Some s'" "pub_ok hr s" "proper_range hr"
  shows "pub_ok hr s'"
  using assms last_lane_reached [OF assms(3), of "lanes s"]
  by (cases "pub s") (auto simp: populate_send_def pub_ok_def lane_height_Suc split: if_splits)

lemma publish_live:
  assumes "populate_send hr s = Some s'" "live client hr c f t rd s" "pub_ok hr s" "proper_range hr"
  shows "live client hr c f t rd s'"
proof -
  from assms have "queues_ok hr f t s'" unfolding live_def by (blast intro: publish_queues)
  moreover from assms have "lanes_ok client hr c t rd s'"
    by (auto simp: populate_send_def live_def split: publisher.splits if_splits)
  moreover from assms have "workers_ok client hr t s'"
    by (auto simp: populate_send_def live_def workers_ok_close workers_ok_offer queues_ok_def split: publisher.splits if_splits)
  ultimately show ?thesis by (simp add: live_def)
qed

lemma lane_ok_produce:
  "lane_ok client hr t k rd buffer (r # rs) \<Longrightarrow> k < t \<Longrightarrow> lane_ok client hr t k rd (buffer @ [r]) rs"
  by (simp add: lane_ok_def)

lemma lane_ok_read:
  "lane_ok client hr t k rd (r # rs) rest \<Longrightarrow> lane_ok client hr t k (rd @ [r]) rs rest"
  by (simp add: lane_ok_def)

lemma lane_ok_untaken: "lane_ok client hr t k rd buffer rest \<Longrightarrow> t \<le> k \<Longrightarrow> rd = [] \<and> buffer = []"
  by (simp add: lane_ok_def)

lemma lane_ok_take:
  "lane_ok client hr t k rd buffer (todo s k) \<Longrightarrow>
     lane_ok client hr (Suc t) k rd buffer (((todo s)(t := lane_responses client hr t)) k)"
  by (auto simp: lane_ok_def less_Suc_eq split: if_splits)

text \<open>A worker changes its state: it takes lane \<open>t\<close>, sends on with more to send, or stops sending.\<close>

lemma busy_take:
  assumes "busy_sound t ws td" "busy_complete t ws td" "busy_unique ws" "w < num_workers" "ws w = Receiving" "rs \<noteq> []"
  shows "busy_sound (Suc t) (ws(w := Sending t)) (td(t := rs))" "busy_complete (Suc t) (ws(w := Sending t)) (td(t := rs))"
    "busy_unique (ws(w := Sending t))"
proof -
  show "busy_sound (Suc t) (ws(w := Sending t)) (td(t := rs))"
    using assms(1,6) unfolding busy_sound_def by (auto simp: less_Suc_eq)
  show "busy_complete (Suc t) (ws(w := Sending t)) (td(t := rs))"
    using assms(2,4,5) unfolding busy_complete_def by (auto simp: less_Suc_eq) (metis worker.distinct(1))
  show "busy_unique (ws(w := Sending t))"
    using assms(1,3) unfolding busy_unique_def busy_sound_def by (auto split: if_splits)
qed

lemma busy_send:
  assumes "busy_sound t ws td" "busy_complete t ws td" "busy_unique ws" "w < num_workers" "ws w = Sending k" "rs \<noteq> []"
  shows "busy_sound t (ws(w := Sending k)) (td(k := rs))" "busy_complete t (ws(w := Sending k)) (td(k := rs))"
    "busy_unique (ws(w := Sending k))"
proof -
  have ws: "ws(w := Sending k) = ws" using assms(5) by auto
  show "busy_sound t (ws(w := Sending k)) (td(k := rs))" "busy_complete t (ws(w := Sending k)) (td(k := rs))"
    "busy_unique (ws(w := Sending k))"
    unfolding ws using assms unfolding busy_sound_def busy_complete_def by auto
qed

lemma busy_stop:
  assumes "busy_sound t ws td" "busy_complete t ws td" "busy_unique ws" "w < num_workers" "ws w = Sending k"
    "\<And>j. a \<noteq> Sending j"
  shows "busy_sound t (ws(w := a)) (td(k := []))" "busy_complete t (ws(w := a)) (td(k := []))" "busy_unique (ws(w := a))"
proof -
  show "busy_sound t (ws(w := a)) (td(k := []))"
    using assms unfolding busy_sound_def busy_unique_def by auto
  show "busy_complete t (ws(w := a)) (td(k := []))"
    using assms(2,5) unfolding busy_complete_def by auto (metis worker.inject)
  show "busy_unique (ws(w := a))"
    using assms(3,6) unfolding busy_unique_def by auto
qed

lemma busy_exit:
  assumes "busy_sound t ws td" "busy_complete t ws td" "busy_unique ws" "ws w = Receiving"
  shows "busy_sound t (ws(w := Exited)) td" "busy_complete t (ws(w := Exited)) td" "busy_unique (ws(w := Exited))"
proof -
  show "busy_sound t (ws(w := Exited)) td" using assms(1) unfolding busy_sound_def by auto
  show "busy_complete t (ws(w := Exited)) td"
    using assms(2,4) unfolding busy_complete_def by auto (metis worker.distinct(1))
  show "busy_unique (ws(w := Exited))" using assms(3) unfolding busy_unique_def by auto
qed

lemma queues_chIn:
  assumes "queues_ok hr f t s" "chIn s = (k, h) # rest"
  shows "k = t" "h = lane_height hr t" "t < offered s" "rest = map (\<lambda>k. (k, lane_height hr k)) [Suc t..<offered s]"
  using assms by (auto simp: queues_ok_def upt_eq_Cons_conv map_eq_Cons_conv)

lemma take_live:
  assumes "worker_take client w s = Some s'" "live client hr c f t rd s"
  shows "\<exists>t'. live client hr c f t' rd s'"
proof (cases "chIn s")
  case Nil
  with assms have s': "s' = s\<lparr>workers := (workers s)(w := Exited)\<rparr>" "inClosed s" "workers s w = Receiving"
    by (auto simp: worker_take_def split: if_splits)
  with assms(2) Nil have "live client hr c f t rd s'"
    using busy_exit [of t "workers s" "todo s" w] by (simp add: live_def workers_ok_def)
  then show ?thesis ..
next
  case (Cons kh rest)
  then obtain k h where kh: "chIn s = (k, h) # rest" by (cases kh) auto
  from assms(2) have q: "queues_ok hr f t s" and l: "lanes_ok client hr c t rd s" and wk: "workers_ok client hr t s"
    by (auto simp: live_def)
  note k = queues_chIn [OF q kh]
  from assms(1) kh k have w: "w < num_workers" "workers s w = Receiving"
    and s': "s' = s\<lparr>chIn := rest, workers := (workers s)(w := Sending t), todo := (todo s)(t := lane_responses client hr t)\<rparr>"
    by (auto simp: worker_take_def lane_responses_def split: if_splits)
  have "queues_ok hr f (Suc t) s'" using q k s' by (simp add: queues_ok_def pushed_def offered_def)
  moreover have "lanes_ok client hr c (Suc t) rd s'"
    using l s' by (auto simp: lanes_ok_def lane_ok_take simp del: fun_upd_apply) (simp add: fun_upd_apply)
  moreover have "workers_ok client hr (Suc t) s'"
    using wk w s' kh busy_take [of t "workers s" "todo s" w "lane_responses client hr t"]
    by (auto simp: workers_ok_def less_Suc_eq)
  ultimately show ?thesis by (auto simp: live_def)
qed

lemma produce_cases:
  assumes "worker_produce w s = Some s'"
  obtains k r rs where "w < num_workers" "workers s w = Sending k" "todo s k = r # rs"
    "s' = s\<lparr>resp_ch := (resp_ch s)(k := resp_ch s k @ [r]), todo := (todo s)(k := rs),
       workers := (workers s)(w := if is_error r then Exited else if rs = [] then Receiving else Sending k)\<rparr>"
  using assms by (auto simp: worker_produce_def split: if_splits worker.splits list.splits)

lemma produce_live:
  assumes "worker_produce w s = Some s'" "live client hr c f t rd s"
  shows "live client hr c f t rd s'"
  using assms(1)
proof (rule produce_cases)
  fix k r and rs :: "OutResp list"
  let ?w' = "if is_error r then Exited else if rs = [] then Receiving else Sending k"
  assume w: "w < num_workers" "workers s w = Sending k" "todo s k = r # rs"
    and s': "s' = s\<lparr>resp_ch := (resp_ch s)(k := resp_ch s k @ [r]), todo := (todo s)(k := rs),
       workers := (workers s)(w := ?w')\<rparr>"
  from assms(2) have q: "queues_ok hr f t s" and l: "lanes_ok client hr c t rd s"
    and b: "busy_sound t (workers s) (todo s)" "busy_complete t (workers s) (todo s)" "busy_unique (workers s)"
    and e: "\<forall>w < num_workers. workers s w = Exited \<longrightarrow> inClosed s \<and> chIn s = [] \<or> (\<exists>k < t. fails (lane_responses client hr k))"
    by (auto simp: live_def workers_ok_def)
  from b w have k: "k < t" by (auto simp: busy_sound_def)
  with l w have c: "c \<le> k" by (metis lanes_ok_def leI list.distinct(1))
  with l w(3) have ok: "lane_ok client hr t k (if k = c then rd else []) (resp_ch s k) (r # rs)" by (auto simp: lanes_ok_def)
  then have eq: "((if k = c then rd else []) @ resp_ch s k) @ r # rs = lane_responses client hr k"
    using k by (simp add: lane_ok_def)
  have lanes: "lanes_ok client hr c t rd s'"
    using l s' c w(3) lane_ok_produce [OF ok k] by (auto simp: lanes_ok_def)
  have failing: "rs = [] \<and> fails (lane_responses client hr k)" if "is_error r"
    using error_fills_lane [OF eq that] that by (simp add: fails_def)
  have "busy_sound t (workers s') (todo s') \<and> busy_complete t (workers s') (todo s') \<and> busy_unique (workers s')"
    using busy_stop [OF b w(1,2), of ?w'] busy_send [OF b w(1,2), of rs] failing s' by auto
  moreover have "\<forall>w < num_workers. workers s' w = Exited \<longrightarrow> inClosed s' \<and> chIn s' = [] \<or> (\<exists>k < t. fails (lane_responses client hr k))"
    using e failing k s' by auto
  ultimately show ?thesis using q lanes s' by (simp add: live_def workers_ok_def)
qed

lemma deliver_live:
  "deliver s = Some s' \<Longrightarrow> live client hr c f t rd s \<Longrightarrow> live client hr c f t rd s'"
  by (auto simp: deliver_def live_def lanes_ok_def split: list.splits)

lemma pushed_bound: "pub_ok hr s \<Longrightarrow> k < pushed s \<Longrightarrow> k \<le> last_lane hr"
  by (auto simp: pub_ok_def pushed_def split: publisher.splits)

lemma in_order_Suc: "in_order client hr (Suc n) = in_order client hr n @ content (lane_responses client hr n)"
  by (simp add: in_order_def)

lemma failed_at_error: "failed_at client hr c r \<Longrightarrow> \<exists>e. or_Error r = Some e"
  unfolding failed_at_def lane_responses_def height_responses_def
  by (auto simp: error_resp_def split: prod.splits option.splits)

lemma collecting_inv:
  assumes "collect s = Some s'" "coll s = Collecting" "pipe_inv client hr s"
  shows "pipe_inv client hr s'"
proof -
  from assms(2,3) obtain c t where live: "live client hr c c t [] s" and pub: "pub_ok hr s" by (auto simp: pipe_inv_def)
  then have q: "queues_ok hr c t s" and l: "lanes_ok client hr c t [] s" and wk: "workers_ok client hr t s"
    by (auto simp: live_def)
  then have out: "chOut s = map (\<lambda>k. Lane k (lane_height hr k)) [c..<pushed s]
       @ (if pub s = PubClose \<or> pub s = PubDone then [LastHeight] else [])" "c \<le> pushed s" by (auto simp: queues_ok_def)
  show ?thesis
  proof (cases "c < pushed s")
    case True
    with out assms(1,2) have s': "s' = s\<lparr>chOut := map (\<lambda>k. Lane k (lane_height hr k)) [Suc c..<pushed s]
       @ (if pub s = PubClose \<or> pub s = PubDone then [LastHeight] else []), coll := Reading c\<rparr>"
      by (simp add: collect_def upt_conv_Cons)
    with q True have "queues_ok hr (Suc c) t s'" by (simp add: queues_ok_def pushed_def offered_def)
    with l wk pub True s' show ?thesis by (auto simp: pipe_inv_def live_def pushed_def)
  next
    case False
    with out assms(1,2) have s': "s' = s\<lparr>chOut := [], coll := Returned None\<rparr>" and "pub s = PubClose \<or> pub s = PubDone"
      by (auto simp: collect_def split: if_splits)
    with pub out False have "c = Suc (last_lane hr)" by (auto simp: pub_ok_def pushed_def)
    with l pub s' show ?thesis by (auto simp: pipe_inv_def outcome_def lanes_ok_def)
  qed
qed

lemma reading_lane:
  assumes "live client hr k f t rd s" "resp_ch s k = r # rs"
  shows "k < t" "rd @ r # (rs @ todo s k) = lane_responses client hr k" "\<forall>x \<in> set rd. \<not> is_partial x \<and> \<not> is_error x"
proof -
  from assms have ok: "lane_ok client hr t k rd (r # rs) (todo s k)" by (auto simp: live_def lanes_ok_def)
  then show "k < t" using lane_ok_untaken [OF ok] by fastforce
  with ok show "rd @ r # (rs @ todo s k) = lane_responses client hr k" by (simp add: lane_ok_def)
qed (use assms in \<open>simp add: live_def lanes_ok_def\<close>)

lemma finish_lane:
  assumes "live client hr k (Suc k) t rd s" "resp_ch s k = r # rs" "is_partial r"
  shows "live client hr (Suc k) (Suc k) t [] (s\<lparr>resp_ch := (resp_ch s)(k := rs), coll := Collecting\<rparr>)"
proof -
  note lane = reading_lane [OF assms(1,2)]
  from partial_ends_lane [OF lane(2,3) assms(3)] have ended: "rs = []" "todo s k = []"
    "content (lane_responses client hr k) = rd" "\<not> fails (lane_responses client hr k)" by auto
  from assms(1) have l: "lanes_ok client hr k t rd s" by (simp add: live_def)
  then have "lane_ok client hr t j [] (resp_ch s j) (todo s j)" if "Suc k \<le> j" for j
    using that unfolding lanes_ok_def by (metis Suc_leD Suc_n_not_le_n)
  with l ended lane(1) have "lanes_ok client hr (Suc k) t [] (s\<lparr>resp_ch := (resp_ch s)(k := rs), coll := Collecting\<rparr>)"
    by (auto simp: lanes_ok_def in_order_Suc less_Suc_eq)
  with assms(1) show ?thesis by (simp add: live_def)
qed

lemma reading_inv:
  assumes "collect s = Some s'" "coll s = Reading k" "pipe_inv client hr s"
  shows "pipe_inv client hr s'"
proof -
  from assms(2,3) obtain t rd where live: "live client hr k (Suc k) t rd s" and pub: "pub_ok hr s" and k: "k < pushed s"
    by (auto simp: pipe_inv_def)
  from assms(1,2) obtain r rs where buf: "resp_ch s k = r # rs" by (auto simp: collect_def split: list.splits)
  note lane = reading_lane [OF live buf]
  from live have l: "lanes_ok client hr k t rd s" and wk: "workers_ok client hr t s" and q: "queues_ok hr (Suc k) t s"
    by (auto simp: live_def)
  consider (partial) "is_partial r" | (error) "is_error r" "\<not> is_partial r" | (content) "\<not> is_partial r" "\<not> is_error r" by blast
  then show ?thesis
  proof cases
    case partial
    with assms(1,2) buf have "s' = s\<lparr>resp_ch := (resp_ch s)(k := rs), coll := Collecting\<rparr>" by (simp add: collect_def)
    with finish_lane [OF live buf partial] pub show ?thesis by (auto simp: pipe_inv_def)
  next
    case error
    with assms(1,2) buf have s': "s' = s\<lparr>resp_ch := (resp_ch s)(k := rs), coll := Signalling r\<rparr>" by (simp add: collect_def)
    from error_fills_lane [OF lane(2) error(1)] l pushed_bound [OF pub k] error(1)
    have "failed_at client hr k r" "sent s @ outp s = in_order client hr k" by (auto simp: failed_at_def lanes_ok_def)
    with s' pub show ?thesis by (auto simp: pipe_inv_def outcome_def)
  next
    case content
    with assms(1,2) buf have s': "s' = s\<lparr>resp_ch := (resp_ch s)(k := rs), coll := Forwarding k r\<rparr>" by (simp add: collect_def)
    from l buf have "lane_ok client hr t k (rd @ [r]) rs (todo s k)" by (auto simp: lanes_ok_def intro!: lane_ok_read)
    with l content s' have "lanes_ok client hr k t (rd @ [r]) (put_out r s')" by (auto simp: lanes_ok_def)
    with s' q wk pub k show ?thesis by (auto simp: pipe_inv_def live_def pushed_def)
  qed
qed

lemma live_coll [simp]: "live client hr c f t rd (s\<lparr>coll := co\<rparr>) = live client hr c f t rd s"
  by (simp add: live_def)

lemma forwarding_inv:
  assumes "collect s = Some s'" "coll s = Forwarding k r" "pipe_inv client hr s"
  shows "pipe_inv client hr s'"
proof -
  from assms(1,2) have s': "s' = (put_out r s)\<lparr>coll := Reading k\<rparr>" by (auto simp: collect_def split: if_splits)
  from assms(2,3) obtain t rd where "live client hr k (Suc k) t rd (put_out r s)" "pub_ok hr s" "k < pushed s"
    by (auto simp: pipe_inv_def)
  moreover from this(1) have "live client hr k (Suc k) t rd s'" unfolding s' live_coll .
  moreover have "pushed s' = pushed s" by (simp add: s' pushed_def)
  ultimately show ?thesis by (auto simp: s' pipe_inv_def)
qed

lemma settled_collect:
  assumes "collect s = Some s'" "coll s \<noteq> Collecting" "\<And>k. coll s \<noteq> Reading k" "\<And>k r. coll s \<noteq> Forwarding k r"
    "outcome client hr (coll s) (sent s @ outp s)"
  shows "outcome client hr (coll s') (sent s' @ outp s') \<and> coll s' \<noteq> Collecting \<and> (\<forall>k. coll s' \<noteq> Reading k)
    \<and> (\<forall>k r. coll s' \<noteq> Forwarding k r) \<and> pub s' = pub s \<and> lanes s' = lanes s"
proof (cases "coll s")
  case (Signalling r)
  with assms show ?thesis by (auto simp: collect_def outcome_def split: if_splits)
next
  case (Reporting r)
  with assms(1) have "s' = s\<lparr>outp := outp s @ [r], coll := Waiting (or_Error r)\<rparr>"
    by (auto simp: collect_def split: if_splits)
  with Reporting assms(5) failed_at_error show ?thesis by (fastforce simp: outcome_def)
next
  case (Waiting e)
  with assms show ?thesis by (auto simp: collect_def outcome_def split: if_splits option.splits)
next
  case (Purifying e)
  with assms show ?thesis by (auto simp: collect_def outcome_def split: list.splits hBTx.splits option.splits)
qed (use assms in \<open>auto simp: collect_def\<close>)

lemma collect_inv:
  assumes "collect s = Some s'" "pipe_inv client hr s"
  shows "pipe_inv client hr s'"
proof -
  consider "coll s = Collecting" | k where "coll s = Reading k" | k r where "coll s = Forwarding k r"
    | "coll s \<noteq> Collecting" "\<And>k. coll s \<noteq> Reading k" "\<And>k r. coll s \<noteq> Forwarding k r" by blast
  then show ?thesis
  proof cases
    case 1
    with assms show ?thesis by (blast intro: collecting_inv)
  next
    case 2
    with assms show ?thesis by (blast intro: reading_inv)
  next
    case 3
    with assms show ?thesis by (blast intro: forwarding_inv)
  next
    case 4
    with assms(2) have "outcome client hr (coll s) (sent s @ outp s)" "pub_ok hr s"
      by (auto simp: pipe_inv_def split: collector.splits)
    with settled_collect [OF assms(1) 4, of client hr] pub_ok_cong [of s' s hr] show ?thesis
      by (auto simp: pipe_inv_def split: collector.splits)
  qed
qed

text \<open>The other actions leave the collector where it is, and what came out unchanged.\<close>

lemma others_settled:
  assumes "act client hr a s = Some s'" "a \<noteq> Collect"
  shows "coll s' = coll s" "sent s' @ outp s' = sent s @ outp s"
  using assms
  by (cases a; auto simp: populate_send_def populate_interrupt_def recv_errored_def worker_take_def worker_produce_def deliver_def
      split: publisher.splits if_splits list.splits worker.splits)+

lemma interrupt_live: "live client hr c f t rd s \<Longrightarrow> \<not> returned s \<Longrightarrow> populate_interrupt s = None"
  by (simp add: live_def queues_ok_def populate_interrupt_def recv_errored_def split: publisher.split)

lemma others_pub_ok:
  assumes "act client hr a s = Some s'" "a \<noteq> Collect" "pub_ok hr s" "proper_range hr"
  shows "pub_ok hr s'"
  using assms publish_pub_ok [of hr s s']
  by (cases a) (auto simp: populate_interrupt_def recv_errored_def worker_take_def worker_produce_def deliver_def pub_ok_def
      split: publisher.splits if_splits list.splits worker.splits)

lemma others_live:
  assumes "act client hr a s = Some s'" "a \<noteq> Collect" "live client hr c f t rd s" "\<not> returned s" "pub_ok hr s" "proper_range hr"
  shows "\<exists>t. live client hr c f t rd s'"
  using assms publish_live [of hr s s' client c f t rd] interrupt_live [of client hr c f t rd s]
    take_live [of client _ s s' hr c f t rd] produce_live [of _ s s' client hr c f t rd] deliver_live [of s s' client hr c f t rd]
  by (cases a) auto

lemma pushed_mono: "populate_send hr s = Some s' \<Longrightarrow> pushed s \<le> pushed s'"
  by (auto simp: populate_send_def pushed_def split: publisher.splits if_splits)

lemma others_pushed:
  "act client hr a s = Some s' \<Longrightarrow> a \<noteq> Collect \<Longrightarrow> pushed s \<le> pushed s'"
  using pushed_mono [of hr s s']
  by (cases a) (auto simp: populate_interrupt_def recv_errored_def worker_take_def worker_produce_def deliver_def pushed_def
      split: publisher.splits if_splits list.splits worker.splits)

lemma outp_frame [simp]: "pushed (s\<lparr>outp := os\<rparr>) = pushed s" "offered (s\<lparr>outp := os\<rparr>) = offered s"
  by (simp_all add: pushed_def offered_def)

text \<open>What waits for \<open>out\<close> does not matter to the others.\<close>

lemma others_put_out:
  "act client hr a s = Some s' \<Longrightarrow> a \<noteq> Collect \<Longrightarrow> act client hr a (put_out r s) = Some (put_out r s')"
  by (cases a) (auto simp: populate_send_def populate_interrupt_def recv_errored_def returned_def worker_take_def worker_produce_def
      deliver_def split: publisher.splits if_splits list.splits worker.splits)

lemma act_inv:
  assumes "act client hr a s = Some s'" "pipe_inv client hr s" "proper_range hr"
  shows "pipe_inv client hr s'"
proof (cases "a = Collect")
  case True
  with assms collect_inv show ?thesis by simp
next
  case False
  from assms(2) have pub: "pub_ok hr s" by (simp add: pipe_inv_def)
  note same = others_settled [OF assms(1) False] others_pub_ok [OF assms(1) False pub assms(3)]
    others_live [OF assms(1) False _ _ pub assms(3)] others_pushed [OF assms(1) False]
  show ?thesis
  proof (cases "coll s")
    case Collecting
    with assms(2) obtain c t where "live client hr c c t [] s" by (auto simp: pipe_inv_def)
    with same Collecting show ?thesis by (fastforce simp: pipe_inv_def returned_def)
  next
    case (Reading k)
    with assms(2) obtain t rd where "live client hr k (Suc k) t rd s" "k < pushed s" by (auto simp: pipe_inv_def)
    with same Reading show ?thesis by (fastforce simp: pipe_inv_def returned_def)
  next
    case (Forwarding k r)
    with assms(2) obtain t rd where "live client hr k (Suc k) t rd (put_out r s)" "k < pushed s" by (auto simp: pipe_inv_def)
    with others_live [OF others_put_out [OF assms(1) False] False _ _ _ assms(3)] same Forwarding pub show ?thesis
      by (fastforce simp: pipe_inv_def returned_def)
  qed (use assms(2) same in \<open>auto simp: pipe_inv_def\<close>)
qed

interpretation pipeline: transition_system "\<lambda>s. s = pipe_init hr \<and> proper_range hr" "getRange client hr"
    "\<lambda>s. pipe_inv client hr s \<and> proper_range hr"
proof
  fix s assume "s = pipe_init hr \<and> proper_range hr"
  then show "pipe_inv client hr s \<and> proper_range hr"
    by (auto simp: pipe_init_def pipe_inv_def live_def queues_ok_def lanes_ok_def lane_ok_def workers_ok_def busy_sound_def
        busy_complete_def busy_unique_def pub_ok_def pushed_def offered_def in_order_def lane_height_def intro!: exI [of _ 0])
next
  fix s t assume "pipe_inv client hr s \<and> proper_range hr" "getRange client hr s t"
  then show "pipe_inv client hr t \<and> proper_range hr" by (auto elim!: getRange_cases intro: act_inv)
qed

subsection \<open>What comes out\<close>

lemma reachable_pipe_inv:
  assumes "proper_range hr" "(getRange client hr)\<^sup>*\<^sup>* (pipe_init hr) s"
  shows "pipe_inv client hr s"
proof -
  have "reach (\<lambda>s. s = pipe_init hr \<and> proper_range hr) (getRange client hr) (pipe_init hr)"
    using assms(1) by (intro reach_init) simp
  from pipeline.reachable_invariant [OF pipeline.reachable_steps [OF this assms(2)]] show ?thesis by simp
qed

lemma in_order_prefix: "m \<le> n \<Longrightarrow> prefix (in_order client hr m) (in_order client hr n)"
  by (induction rule: dec_induct) (auto simp: in_order_Suc)

lemma in_order_part:
  assumes "rd @ zs = lane_responses client hr k" "\<forall>x \<in> set rd. \<not> is_partial x" "k \<le> last_lane hr"
  shows "prefix (in_order client hr k @ rd) (in_order client hr (Suc (last_lane hr)))"
proof -
  have "content (lane_responses client hr k) = rd @ content zs"
    using assms(2) by (simp add: assms(1) [symmetric] content_def filter_id_conv)
  then have "prefix (in_order client hr k @ rd) (in_order client hr (Suc k))" by (simp add: in_order_Suc)
  then show ?thesis using in_order_prefix [of "Suc k" "Suc (last_lane hr)"] assms(3) prefix_order.trans by fastforce
qed

lemma failed_at_prefix:
  "failed_at client hr c r \<Longrightarrow> prefix (in_order client hr c @ [r]) (in_order client hr (Suc (last_lane hr)))"
  by (rule in_order_part [of "[r]" "[]"]) (auto simp: failed_at_def is_error_def is_partial_def)

lemma pipe_inv_prefix:
  assumes "pipe_inv client hr s"
  shows "prefix (sent s @ outp s) (in_order client hr (Suc (last_lane hr)))"
proof (cases "coll s")
  case Collecting
  with assms obtain c t where "live client hr c c t [] s" "pub_ok hr s" by (auto simp: pipe_inv_def)
  moreover from this have "c \<le> Suc (last_lane hr)"
    by (auto simp: live_def queues_ok_def pub_ok_def pushed_def split: publisher.splits)
  ultimately show ?thesis by (auto simp: live_def lanes_ok_def intro: in_order_prefix)
next
  case (Reading k)
  with assms obtain t rd where live: "live client hr k (Suc k) t rd s" and "k \<le> last_lane hr"
    by (auto simp: pipe_inv_def dest: pushed_bound)
  moreover from live have "rd @ resp_ch s k @ (if k < t then todo s k else lane_responses client hr k) = lane_responses client hr k"
    by (auto simp: live_def lanes_ok_def lane_ok_def)
  ultimately show ?thesis
    using in_order_part [of rd _ client hr k] by (auto simp: live_def lanes_ok_def)
next
  case (Forwarding k r)
  with assms obtain t rd where live: "live client hr k (Suc k) t rd (put_out r s)" and "k \<le> last_lane hr"
    by (auto simp: pipe_inv_def dest: pushed_bound)
  moreover from live have "rd @ resp_ch s k @ (if k < t then todo s k else lane_responses client hr k) = lane_responses client hr k"
    by (auto simp: live_def lanes_ok_def lane_ok_def)
  ultimately have "prefix ((sent s @ outp s) @ [r]) (in_order client hr (Suc (last_lane hr)))"
    using in_order_part [of rd _ client hr k] by (auto simp: live_def lanes_ok_def)
  then show ?thesis by (rule append_prefixD)
next
  case (Signalling r)
  with assms obtain c where "failed_at client hr c r" "sent s @ outp s = in_order client hr c"
    by (auto simp: pipe_inv_def outcome_def)
  then show ?thesis using in_order_prefix [of c "Suc (last_lane hr)"] by (simp add: failed_at_def)
next
  case (Reporting r)
  with assms obtain c where "failed_at client hr c r" "sent s @ outp s = in_order client hr c"
    by (auto simp: pipe_inv_def outcome_def)
  then show ?thesis using in_order_prefix [of c "Suc (last_lane hr)"] by (simp add: failed_at_def)
qed (use assms in \<open>auto simp: pipe_inv_def outcome_def failed_at_prefix split: option.splits\<close>)

text \<open>Claim C6: whatever the order in which the goroutines run, what \<open>getRange\<close> forwards is at every moment a
  prefix of the blocks and transactions of the range in the order of the heights, each block directly followed by
  its transactions: nothing is reordered, duplicated, dropped or mixed between heights.\<close>

theorem getRange_in_order:
  assumes "proper_range hr" and "(getRange client hr)\<^sup>*\<^sup>* (pipe_init hr) s"
  shows "prefix (sent s @ outp s) (in_order client hr (Suc (last_lane hr)))"
  by (rule pipe_inv_prefix [OF reachable_pipe_inv [OF assms]])

text \<open>When \<open>getRange\<close> returns without an error, every height of the range was fetched successfully and all
  its responses were forwarded; when it returns an error, it is that of the first height of the range that failed,
  the responses of all heights before it were forwarded, and the error itself is the last response.\<close>

lemma getRange_result:
  assumes "proper_range hr" and "(getRange client hr)\<^sup>*\<^sup>* (pipe_init hr) s" and "coll s = Returned err"
  shows "case err of
      None \<Rightarrow> (\<forall>k \<le> last_lane hr. \<not> fails (lane_responses client hr k))
        \<and> sent s @ outp s = in_order client hr (Suc (last_lane hr))
    | Some e \<Rightarrow> (\<exists>c r. failed_at client hr c r \<and> or_Error r = Some e \<and> sent s @ outp s = in_order client hr c @ [r])"
  using reachable_pipe_inv [OF assms(1,2)] assms(3) by (auto simp: pipe_inv_def outcome_def split: option.splits)

end
