(* ===== verification/Pipeline_Progress.thy ===== *)
theory Pipeline_Progress
  imports Pipeline_Order
begin

text \<open>
  Progress of the machine of \<open>Pipeline\<close>: as long as no height fails, some goroutine can always go on until
  \<open>getRange\<close> returns. When a height fails and the range is long, a schedule leads to a state in which no
  goroutine can go on.
\<close>

subsection \<open>Schedules for concrete ranges\<close>

definition sample_client :: "uint64 set \<Rightarrow> GRPC" where
  "sample_client bad =
     \<lparr>g_GetBlock = (\<lambda>hh. if hh_Height hh \<in> bad then (Block0, Some (ExtError ''unavailable''))
                           else (Block0\<lparr>blk_Height := hh_Height hh\<rparr>, None)),
      g_SearchTx = (\<lambda>_ _ _. ([], None)),
      g_GetReward = (\<lambda>ha. (\<lparr>gr_Height = ha_Height ha, gr_Rewards = Map.empty\<rparr>, None)),
      g_GetAccountBalance = (\<lambda>ha. (\<lparr>gb_Height = ha_Height ha, gb_Balances = []\<rparr>, None)),
      g_GetAccountDelegations = (\<lambda>ha. (\<lparr>gd_Height = ha_Height ha, gd_Delegations = []\<rparr>, None))\<rparr>"

lemma error_resp_Error: "or_Error (error_resp b e) = Some e"
  by (simp add: error_resp_def)

lemma sample_responses:
  "height_responses (sample_client bad) h =
     (if h \<in> bad then [error_resp Block0 (Errorf_w (''error fetching block: '' @ FormatUint h @ '' '') (ExtError ''unavailable'') '' '')]
      else [block_resp (Block0\<lparr>blk_Height := h\<rparr>), partial_resp (Block0\<lparr>blk_Height := h\<rparr>)])"
  by (simp add: height_responses_def blockAndTx_def sample_client_def HeightHash_Height_def Block0_def)

lemmas run_simps = populate_send_def populate_interrupt_def recv_errored_def worker_take_def worker_produce_def
  collect_def deliver_def pipe_init_def hbtx_cap_def resp_cap_def out_cap_def errored_cap_def num_workers_def sample_responses

definition two_heights :: "action list" where
  "two_heights =
     [Publish, Publish, Publish, Publish, Publish, Publish, Publish, Publish,
      Take 0, Take 1, Produce 1, Produce 1, Produce 0, Produce 0,
      Collect, Collect, Collect, Collect, Collect, Collect, Collect, Collect, Collect]"

lemma two_heights_run:
  "\<exists>s. run (sample_client {}) \<lparr>hr_StartHeight = 5, hr_EndHeight = 6\<rparr> two_heights (pipe_init \<lparr>hr_StartHeight = 5, hr_EndHeight = 6\<rparr>) = Some s
     \<and> coll s = Returned None \<and> sent s @ outp s = [block_resp (Block0\<lparr>blk_Height := 5\<rparr>), block_resp (Block0\<lparr>blk_Height := 6\<rparr>)]"
  by (simp add: two_heights_def run_simps)

subsection \<open>Deadlock\<close>

text \<open>The first height fails. While \<open>getRange\<close> waits for the workers, one of them answers the lanes that follow; here it is
  about to be offered lane \<open>n\<close>.\<close>

definition deserted :: "GRPC \<Rightarrow> HeightRange \<Rightarrow> nat \<Rightarrow> pipe \<Rightarrow> bool" where
  "deserted client hr n s \<longleftrightarrow>
     pub s = PubOut (lane_height hr n) \<and> lanes s = n \<and> chIn s = [] \<and> \<not> inClosed s \<and>
     workers s = (\<lambda>_. Receiving)(0 := Exited) \<and> outp s = [] \<and> sent s = lane_responses client hr 0 \<and>
     coll s = Waiting (or_Error (hd (lane_responses client hr 0))) \<and> (\<forall>k \<ge> n. resp_ch s k = [])"

lemma worker_answers:
  assumes "workers s 1 = Sending k" "todo s k = rs" "rs \<noteq> []" "\<not> fails rs" "length (resp_ch s k) + length rs \<le> resp_cap"
  shows "(getRange client hr)\<^sup>*\<^sup>* s (s\<lparr>resp_ch := (resp_ch s)(k := resp_ch s k @ rs), todo := (todo s)(k := []),
    workers := (workers s)(1 := Receiving)\<rparr>)"
  using assms
proof (induction rs arbitrary: s)
  case (Cons r rs)
  let ?t = "s\<lparr>resp_ch := (resp_ch s)(k := resp_ch s k @ [r]), todo := (todo s)(k := rs),
    workers := (workers s)(1 := if rs = [] then Receiving else Sending k)\<rparr>"
  have "act client hr (Produce 1) s = Some ?t" using Cons.prems by (simp add: worker_produce_def num_workers_def fails_def)
  then have step: "getRange client hr s ?t" by (rule getRange_step)
  show ?case
  proof (cases "rs = []")
    case True
    with r_into_rtranclp [where r = "getRange client hr", OF step] show ?thesis by (simp add: fun_upd_def)
  next
    case False
    with Cons.prems have "(getRange client hr)\<^sup>*\<^sup>* ?t (?t\<lparr>resp_ch := (resp_ch ?t)(k := resp_ch ?t k @ rs), todo := (todo ?t)(k := []),
      workers := (workers ?t)(1 := Receiving)\<rparr>)" by (intro Cons.IH) (simp_all add: fails_def)
    from converse_rtranclp_into_rtranclp [where r = "getRange client hr", OF step this] show ?thesis by (simp add: fun_upd_def cong: if_cong)
  qed
qed simp

text \<open>A lane is offered, taken and answered; its entry on \<open>chOut\<close> is sent when there is room, else the publisher receives
  the token of the error instead, and goes on as if it had sent it.\<close>

lemma deserted_step:
  assumes "deserted client hr n s" "n < last_lane hr" "proper_range hr"
    and "\<not> fails (lane_responses client hr n)" "length (lane_responses client hr n) \<le> resp_cap"
    and "act client hr a s = Some t" "t = s\<lparr>chOut := q, errored := e, pub := PubIn (lane_height hr n)\<rparr>"
  obtains u where "(getRange client hr)\<^sup>*\<^sup>* s u" "deserted client hr (Suc n) u" "chOut u = q" "errored u = e"
proof -
  let ?h = "lane_height hr n" and ?rs = "lane_responses client hr n"
  note d = assms(1) [unfolded deserted_def]
  let ?t2 = "t\<lparr>workers := (workers t)(1 := Sending n), todo := (todo t)(n := ?rs), pub := PubNext ?h\<rparr>"
  have "run client hr [Publish, Take 1] t = Some ?t2"
    using d by (simp add: assms(7) populate_send_def worker_take_def hbtx_cap_def num_workers_def lane_responses_def)
  from run_getRange [OF this] have "(getRange client hr)\<^sup>*\<^sup>* t ?t2" .
  moreover let ?t3 = "?t2\<lparr>resp_ch := (resp_ch ?t2)(n := resp_ch ?t2 n @ ?rs), todo := (todo ?t2)(n := []),
    workers := (workers ?t2)(1 := Receiving)\<rparr>"
  have "(getRange client hr)\<^sup>*\<^sup>* ?t2 ?t3" by (rule worker_answers) (use assms(4,5,7) d in simp_all)
  moreover let ?u = "?t3\<lparr>pub := PubOut (?h + 1), lanes := Suc (lanes ?t3)\<rparr>"
  have "\<not> hr_EndHeight hr < ?h + 1" using last_lane_reached [OF assms(3), of n] assms(2) by simp
  then have "act client hr Publish ?t3 = Some ?u" by (simp add: populate_send_def)
  then have "getRange client hr ?t3 ?u" by (rule getRange_step)
  moreover have "getRange client hr s t" using assms(6) by (rule getRange_step)
  ultimately have "(getRange client hr)\<^sup>*\<^sup>* s ?u"
    by (meson converse_rtranclp_into_rtranclp rtranclp.rtrancl_into_rtrancl rtranclp_trans)
  moreover have "deserted client hr (Suc n) ?u" using d by (auto simp: deserted_def assms(7) lane_height_Suc)
  ultimately show thesis using that [of ?u] by (simp add: assms(7))
qed

lemma deserted_lanes:
  assumes "proper_range hr" "hbtx_cap + 1 < last_lane hr"
    and "\<And>k. k \<le> hbtx_cap + 1 \<Longrightarrow> 0 < k \<Longrightarrow> \<not> fails (lane_responses client hr k) \<and> length (lane_responses client hr k) \<le> resp_cap"
    and "deserted client hr 1 s" "chOut s = []" "errored s = 1" "n \<le> hbtx_cap"
  shows "\<exists>t. (getRange client hr)\<^sup>*\<^sup>* s t \<and> deserted client hr (Suc n) t \<and> length (chOut t) = n \<and> errored t = 1"
  using assms(7)
proof (induction n)
  case 0
  with assms(4-6) show ?case by (intro exI [of _ s]) simp
next
  case (Suc n)
  then obtain t where t: "(getRange client hr)\<^sup>*\<^sup>* s t" "deserted client hr (Suc n) t" "length (chOut t) = n" "errored t = 1" by auto
  have "act client hr Publish t = Some (t\<lparr>chOut := chOut t @ [Lane (Suc n) (lane_height hr (Suc n))], errored := 1,
      pub := PubIn (lane_height hr (Suc n))\<rparr>)"
    using t(2-4) Suc.prems by (simp add: populate_send_def deserted_def)
  from deserted_step [OF t(2) _ assms(1) _ _ this refl] assms(2) assms(3) [of "Suc n"] Suc.prems
  obtain u where u: "(getRange client hr)\<^sup>*\<^sup>* t u" "deserted client hr (Suc (Suc n)) u"
    "chOut u = chOut t @ [Lane (Suc n) (lane_height hr (Suc n))]" "errored u = 1" by auto
  with t(1,3) show ?case by (intro exI [of _ u]) (auto intro: rtranclp_trans)
qed

lemma deserted_start:
  assumes "proper_range hr" "0 < last_lane hr" "fails (lane_responses client hr 0)"
  shows "\<exists>s. (getRange client hr)\<^sup>*\<^sup>* (pipe_init hr) s \<and> deserted client hr 1 s \<and> chOut s = [] \<and> errored s = 1"
proof -
  from assms(3) obtain r where r: "is_error r" "r \<in> set (lane_responses client hr 0)" by (auto simp: fails_def list_ex_iff)
  then obtain xs zs where "xs @ r # zs = lane_responses client hr 0" by (metis split_list)
  from error_fills_lane [OF this r(1)] have one: "lane_responses client hr 0 = [r]" by simp
  have h0: "lane_height hr 0 = hr_StartHeight hr" by (simp add: lane_height_def)
  have more: "\<not> hr_EndHeight hr < hr_StartHeight hr + 1" using last_lane_reached [OF assms(1), of 0] assms(2) h0 by simp
  have rs: "height_responses client (hr_StartHeight hr) = [r]" using one h0 by (simp add: lane_responses_def)
  have "\<not> is_partial r" using r(1) by (simp add: is_error_def is_partial_def)
  let ?as = "[Publish, Publish, Take 0, Produce 0, Collect, Collect, Collect, Collect, Deliver, Publish]"
  obtain s where "run client hr ?as (pipe_init hr) = Some s" "deserted client hr 1 s" "chOut s = []" "errored s = 1"
    using more r(1) \<open>\<not> is_partial r\<close>
    by (auto simp: run_simps rs one h0 deserted_def lane_height_Suc fun_eq_iff)
  then show ?thesis using run_getRange by blast
qed

lemma deserted_stuck:
  assumes "deserted client hr n s" "length (chOut s) = hbtx_cap" "errored s = 0"
  shows "\<not> getRange client hr s t"
proof
  assume "getRange client hr s t"
  then obtain a where "act client hr a s = Some t" by (rule getRange_cases)
  moreover have "workers s 1 = Receiving" "1 \<in> set [0..<num_workers]" using assms(1) by (simp_all add: deserted_def num_workers_def)
  then have "\<not> (\<forall>w \<in> set [0..<num_workers]. workers s w = Exited)" by (metis worker.distinct(3))
  ultimately show False using assms
    by (cases a) (auto simp: deserted_def populate_send_def populate_interrupt_def recv_errored_def returned_def worker_take_def
        worker_produce_def collect_def deliver_def num_workers_def split: worker.splits if_splits)
qed

text \<open>Claim C19: an error can leave \<open>getRange\<close> waiting forever. Whenever the first height of a range of at least thirteen
  heights fails, and the eleven after it can be fetched and have at most 1,000 responses each, there is a schedule after
  which no goroutine can go on and \<open>getRange\<close> has not returned: the publisher left one \<open>select\<close> on the error but not
  its loop, and waits, the error consumed, for room on a channel nobody reads any more; so it never closes the channel
  the workers wait on, and \<open>getRange\<close>, which has reported the error, waits for the workers.\<close>

theorem getRange_can_deadlock:
  assumes "proper_range hr" "hbtx_cap + 1 < last_lane hr" "fails (lane_responses client hr 0)"
    and "\<And>k. k \<le> hbtx_cap + 1 \<Longrightarrow> 0 < k \<Longrightarrow> \<not> fails (lane_responses client hr k) \<and> length (lane_responses client hr k) \<le> resp_cap"
  shows "\<exists>s. (getRange client hr)\<^sup>*\<^sup>* (pipe_init hr) s \<and> (\<forall>t. \<not> getRange client hr s t) \<and> \<not> returned s
    \<and> (\<exists>h. pub s = PubOut h) \<and> length (chOut s) = hbtx_cap \<and> errored s = 0 \<and> \<not> inClosed s
    \<and> workers s 1 = Receiving \<and> coll s = Waiting (or_Error (hd (lane_responses client hr 0))) \<and> sent s = lane_responses client hr 0"
proof -
  from deserted_start [OF assms(1) _ assms(3)] assms(2)
  obtain s where s: "(getRange client hr)\<^sup>*\<^sup>* (pipe_init hr) s" "deserted client hr 1 s" "chOut s = []" "errored s = 1" by auto
  from deserted_lanes [OF assms(1,2,4) s(2-4) order.refl]
  obtain t where t: "(getRange client hr)\<^sup>*\<^sup>* s t" "deserted client hr (Suc hbtx_cap) t" "length (chOut t) = hbtx_cap" "errored t = 1"
    by blast
  have "act client hr Interrupt t = Some (t\<lparr>chOut := chOut t, errored := 0, pub := PubIn (lane_height hr (Suc hbtx_cap))\<rparr>)"
    using t(2,4) by (simp add: populate_interrupt_def recv_errored_def deserted_def)
  from deserted_step [OF t(2) _ assms(1) _ _ this refl] assms(2) assms(4) [of "Suc hbtx_cap"]
  obtain u where u: "(getRange client hr)\<^sup>*\<^sup>* t u" "deserted client hr (Suc (Suc hbtx_cap)) u" "chOut u = chOut t" "errored u = 0" by auto
  have "(getRange client hr)\<^sup>*\<^sup>* (pipe_init hr) u" using s(1) t(1) u(1) by (meson rtranclp_trans)
  with deserted_stuck [OF u(2) _ u(4)] u(3) t(3) show ?thesis
    using u(2,4) by (intro exI [of _ u]) (auto simp: deserted_def returned_def)
qed

theorem getRange_can_deadlock_witness:
  "\<exists>s. (getRange (sample_client {1}) \<lparr>hr_StartHeight = 1, hr_EndHeight = 20\<rparr>)\<^sup>*\<^sup>* (pipe_init \<lparr>hr_StartHeight = 1, hr_EndHeight = 20\<rparr>) s
    \<and> \<not> returned s \<and> {t. getRange (sample_client {1}) \<lparr>hr_StartHeight = 1, hr_EndHeight = 20\<rparr> s t} = {}"
proof -
  let ?hr = "\<lparr>hr_StartHeight = 1, hr_EndHeight = 20\<rparr>"
  have h: "lane_height ?hr k \<noteq> 1" if "k \<le> hbtx_cap + 1" "0 < k" for k
  proof -
    have "unat (lane_height ?hr k) = Suc k" using that by (simp add: lane_height_def unat_word_ariths unat_of_nat hbtx_cap_def)
    with that show ?thesis by auto
  qed
  have "proper_range ?hr" "hbtx_cap + 1 < last_lane ?hr" by (simp_all add: proper_range_def last_lane_def hbtx_cap_def)
  moreover have "fails (lane_responses (sample_client {1}) ?hr 0)"
    by (simp add: lane_responses_def lane_height_def sample_responses fails_def)
  moreover have "\<not> fails (lane_responses (sample_client {1}) ?hr k) \<and> length (lane_responses (sample_client {1}) ?hr k) \<le> resp_cap"
    if "k \<le> hbtx_cap + 1" "0 < k" for k
    using h [OF that] by (simp add: lane_responses_def sample_responses fails_def resp_cap_def)
  ultimately show ?thesis using getRange_can_deadlock [of ?hr "sample_client {1}"] by auto
qed

subsection \<open>The publisher after the return\<close>

text \<open>All five workers fail while the publisher goes on.\<close>

definition outlived_schedule :: "action list" where
  "outlived_schedule =
     [Publish, Publish, Publish, Publish, Publish, Publish, Publish, Publish, Publish, Publish, Publish, Publish, Publish, Publish, Publish]
     @ [Take 0, Take 1, Take 2, Take 3, Take 4]
     @ [Produce 0, Produce 1, Produce 2, Produce 3, Produce 4] 
     @ [Collect, Collect, Collect, Collect, Collect, Collect, Collect, Collect, Collect, Collect]"

lemma outlived_run:
  "\<exists>s. run (sample_client UNIV) \<lparr>hr_StartHeight = 1, hr_EndHeight = 20\<rparr> outlived_schedule (pipe_init \<lparr>hr_StartHeight = 1, hr_EndHeight = 20\<rparr>) = Some s
     \<and> returned s \<and> pub s = PubOut 6 \<and> chOut s = []"
  by (simp add: outlived_schedule_def run_simps error_resp_Error returned_def)

text \<open>When every worker stopped on an error, \<open>getRange\<close> returns, and puts \<open>chOut\<close> back into the pool, while \<open>populateRange\<close>
  still runs: it can put a height of the old range on the channel that the next range is using.\<close>

lemma publisher_outlives_range:
  "\<exists>client hr s t. proper_range hr \<and> (getRange client hr)\<^sup>*\<^sup>* (pipe_init hr) s \<and> returned s \<and> chOut s = []
     \<and> act client hr Publish s = Some t \<and> chOut t \<noteq> []"
proof -
  let ?hr = "\<lparr>hr_StartHeight = 1, hr_EndHeight = 20\<rparr>"
  from outlived_run obtain s where s: "run (sample_client UNIV) ?hr outlived_schedule (pipe_init ?hr) = Some s"
    "returned s" "pub s = PubOut 6" "chOut s = []" by blast
  then have "\<exists>t. act (sample_client UNIV) ?hr Publish s = Some t \<and> chOut t \<noteq> []"
    by (simp add: populate_send_def hbtx_cap_def)
  moreover have "proper_range ?hr" by (simp add: proper_range_def)
  ultimately show ?thesis using run_getRange [OF s(1)] s(2,4) by blast
qed

theorem getRange_in_order_witness:
  "\<exists>s. (getRange (sample_client {}) \<lparr>hr_StartHeight = 5, hr_EndHeight = 6\<rparr>)\<^sup>*\<^sup>* (pipe_init \<lparr>hr_StartHeight = 5, hr_EndHeight = 6\<rparr>) s
     \<and> prefix [block_resp (Block0\<lparr>blk_Height := 5\<rparr>), block_resp (Block0\<lparr>blk_Height := 6\<rparr>)]
         (in_order (sample_client {}) \<lparr>hr_StartHeight = 5, hr_EndHeight = 6\<rparr> (Suc (last_lane \<lparr>hr_StartHeight = 5, hr_EndHeight = 6\<rparr>)))"
proof -
  from two_heights_run obtain s where s: "run (sample_client {}) \<lparr>hr_StartHeight = 5, hr_EndHeight = 6\<rparr> two_heights (pipe_init \<lparr>hr_StartHeight = 5, hr_EndHeight = 6\<rparr>) = Some s"
    "sent s @ outp s = [block_resp (Block0\<lparr>blk_Height := 5\<rparr>), block_resp (Block0\<lparr>blk_Height := 6\<rparr>)]" by blast
  from getRange_in_order [OF _ run_getRange [OF s(1)]] run_getRange [OF s(1)] s(2) show ?thesis
    by (auto simp: proper_range_def)
qed

subsection \<open>Progress without errors\<close>

text \<open>A goroutine other than the sender can go on.\<close>

definition moves :: "GRPC \<Rightarrow> HeightRange \<Rightarrow> pipe \<Rightarrow> bool" where
  "moves client hr s \<longleftrightarrow> (\<exists>a t. a \<noteq> Deliver \<and> act client hr a s = Some t)"

lemma moves_step: "moves client hr s \<Longrightarrow> \<exists>t. getRange client hr s t"
  by (auto simp: moves_def intro: getRange_step)

lemma movesI: "act client hr a s \<noteq> None \<Longrightarrow> a \<noteq> Deliver \<Longrightarrow> moves client hr s"
  by (auto simp: moves_def)

lemma worker_can_take:
  assumes "w < num_workers" "workers s w = Receiving" "chIn s \<noteq> []"
  shows "moves client hr s"
  using assms by (intro movesI [of _ _ "Take w"]) (cases "chIn s"; auto simp: worker_take_def)+

lemma worker_can_produce:
  assumes "w < num_workers" "workers s w = Sending k" "todo s k \<noteq> []" "resp_ch s k = []"
  shows "moves client hr s"
  using assms by (intro movesI [of _ _ "Produce w"]) (cases "todo s k"; auto simp: worker_produce_def resp_cap_def)+

lemma can_deliver: "outp s \<noteq> [] \<Longrightarrow> \<exists>t. getRange client hr s t"
  using getRange_step [of client hr Deliver s] by (cases "outp s") (auto simp: deliver_def)

lemma can_publish: "populate_send hr s \<noteq> None \<Longrightarrow> moves client hr s"
  by (rule movesI [of _ _ Publish]) auto

lemma can_collect: "collect s \<noteq> None \<Longrightarrow> moves client hr s"
  by (rule movesI [of _ _ Collect]) auto

text \<open>Lanes are taken in order, so a worker that is busy works on a lane that is not forwarded yet.\<close>

lemma queue_moves:
  assumes live: "live client hr c f t rd s" and "t \<le> c" and "chIn s \<noteq> []"
    and pub: "pub_ok hr s" and ok: "\<And>k. k \<le> last_lane hr \<Longrightarrow> \<not> fails (lane_responses client hr k)"
  shows "moves client hr s"
proof -
  from live pub have "t \<le> Suc (last_lane hr)"
    by (auto simp: live_def queues_ok_def pub_ok_def offered_def split: publisher.splits)
  then have none: "\<not> (\<exists>k < t. fails (lane_responses client hr k))" using ok by (metis less_Suc_eq_le order.strict_trans2)
  from live have b: "busy_sound t (workers s) (todo s)" and l: "\<forall>k < c. todo s k = []"
    by (simp_all add: live_def workers_ok_def lanes_ok_def)
  from live none have e: "\<forall>w < num_workers. workers s w = Exited \<longrightarrow> chIn s = []"
    unfolding live_def workers_ok_def by blast
  have zero: "0 < num_workers" by (simp add: num_workers_def)
  have "workers s 0 \<noteq> Sending k" for k
    using b l zero \<open>t \<le> c\<close> unfolding busy_sound_def by (metis order.strict_trans2)
  moreover have "workers s 0 \<noteq> Exited" using e zero assms(3) by blast
  ultimately show ?thesis using worker_can_take [OF zero _ assms(3)] by (cases "workers s 0") auto
qed

lemma collecting_moves:
  assumes live: "live client hr c c t [] s" and coll: "coll s = Collecting"
    and pub: "pub_ok hr s" and ok: "\<And>k. k \<le> last_lane hr \<Longrightarrow> \<not> fails (lane_responses client hr k)"
  shows "moves client hr s"
proof (cases "chOut s")
  case Nil
  from live Nil have q: "queues_ok hr c t s" "pushed s \<le> c" "pub s \<noteq> PubClose" "pub s \<noteq> PubDone"
    by (auto simp: live_def queues_ok_def split: if_splits)
  then have "t \<le> c" by (auto simp: queues_ok_def pushed_def offered_def split: publisher.splits)
  show ?thesis
  proof (cases "chIn s = []")
    case True
    with Nil q(3,4) have "populate_send hr s \<noteq> None"
      by (auto simp: populate_send_def hbtx_cap_def split: publisher.splits)
    then show ?thesis by (rule can_publish)
  next
    case False
    with live \<open>t \<le> c\<close> ok pub show ?thesis by (blast intro: queue_moves)
  qed
next
  case (Cons x xs)
  with coll show ?thesis by (intro can_collect) (cases x; auto simp: collect_def)
qed

text \<open>A lane that is waited for is being filled, or the work on it can begin.\<close>

lemma taken_lane_moves:
  assumes live: "live client hr k (Suc k) t rd s" and "k < t" and "resp_ch s k = []"
  shows "moves client hr s"
proof -
  from live have lane: "lane_ok client hr t k rd (resp_ch s k) (todo s k)" "\<forall>x \<in> set rd. \<not> is_partial x \<and> \<not> is_error x"
    by (auto simp: live_def lanes_ok_def)
  have "todo s k \<noteq> []"
  proof
    assume "todo s k = []"
    with lane assms(2,3) have "rd = lane_responses client hr k" by (simp add: lane_ok_def)
    with lane(2) show False
      unfolding lane_responses_def by (auto intro: height_responses_shape [of client "lane_height hr k"])
  qed
  with live assms(2) obtain w where "w < num_workers" "workers s w = Sending k"
    by (auto simp: live_def workers_ok_def busy_complete_def)
  with \<open>todo s k \<noteq> []\<close> assms(3) show ?thesis by (intro worker_can_produce)
qed

lemma untaken_lane_moves:
  assumes live: "live client hr k (Suc k) t rd s" and "t \<le> k" and "k < pushed s"
    and pub: "pub_ok hr s" and ok: "\<And>k. k \<le> last_lane hr \<Longrightarrow> \<not> fails (lane_responses client hr k)"
  shows "moves client hr s"
proof (cases "chIn s = []")
  case True
  with live \<open>t \<le> k\<close> \<open>k < pushed s\<close> have "\<exists>h. pub s = PubIn h"
    by (auto simp: live_def queues_ok_def pushed_def offered_def split: publisher.splits)
  with True have "populate_send hr s \<noteq> None" by (auto simp: populate_send_def hbtx_cap_def)
  then show ?thesis by (rule can_publish)
next
  case False
  with live \<open>t \<le> k\<close> ok pub show ?thesis by (blast intro: queue_moves)
qed

text \<open>The only thing that \<open>getRange\<close> can have to wait for is room in \<open>out\<close>.\<close>

definition awaits_sender :: "pipe \<Rightarrow> bool" where
  "awaits_sender s \<longleftrightarrow> (\<exists>k r. coll s = Forwarding k r \<and> out_cap \<le> length (outp s))"

lemma reading_moves:
  assumes live: "live client hr k (Suc k) t rd s" and coll: "coll s = Reading k" and "k < pushed s"
    and pub: "pub_ok hr s" and ok: "\<And>k. k \<le> last_lane hr \<Longrightarrow> \<not> fails (lane_responses client hr k)"
  shows "moves client hr s"
proof (cases "resp_ch s k")
  case (Cons r rs)
  with coll have "collect s \<noteq> None" by (simp add: collect_def)
  then show ?thesis by (rule can_collect)
next
  case Nil
  with live assms(3) pub ok show ?thesis
    using taken_lane_moves untaken_lane_moves by (cases "k < t") (blast, meson not_le_imp_less)
qed

lemma moves_or_awaits:
  assumes "proper_range hr" and "(getRange client hr)\<^sup>*\<^sup>* (pipe_init hr) s" and "\<not> returned s"
    and "\<And>k. k \<le> last_lane hr \<Longrightarrow> \<not> fails (lane_responses client hr k)"
  shows "moves client hr s \<or> awaits_sender s"
proof -
  have never: "\<not> failed_at client hr c r" for c r
    using assms(4) [of c] by (auto simp: failed_at_def fails_def)
  note inv = reachable_pipe_inv [OF assms(1,2)]
  then have "pub_ok hr s" by (simp add: pipe_inv_def)
  from inv consider c t where "coll s = Collecting" "live client hr c c t [] s"
    | k t rd where "coll s = Reading k" "k < pushed s" "live client hr k (Suc k) t rd s"
    | k r where "coll s = Forwarding k r"
    using assms(3) never by (auto simp: pipe_inv_def outcome_def returned_def split: collector.splits option.splits)
  then show ?thesis
  proof cases
    case 3
    then have "collect s \<noteq> None \<or> awaits_sender s" by (auto simp: collect_def awaits_sender_def)
    then show ?thesis using can_collect by blast
  qed (use assms(4) \<open>pub_ok hr s\<close> in \<open>blast dest: collecting_moves reading_moves\<close>)+
qed

lemma not_stuck:
  assumes "proper_range hr" and "(getRange client hr)\<^sup>*\<^sup>* (pipe_init hr) s" and "\<not> returned s"
    and "\<And>k. k \<le> last_lane hr \<Longrightarrow> \<not> fails (lane_responses client hr k)"
  shows "\<exists>t. getRange client hr s t"
proof -
  have "outp s \<noteq> []" if "awaits_sender s" using that by (auto simp: awaits_sender_def out_cap_def)
  with moves_or_awaits [OF assms] moves_step can_deliver show ?thesis by blast
qed

text \<open>As long as no height of the range fails, \<open>getRange\<close> cannot get stuck: in every state it reaches and has not
  returned from, some goroutine can make its next step, whatever the length of the range and of the blocks.\<close>

lemma getRange_never_stuck:
  assumes "proper_range hr" and "(getRange client hr)\<^sup>*\<^sup>* (pipe_init hr) s" and "\<not> returned s"
    and "\<And>k. k \<le> last_lane hr \<Longrightarrow> \<not> fails (lane_responses client hr k)"
  shows "\<exists>t. getRange client hr s t"
  by (rule not_stuck [OF assms])

lemma getRange_never_stuck_witness:
  "\<exists>t. getRange (sample_client {}) \<lparr>hr_StartHeight = 5, hr_EndHeight = 6\<rparr> (pipe_init \<lparr>hr_StartHeight = 5, hr_EndHeight = 6\<rparr>) t"
  by (rule getRange_never_stuck)
    (auto simp: proper_range_def returned_def pipe_init_def lane_responses_def sample_responses fails_def)

end
