(* ===== verification/Indexer.thy ===== *)
theory Indexer
  imports Stream Pools Pipeline_Progress
begin

text \<open>
  The handlers of \<^verbatim>\<open>src/client/client.go\<close>: what the worker answers to a request of the manager. A handler's result
  is the list of responses handed to the stream, in order; \<open>Ret None\<close> is a handler that does not return. Decoding
  and encoding of JSON is the parameter \<open>codec\<close>; \<open>getRange\<close> is passed as a function that gives what it forwards and
  its error, or \<open>None\<close> when it does not return; that every run of the machine of \<open>Pipeline\<close> is such a function, the
  sequential \<open>fetch_range\<close>, is shown here. Where goroutines of a handler race, the schedule is an argument: \<open>sc_stop\<close>
  says when the sender sees the context done, \<open>sc_at\<close> how many responses it had sent when the handler sends its error.
\<close>

record codec =
  js_HeightRange :: "bytes \<Rightarrow> ext_error + HeightRange"
  js_HeightHash :: "bytes \<Rightarrow> ext_error + HeightHash"
  js_HeightAccount :: "bytes \<Rightarrow> ext_error + HeightAccount"
  js_LatestDataRequest :: "bytes \<Rightarrow> uint64 \<times> ext_error option"
  js_encode :: encoder

record schedule =
  sc_stop :: stop
  sc_at :: nat

type_synonym range_fetch = "HeightRange \<Rightarrow> (OutResp list \<times> go_error option) option"

subsection \<open>Handlers\<close>

definition error_response :: "uuid \<Rightarrow> string \<Rightarrow> TaskResponse" where
  "error_response rid msg =
     \<lparr>tr_Id = rid, tr_Type = [], tr_Order = 0, tr_Payload = [], tr_Error = msg, tr_Final = True\<rparr>"

text \<open>From \<open>out := make(...)\<close> to the end, in \<open>GetTransactions\<close> and in \<open>GetLatest\<close>.\<close>

definition range_responses :: "codec \<Rightarrow> range_fetch \<Rightarrow> schedule \<Rightarrow> TaskRequest \<Rightarrow> HeightRange \<Rightarrow> TaskResponse list blocking" where
  "range_responses cd fetch sc tr hr =
     (case fetch hr of
        None \<Rightarrow> Ret None
      | Some (ts, err) \<Rightarrow>
          (case sendResp (js_encode cd) (rq_Id tr) (send_events ts (sc_stop sc)) True of
             None \<Rightarrow> Ret None
           | Some (rs, _) \<Rightarrow>
               (case err of
                  None \<Rightarrow> Ret (Some rs)
                | Some e \<Rightarrow> Ret (Some (take (sc_at sc) rs @ [error_response (rq_Id tr) (Error e)] @ drop (sc_at sc) rs)))))"

definition GetTransactions :: "codec \<Rightarrow> range_fetch \<Rightarrow> schedule \<Rightarrow> TaskRequest \<Rightarrow> TaskResponse list blocking" where
  "GetTransactions cd fetch sc tr =
     (case js_HeightRange cd (rq_Payload tr) of
        Inl e \<Rightarrow> Ret (Some [error_response (rq_Id tr) (''cannot unmarshal payload: '' @ e)])
      | Inr hr \<Rightarrow>
          if hr_EndHeight hr = 0 then Panic NilDereference
          else range_responses cd fetch sc tr hr)"

definition GetLatest ::
  "codec \<Rightarrow> GRPC \<Rightarrow> uint64 \<Rightarrow> range_fetch \<Rightarrow> schedule \<Rightarrow> TaskRequest \<Rightarrow> TaskResponse list blocking" where
  "GetLatest cd client maximumHeightsToGet fetch sc tr =
     (let (lastHeight, err) = js_LatestDataRequest cd (rq_Payload tr);
          complaint = (case err of Some _ \<Rightarrow> [error_response (rq_Id tr) ''Cannot unmarshal payload''] | None \<Rightarrow> [])
      in case g_GetBlock client (HeightHash_Height 0) of
           (block, Some e) \<Rightarrow>
             Ret (Some (complaint @ [error_response (rq_Id tr) (''Error getting block data '' @ Error e)]))
         | (block, None) \<Rightarrow>
             bind_blocking (range_responses cd fetch sc tr (getLastHeightRange lastHeight maximumHeightsToGet (blk_Height block)))
               (\<lambda>rs. Ret (Some (complaint @ rs))))"

text \<open>The four handlers that decode a request, make one call and send its result.\<close>

definition answer_query ::
  "encoder \<Rightarrow> (bytes \<Rightarrow> ext_error + 'q) \<Rightarrow> ('q \<Rightarrow> 'a \<times> go_error option) \<Rightarrow> string \<Rightarrow> string \<Rightarrow> ('a \<Rightarrow> payload)
     \<Rightarrow> stop \<Rightarrow> TaskRequest \<Rightarrow> TaskResponse list option" where
  "answer_query enc decode call complaint kind wrap stop tr =
     (case decode (rq_Payload tr) of
        Inl _ \<Rightarrow> Some [error_response (rq_Id tr) ''Cannot unmarshal payload'']
      | Inr q \<Rightarrow>
          (case call q of
             (a, Some e) \<Rightarrow> Some [error_response (rq_Id tr) (complaint @ Error e)]
           | (a, None) \<Rightarrow>
               map_option fst (sendResp enc (rq_Id tr)
                 (send_events [\<lparr>or_ID = rq_Id tr, or_Type = kind, or_Payload = wrap a, or_Error = None\<rparr>] stop) False)))"

definition IC_GetBlock :: "codec \<Rightarrow> GRPC \<Rightarrow> stop \<Rightarrow> TaskRequest \<Rightarrow> TaskResponse list option" where
  "IC_GetBlock cd client =
     answer_query (js_encode cd) (js_HeightHash cd) (g_GetBlock client) ''Error getting block data '' ''Block'' PBlock"

definition IC_GetAccountBalance :: "codec \<Rightarrow> GRPC \<Rightarrow> stop \<Rightarrow> TaskRequest \<Rightarrow> TaskResponse list option" where
  "IC_GetAccountBalance cd client =
     answer_query (js_encode cd) (js_HeightAccount cd) (g_GetAccountBalance client)
       ''Error getting account balance data '' ''AccountBalance'' PBalance"

definition IC_GetAccountDelegations :: "codec \<Rightarrow> GRPC \<Rightarrow> stop \<Rightarrow> TaskRequest \<Rightarrow> TaskResponse list option" where
  "IC_GetAccountDelegations cd client =
     answer_query (js_encode cd) (js_HeightAccount cd) (g_GetAccountDelegations client)
       ''Error getting account balance data '' ''AccountDelegations'' PDelegations"

definition IC_GetReward :: "codec \<Rightarrow> GRPC \<Rightarrow> stop \<Rightarrow> TaskRequest \<Rightarrow> TaskResponse list option" where
  "IC_GetReward cd client =
     answer_query (js_encode cd) (js_HeightAccount cd) (g_GetReward client) ''Error getting reward data '' ''Reward'' PReward"

subsection \<open>Streams\<close>

text \<open>The names of the request types are constants of the manager's package.\<close>

record request_ids =
  ReqIDGetTransactions :: string
  ReqIDLatestData :: string
  ReqIDGetReward :: string
  ReqIDAccountBalance :: string
  ReqIDAccountDelegations :: string

record IndexerClient =
  ic_grpc :: GRPC
  ic_streams :: "uuid set"
  ic_maximumHeightsToGet :: uint64

definition NewIndexerClient :: "GRPC \<Rightarrow> uint64 \<Rightarrow> IndexerClient" where
  "NewIndexerClient grpc maximumHeightsToGet =
     \<lparr>ic_grpc = grpc, ic_streams = {}, ic_maximumHeightsToGet = maximumHeightsToGet\<rparr>"

definition CloseStream :: "uuid \<Rightarrow> IndexerClient \<Rightarrow> IndexerClient" where
  "CloseStream streamID ic = ic\<lparr>ic_streams := ic_streams ic - {streamID}\<rparr>"

text \<open>The second result is the streams of the \<open>Run\<close> goroutines that are started.\<close>

definition RegisterStream :: "uuid \<Rightarrow> IndexerClient \<Rightarrow> IndexerClient \<times> uuid list" where
  "RegisterStream streamID ic = (ic\<lparr>ic_streams := insert streamID (ic_streams ic)\<rparr>, replicate 20 streamID)"

definition dispatch ::
  "codec \<Rightarrow> request_ids \<Rightarrow> range_fetch \<Rightarrow> IndexerClient \<Rightarrow> schedule \<Rightarrow> TaskRequest \<Rightarrow> TaskResponse list blocking" where
  "dispatch cd ids fetch ic sc tr =
     (if rq_Type tr = ReqIDGetTransactions ids then GetTransactions cd fetch sc tr
      else if rq_Type tr = ReqIDLatestData ids then GetLatest cd (ic_grpc ic) (ic_maximumHeightsToGet ic) fetch sc tr
      else if rq_Type tr = ReqIDGetReward ids then Ret (IC_GetReward cd (ic_grpc ic) (sc_stop sc) tr)
      else if rq_Type tr = ReqIDAccountBalance ids then Ret (IC_GetAccountBalance cd (ic_grpc ic) (sc_stop sc) tr)
      else if rq_Type tr = ReqIDAccountDelegations ids then Ret (IC_GetAccountDelegations cd (ic_grpc ic) (sc_stop sc) tr)
      else Ret (Some [error_response (rq_Id tr) (''There is no such handler '' @ rq_Type tr)]))"

datatype stream_event = StreamDone | StreamFinish | StreamRequest schedule TaskRequest

text \<open>One \<open>Run\<close> goroutine: the events its \<open>select\<close> sees, and for each request the responses to it.\<close>

fun Run ::
  "codec \<Rightarrow> request_ids \<Rightarrow> range_fetch \<Rightarrow> uuid \<Rightarrow> stream_event list \<Rightarrow> IndexerClient
     \<Rightarrow> (TaskResponse list list \<times> IndexerClient) blocking" where
  "Run cd ids fetch streamID [] ic = Ret (Some ([], ic))"
| "Run cd ids fetch streamID (StreamDone # es) ic = Ret (Some ([], CloseStream streamID ic))"
| "Run cd ids fetch streamID (StreamFinish # es) ic = Ret (Some ([], ic))"
| "Run cd ids fetch streamID (StreamRequest sc tr # es) ic =
     bind_blocking (dispatch cd ids fetch ic sc tr) (\<lambda>rs.
       bind_blocking (Run cd ids fetch streamID es ic) (\<lambda>(rss, ic'). Ret (Some (rs # rss, ic'))))"

subsection \<open>A query is answered once\<close>

text \<open>How a handler answers: with one final error, or with one response of its kind and the final \<open>END\<close>.\<close>

definition answers :: "string \<Rightarrow> uuid \<Rightarrow> TaskResponse list \<Rightarrow> bool" where
  "answers kind rid rs \<longleftrightarrow>
     (\<exists>msg. rs = [error_response rid msg]) \<or>
     (\<exists>r. rs = [r, end_response rid 1] \<and> tr_Id r = rid \<and> tr_Type r = kind \<and> tr_Order r = 0 \<and> \<not> tr_Final r) \<or>
     rs = [end_response rid 0]"

definition settled_once :: "TaskRequest \<Rightarrow> TaskResponse list option \<Rightarrow> bool" where
  "settled_once tr r =
     (case r of
        None \<Rightarrow> False
      | Some rs \<Rightarrow> rs \<noteq> [] \<and> tr_Final (last rs) \<and> \<not> list_ex tr_Final (butlast rs) \<and> list_all (\<lambda>r. tr_Id r = rq_Id tr) rs)"

locale query_handler =
  fixes handle :: "stop \<Rightarrow> TaskRequest \<Rightarrow> TaskResponse list option" and kind :: string
  assumes returns_answer: "\<exists>rs. handle stop tr = Some rs \<and> answers kind (rq_Id tr) rs"
    and complete_answer: "handle Complete tr = Some rs \<Longrightarrow> rs \<noteq> [end_response (rq_Id tr) 0]"
begin

lemma one_final: "settled_once tr (handle stop tr)"
  using returns_answer [of stop tr] by (auto simp: settled_once_def answers_def error_response_def end_response_def)

lemma error_or_result:
  "handle Complete tr = Some rs \<Longrightarrow>
     (\<exists>msg. rs = [error_response (rq_Id tr) msg]) \<or> (\<exists>r. rs = [r, end_response (rq_Id tr) 1] \<and> tr_Type r = kind \<and> \<not> tr_Final r)"
  using returns_answer [of Complete tr] complete_answer [of tr rs] by (auto simp: answers_def)

end

lemma send_one:
  "map_option fst (sendResp enc rid (send_events [t] stop) fin) =
     Some (if stop = CancelledAfter 0 then [end_response rid 0] else [task_response enc rid t 0, end_response rid 1])"
proof -
  have "stopped_at [t] stop = (if stop = CancelledAfter 0 then [] else [t])"
    by (auto simp: stopped_at_def take_Cons' split: stop.splits)
  then show ?thesis unfolding sendResp_events by simp
qed

lemma query_handlerI: "query_handler (answer_query enc decode call complaint kind wrap) kind"
proof
  fix stop tr
  show "\<exists>rs. answer_query enc decode call complaint kind wrap stop tr = Some rs \<and> answers kind (rq_Id tr) rs"
    unfolding answer_query_def send_one
    by (auto simp: answers_def task_response_def split: sum.split prod.split option.split)
next
  fix tr rs
  assume "answer_query enc decode call complaint kind wrap Complete tr = Some rs"
  then show "rs \<noteq> [end_response (rq_Id tr) 0]"
    unfolding answer_query_def send_one
    by (auto simp: error_response_def end_response_def split: sum.splits prod.splits option.splits)
qed

interpretation block_query: query_handler "IC_GetBlock cd client" "''Block''"
  unfolding IC_GetBlock_def by (rule query_handlerI)

interpretation balance_query: query_handler "IC_GetAccountBalance cd client" "''AccountBalance''"
  unfolding IC_GetAccountBalance_def by (rule query_handlerI)

interpretation delegations_query: query_handler "IC_GetAccountDelegations cd client" "''AccountDelegations''"
  unfolding IC_GetAccountDelegations_def by (rule query_handlerI)

interpretation reward_query: query_handler "IC_GetReward cd client" "''Reward''"
  unfolding IC_GetReward_def by (rule query_handlerI)

text \<open>Claim C15: each of the four query handlers always returns, and the manager gets exactly one final response, which
  is the last one; every response carries the id of the request.\<close>

theorem queries_answered_once:
  "settled_once tr (IC_GetBlock cd client stop tr) \<and> settled_once tr (IC_GetAccountBalance cd client stop tr)
   \<and> settled_once tr (IC_GetAccountDelegations cd client stop tr) \<and> settled_once tr (IC_GetReward cd client stop tr)"
  by (intro conjI block_query.one_final balance_query.one_final delegations_query.one_final reward_query.one_final)

subsection \<open>Ranges\<close>

text \<open>The specification of \<open>getRange\<close>: heights one after the other, up to the first that fails.\<close>

primrec fetch_range :: "GRPC \<Rightarrow> uint64 \<Rightarrow> nat \<Rightarrow> OutResp list \<times> go_error option" where
  "fetch_range client h 0 = ([], None)"
| "fetch_range client h (Suc n) =
     (case blockAndTx client h of
        (b, txs, Some e) \<Rightarrow> ([error_resp b e], Some e)
      | (b, txs, None) \<Rightarrow>
          let (rs, err) = fetch_range client (h + 1) n in (block_resp b # map transaction_resp txs @ rs, err))"

lemma content_ok:
  "blockAndTx client h = (b, txs, None) \<Longrightarrow>
     content (height_responses client h) = block_resp b # map transaction_resp txs \<and> \<not> fails (height_responses client h)"
  by (auto simp: height_responses_def content_def fails_def list_ex_iff filter_id_conv)

lemma content_failed:
  "blockAndTx client h = (b, txs, Some e) \<Longrightarrow> height_responses client h = [error_resp b e] \<and> fails (height_responses client h)"
  by (auto simp: height_responses_def fails_def)

lemma in_order_from:
  "concat (map (\<lambda>k. content (height_responses client (h + word_of_nat k))) [0..<Suc n]) =
     content (height_responses client h) @ concat (map (\<lambda>k. content (height_responses client (h + 1 + word_of_nat k))) [0..<n])"
proof -
  have "[0..<Suc n] = 0 # map Suc [0..<n]" by (simp add: map_Suc_upt upt_conv_Cons del: upt_Suc)
  then show ?thesis by (simp add: comp_def add.assoc del: upt_Suc)
qed

lemma fetch_range_ok:
  "(\<And>k. k < n \<Longrightarrow> \<not> fails (height_responses client (h + word_of_nat k))) \<Longrightarrow>
     fetch_range client h n = (concat (map (\<lambda>k. content (height_responses client (h + word_of_nat k))) [0..<n]), None)"
proof (induction n arbitrary: h)
  case 0
  then show ?case by simp
next
  case (Suc n)
  have "\<not> fails (height_responses client h)" using Suc.prems [of 0] by simp
  then obtain b txs where b: "blockAndTx client h = (b, txs, None)"
    using content_failed [of client h] by (metis not_None_eq prod_cases3)
  have "\<not> fails (height_responses client (h + 1 + word_of_nat k))" if "k < n" for k
    using Suc.prems [of "Suc k"] that by (simp add: add.assoc)
  from Suc.IH [OF this] b content_ok [OF b] show ?case unfolding in_order_from by simp
qed

lemma fetch_range_failed:
  assumes "\<And>k. k < c \<Longrightarrow> \<not> fails (height_responses client (h + word_of_nat k))"
    and "height_responses client (h + word_of_nat c) = [r]" and "is_error r"
  shows "fetch_range client h (Suc (c + m)) =
    (concat (map (\<lambda>k. content (height_responses client (h + word_of_nat k))) [0..<c]) @ [r], or_Error r)"
  using assms
proof (induction c arbitrary: h)
  case 0
  then show ?case
    by (auto simp: height_responses_def error_resp_def split: prod.splits option.splits list.splits)
next
  case (Suc c)
  have "\<not> fails (height_responses client h)" using Suc.prems(1) [of 0] by simp
  then obtain b txs where b: "blockAndTx client h = (b, txs, None)"
    using content_failed [of client h] by (metis not_None_eq prod_cases3)
  have "\<not> fails (height_responses client (h + 1 + word_of_nat k))" if "k < c" for k
    using Suc.prems(1) [of "Suc k"] that by (simp add: add.assoc)
  moreover have "height_responses client (h + 1 + word_of_nat c) = [r]" using Suc.prems(2) by (simp add: add.assoc)
  ultimately have "fetch_range client (h + 1) (Suc (c + m)) =
    (concat (map (\<lambda>k. content (height_responses client (h + 1 + word_of_nat k))) [0..<c]) @ [r], or_Error r)"
    using Suc.IH Suc.prems(3) by blast
  with b content_ok [OF b] show ?case unfolding in_order_from by (simp del: fetch_range.simps add: fetch_range.simps(2) [of client h])
qed

lemma returned_outcome:
  assumes "proper_range hr" and "(getRange client hr)\<^sup>*\<^sup>* (pipe_init hr) s" and "coll s = Returned err"
  shows "outcome client hr (Returned err) (sent s @ outp s)"
  using reachable_pipe_inv [OF assms(1,2)] assms(3) by (simp add: pipe_inv_def)

lemma outcome_fetch_range:
  assumes "outcome client hr (Returned err) ts"
  shows "fetch_range client (hr_StartHeight hr) (Suc (last_lane hr)) = (ts, err)"
proof (cases err)
  case None
  with assms have "\<And>k. k < Suc (last_lane hr) \<Longrightarrow> \<not> fails (height_responses client (hr_StartHeight hr + word_of_nat k))"
    and ts: "ts = in_order client hr (Suc (last_lane hr))"
    by (auto simp: outcome_def lane_responses_def lane_height_def)
  from fetch_range_ok [OF this(1)] show ?thesis unfolding ts None in_order_def lane_responses_def lane_height_def .
next
  case (Some e)
  with assms obtain c r where r: "failed_at client hr c r" "or_Error r = Some e" "ts = in_order client hr c @ [r]"
    by (auto simp: outcome_def)
  from r(1) obtain m where m: "last_lane hr = c + m" by (auto simp: failed_at_def dest: le_Suc_ex)
  from r(1) have "fetch_range client (hr_StartHeight hr) (Suc (c + m)) = (in_order client hr c @ [r], or_Error r)"
    unfolding in_order_def lane_responses_def lane_height_def
    by (intro fetch_range_failed) (auto simp: failed_at_def lane_responses_def lane_height_def)
  with r m Some show ?thesis by simp
qed

text \<open>Claim C3: five concurrent workers, bounded channels and any order of their steps change nothing: whatever
  \<open>getRange\<close> has forwarded when it returns, and the error it returns, are those of the sequential program that fetches
  one height after the other and stops at the first that fails.\<close>

theorem getRange_refines_sequential:
  assumes "proper_range hr" and "(getRange client hr)\<^sup>*\<^sup>* (pipe_init hr) s" and "coll s = Returned err"
  shows "fetch_range client (hr_StartHeight hr) (Suc (last_lane hr)) = (sent s @ outp s, err)"
  by (rule outcome_fetch_range [OF returned_outcome [OF assms]])

theorem getRange_refines_sequential_witness:
  "\<exists>s. (getRange (sample_client {}) \<lparr>hr_StartHeight = 5, hr_EndHeight = 6\<rparr>)\<^sup>*\<^sup>* (pipe_init \<lparr>hr_StartHeight = 5, hr_EndHeight = 6\<rparr>) s
     \<and> fetch_range (sample_client {}) 5 (Suc (Suc 0)) = (sent s @ outp s, None)"
proof -
  from two_heights_run obtain s where s: "run (sample_client {}) \<lparr>hr_StartHeight = 5, hr_EndHeight = 6\<rparr> two_heights (pipe_init \<lparr>hr_StartHeight = 5, hr_EndHeight = 6\<rparr>) = Some s"
    "coll s = Returned None" by blast
  from getRange_refines_sequential [OF _ run_getRange [OF s(1)] s(2)] run_getRange [OF s(1)] show ?thesis
    by (auto simp: proper_range_def last_lane_def simp del: fetch_range.simps)
qed

subsection \<open>What the manager receives for a range\<close>

lemma range_responses_sent:
  assumes "fetch hr = Some (ts, err)"
  shows "\<exists>rs. rs = numbered (js_encode cd) (rq_Id tr) 0 (stopped_at ts (sc_stop sc)) @ [end_response (rq_Id tr) (word_of_nat (length (stopped_at ts (sc_stop sc))))]
    \<and> range_responses cd fetch sc tr hr =
        Ret (Some (case err of None \<Rightarrow> rs
                   | Some e \<Rightarrow> take (sc_at sc) rs @ [error_response (rq_Id tr) (Error e)] @ drop (sc_at sc) rs))"
  using assms by (simp add: range_responses_def sendResp_events split: option.split)

lemma numbered_not_final: "filter tr_Final (numbered enc rid n ts) = []"
  by (auto simp: filter_empty_conv dest: numbered_fields)

lemma end_response_simps [simp]:
  "tr_Id (end_response rid n) = rid" "tr_Final (end_response rid n)" "tr_Error (end_response rid n) = []"
  "tr_Type (end_response rid n) = ''END''"
  by (simp_all add: end_response_def)

lemma error_response_simps [simp]:
  "tr_Id (error_response rid msg) = rid" "tr_Final (error_response rid msg)" "tr_Error (error_response rid msg) = msg"
  "tr_Type (error_response rid msg) = []"
  by (simp_all add: error_response_def)

text \<open>Claim C10: a successful \<open>GetTransactions\<close>, through the whole pipeline: the manager receives the blocks and
  transactions of every height of the range in order of the heights, encoded, numbered without gap from 0, none of
  them final, followed by exactly one final \<open>END\<close> whose number is their count.\<close>

theorem GetTransactions_streams_range:
  assumes "js_HeightRange cd (rq_Payload tr) = Inr hr" and "proper_range hr" and "hr_EndHeight hr \<noteq> 0"
    and "(getRange client hr)\<^sup>*\<^sup>* (pipe_init hr) s" and "coll s = Returned None"
    and "fetch hr = Some (sent s @ outp s, None)" and "sc_stop sc = Complete"
  shows "\<exists>rs e. GetTransactions cd fetch sc tr = Ret (Some (rs @ [e]))
    \<and> tr_Id e = rq_Id tr \<and> tr_Type e = ''END'' \<and> tr_Order e = word_of_nat (length rs) \<and> tr_Final e
    \<and> map (\<lambda>r. (tr_Type r, tr_Payload r)) rs =
        map (\<lambda>t. (or_Type t, encoded (js_encode cd) (or_Payload t))) (in_order client hr (Suc (last_lane hr)))
    \<and> map tr_Order rs = map word_of_nat [0..<length rs]
    \<and> list_all (\<lambda>r. tr_Id r = rq_Id tr \<and> \<not> tr_Final r) rs"
proof -
  from returned_outcome [OF assms(2,4,5)] have ts: "sent s @ outp s = in_order client hr (Suc (last_lane hr))"
    by (simp add: outcome_def)
  let ?rs = "numbered (js_encode cd) (rq_Id tr) 0 (in_order client hr (Suc (last_lane hr)))"
  from assms(6) have "fetch hr = Some (in_order client hr (Suc (last_lane hr)), None)" unfolding ts .
  from range_responses_sent [of fetch hr, OF this, of cd tr sc] assms(1,3,7)
  have "GetTransactions cd fetch sc tr = Ret (Some (?rs @ [end_response (rq_Id tr) (word_of_nat (length ?rs))]))"
    by (simp add: GetTransactions_def stopped_at_def)
  moreover have "list_all (\<lambda>r. tr_Id r = rq_Id tr \<and> \<not> tr_Final r) ?rs" by (auto simp: list_all_iff dest: numbered_fields)
  ultimately show ?thesis using numbered_payloads numbered_orders [of _ _ 0]
    by (intro exI [of _ ?rs] exI [of _ "end_response (rq_Id tr) (word_of_nat (length ?rs))"]) (simp add: end_response_def)
qed

text \<open>A codec for concrete requests: a payload of one byte \<open>r\<close> is the range from 5 to 6, \<open>z\<close> a range that ends at 0.\<close>

definition sample_codec :: codec where
  "sample_codec =
     \<lparr>js_HeightRange = (\<lambda>b. if b = ''r'' then Inr \<lparr>hr_StartHeight = 5, hr_EndHeight = 6\<rparr>
                             else if b = ''z'' then Inr \<lparr>hr_StartHeight = 0, hr_EndHeight = 0\<rparr> else Inl ''invalid character''),
      js_HeightHash = (\<lambda>b. Inr (HeightHash_Height 7)),
      js_HeightAccount = (\<lambda>b. Inl ''invalid character''),
      js_LatestDataRequest = (\<lambda>b. if b = ''r'' then (4, None) else (0, Some ''invalid character'')),
      js_encode = (\<lambda>p. Inr ''{}'')\<rparr>"

definition sample_request :: "string \<Rightarrow> bytes \<Rightarrow> TaskRequest" where
  "sample_request kind payload = \<lparr>rq_Id = ''id'', rq_Type = kind, rq_Payload = payload\<rparr>"

lemma in_order_two_heights:
  "in_order (sample_client {}) \<lparr>hr_StartHeight = 5, hr_EndHeight = 6\<rparr> (Suc (last_lane \<lparr>hr_StartHeight = 5, hr_EndHeight = 6\<rparr>))
     = [block_resp (Block0\<lparr>blk_Height := 5\<rparr>), block_resp (Block0\<lparr>blk_Height := 6\<rparr>)]"
  by (simp add: in_order_def last_lane_def lane_responses_def lane_height_def sample_responses content_def)

theorem GetTransactions_streams_range_witness:
  "\<exists>fetch rs e. GetTransactions sample_codec fetch \<lparr>sc_stop = Complete, sc_at = 0\<rparr> (sample_request ''t'' ''r'')
       = Ret (Some (rs @ [e])) \<and> tr_Final e \<and> tr_Order e = 2 \<and> map tr_Type rs = [''Block'', ''Block'']"
proof -
  let ?hr = "\<lparr>hr_StartHeight = 5, hr_EndHeight = 6\<rparr>"
  from two_heights_run obtain s where s: "run (sample_client {}) ?hr two_heights (pipe_init ?hr) = Some s"
    "coll s = Returned None" by blast
  have "js_HeightRange sample_codec (rq_Payload (sample_request ''t'' ''r'')) = Inr ?hr" "proper_range ?hr" "hr_EndHeight ?hr \<noteq> 0"
    by (simp_all add: sample_codec_def sample_request_def proper_range_def)
  from GetTransactions_streams_range [OF this run_getRange [OF s(1)] s(2), of "\<lambda>_. Some (sent s @ outp s, None)" "\<lparr>sc_stop = Complete, sc_at = 0\<rparr>"]
  obtain rs e where rs: "GetTransactions sample_codec (\<lambda>_. Some (sent s @ outp s, None)) \<lparr>sc_stop = Complete, sc_at = 0\<rparr> (sample_request ''t'' ''r'')
      = Ret (Some (rs @ [e]))" and e: "tr_Final e" "tr_Order e = word_of_nat (length rs)" and types:
    "map (\<lambda>r. (tr_Type r, tr_Payload r)) rs = map (\<lambda>t. (or_Type t, encoded (js_encode sample_codec) (or_Payload t)))
       [block_resp (Block0\<lparr>blk_Height := 5\<rparr>), block_resp (Block0\<lparr>blk_Height := 6\<rparr>)]"
    unfolding in_order_two_heights by (auto simp: sample_request_def)
  from arg_cong [OF types, of "map fst"] have "map tr_Type rs = [''Block'', ''Block'']" by (simp add: comp_def block_resp_def)
  moreover from arg_cong [OF this, of length] have "length rs = 2" by simp
  ultimately show ?thesis using rs e by (intro exI [of _ "\<lambda>_. Some (sent s @ outp s, None)"] exI [of _ rs] exI [of _ e]) simp
qed

lemma insert_final:
  assumes "filter P xs = [y]" and "P x"
  shows "filter P (take n xs @ [x] @ drop n xs) = [x, y] \<or> filter P (take n xs @ [x] @ drop n xs) = [y, x]"
proof -
  have "filter P (take n xs) @ filter P (drop n xs) = [y]"
    using assms(1) unfolding filter_append [symmetric] append_take_drop_id .
  with assms(2) show ?thesis by (auto simp: append_eq_Cons_conv)
qed

lemma insert_all: "list_all P xs \<Longrightarrow> P x \<Longrightarrow> list_all P (take n xs @ [x] @ drop n xs)"
  by (auto simp: list_all_iff dest: in_set_takeD in_set_dropD)

text \<open>Claim C34: when the range fails, the manager gets two final responses to one request, in either order and however
  the sender is scheduled: the error, which alone carries the text, and the \<open>END\<close> of the sender. A forwarded response
  of type \<open>Error\<close> has no error text.\<close>

theorem GetTransactions_error_two_finals:
  assumes "js_HeightRange cd (rq_Payload tr) = Inr hr" and "hr_EndHeight hr \<noteq> 0" and "fetch hr = Some (ts, Some e)"
  shows "\<exists>rs n. GetTransactions cd fetch sc tr = Ret (Some rs)
    \<and> (filter tr_Final rs = [error_response (rq_Id tr) (Error e), end_response (rq_Id tr) n]
       \<or> filter tr_Final rs = [end_response (rq_Id tr) n, error_response (rq_Id tr) (Error e)])
    \<and> list_all (\<lambda>r. tr_Final r \<or> tr_Error r = []) rs"
proof -
  define n where "n = length (stopped_at ts (sc_stop sc))"
  define rs where "rs = numbered (js_encode cd) (rq_Id tr) 0 (stopped_at ts (sc_stop sc)) @ [end_response (rq_Id tr) (word_of_nat n)]"
  from range_responses_sent [of fetch hr, OF assms(3), of cd tr sc] assms(1,2)
  have all: "GetTransactions cd fetch sc tr = Ret (Some (take (sc_at sc) rs @ [error_response (rq_Id tr) (Error e)] @ drop (sc_at sc) rs))"
    by (simp add: GetTransactions_def rs_def n_def)
  have "filter tr_Final rs = [end_response (rq_Id tr) (word_of_nat n)]" unfolding rs_def by (simp add: numbered_not_final)
  note finals = insert_final [of tr_Final, OF this error_response_simps(2), of "sc_at sc"]
  have "list_all (\<lambda>r. tr_Final r \<or> tr_Error r = []) rs" unfolding rs_def by (auto simp: list_all_iff dest: numbered_fields)
  from insert_all [OF this, of "error_response (rq_Id tr) (Error e)" "sc_at sc"] all finals show ?thesis
    by (intro exI conjI) (assumption | simp only: error_response_simps simp_thms)+
qed

theorem GetTransactions_error_two_finals_witness:
  "\<exists>rs. GetTransactions sample_codec (\<lambda>_. Some ([], Some (ExtError ''unavailable''))) \<lparr>sc_stop = Complete, sc_at = 0\<rparr>
       (sample_request ''t'' ''r'') = Ret (Some rs) \<and> length (filter tr_Final rs) = 2"
  using GetTransactions_error_two_finals [of sample_codec "sample_request ''t'' ''r''" "\<lparr>hr_StartHeight = 5, hr_EndHeight = 6\<rparr>"
    "\<lambda>_. Some ([], Some (ExtError ''unavailable''))" "[]" "ExtError ''unavailable''" "\<lparr>sc_stop = Complete, sc_at = 0\<rparr>"]
  by (auto simp: sample_codec_def sample_request_def)

text \<open>A range whose end is zero, or is absent from the payload, panics: the message of the intended error
  response reads the text of an error that is nil there.\<close>

lemma GetTransactions_zero_end_panics:
  assumes "js_HeightRange cd (rq_Payload tr) = Inr hr" and "hr_EndHeight hr = 0"
  shows "GetTransactions cd fetch sc tr = Panic NilDereference"
  using assms by (simp add: GetTransactions_def)

lemma GetTransactions_zero_end_panics_witness:
  "GetTransactions sample_codec (\<lambda>_. None) \<lparr>sc_stop = Complete, sc_at = 0\<rparr> (sample_request ''t'' ''z'') = Panic NilDereference"
  using GetTransactions_zero_end_panics [of sample_codec "sample_request ''t'' ''z''" "\<lparr>hr_StartHeight = 0, hr_EndHeight = 0\<rparr>"]
  by (simp add: sample_codec_def sample_request_def)

text \<open>\<open>GetLatest\<close> does not stop at a payload it cannot decode: it sends the final error and then, on the same
  request, the latest range and a second final response.\<close>

lemma GetLatest_ignores_bad_payload:
  assumes "js_LatestDataRequest cd (rq_Payload tr) = (h, Some e)" and "g_GetBlock client (HeightHash_Height 0) = (block, None)"
    and "fetch (getLastHeightRange h maximum (blk_Height block)) = Some (ts, None)" and "sc_stop sc = Complete"
  shows "\<exists>rs. GetLatest cd client maximum fetch sc tr = Ret (Some (error_response (rq_Id tr) ''Cannot unmarshal payload'' # rs))
    \<and> length rs = Suc (length ts) \<and> filter tr_Final rs = [end_response (rq_Id tr) (word_of_nat (length ts))]"
proof -
  let ?rs = "numbered (js_encode cd) (rq_Id tr) 0 ts @ [end_response (rq_Id tr) (word_of_nat (length ts))]"
  from range_responses_sent [of fetch, OF assms(3), of cd tr sc] assms(1,2,4)
  have "GetLatest cd client maximum fetch sc tr = Ret (Some (error_response (rq_Id tr) ''Cannot unmarshal payload'' # ?rs))"
    by (simp add: GetLatest_def Let_def bind_blocking_def stopped_at_def)
  then show ?thesis by (intro exI [of _ ?rs]) (simp add: numbered_not_final)
qed

lemma GetLatest_ignores_bad_payload_witness:
  "\<exists>rs. GetLatest sample_codec (sample_client {}) 10 (\<lambda>_. Some ([], None)) \<lparr>sc_stop = Complete, sc_at = 0\<rparr> (sample_request ''l'' ''x'')
       = Ret (Some (error_response ''id'' ''Cannot unmarshal payload'' # rs)) \<and> length rs = 1"
  using GetLatest_ignores_bad_payload [of sample_codec "sample_request ''l'' ''x''" 0 "''invalid character''" "sample_client {}"
      "Block0\<lparr>blk_Height := 0\<rparr>" "\<lambda>_. Some ([], None)" 10 "[]" "\<lparr>sc_stop = Complete, sc_at = 0\<rparr>"]
  by (auto simp: sample_codec_def sample_request_def sample_client_def HeightHash_Height_def)

subsection \<open>Every request of a stream\<close>

text \<open>What the manager can rely on for one request: the responses carry its id and one of them is final.\<close>

definition settles :: "TaskRequest \<Rightarrow> TaskResponse list \<Rightarrow> bool" where
  "settles tr rs \<longleftrightarrow> list_all (\<lambda>r. tr_Id r = rq_Id tr) rs \<and> list_ex tr_Final rs"

lemma settles_cons: "settles tr rs \<Longrightarrow> tr_Id r = rq_Id tr \<Longrightarrow> settles tr (r # rs)"
  by (simp add: settles_def)

lemma settles_error [simp]: "settles tr [error_response (rq_Id tr) msg]"
  by (simp add: settles_def)

lemma settles_insert:
  assumes "settles tr rs"
  shows "settles tr (take n rs @ [error_response (rq_Id tr) msg] @ drop n rs)"
  using assms insert_all [of "\<lambda>r. tr_Id r = rq_Id tr" rs "error_response (rq_Id tr) msg" n] by (simp add: settles_def)

lemma settles_numbered: "settles tr (numbered enc (rq_Id tr) 0 ts @ [end_response (rq_Id tr) n])"
  by (auto simp: settles_def list_all_iff dest: numbered_fields)

lemma range_settles: "range_responses cd fetch sc tr hr = Ret (Some rs) \<Longrightarrow> settles tr rs"
  unfolding range_responses_def sendResp_events
  by (auto split: option.splits simp: settles_numbered simp del: append.simps take_append drop_append intro: settles_insert [OF settles_numbered])

context query_handler
begin

lemma handler_settles: "handle stop tr = Some rs \<Longrightarrow> settles tr rs"
  using one_final [of tr stop] by (auto simp: settles_def settled_once_def list_ex_iff)

end

lemmas query_settles = block_query.handler_settles balance_query.handler_settles delegations_query.handler_settles
  reward_query.handler_settles

lemma GetTransactions_settles: "GetTransactions cd fetch sc tr = Ret (Some rs) \<Longrightarrow> settles tr rs"
  by (auto simp: GetTransactions_def split: sum.splits if_splits dest: range_settles)

lemma GetLatest_settles: "GetLatest cd client maximum fetch sc tr = Ret (Some rs) \<Longrightarrow> settles tr rs"
  by (auto simp: GetLatest_def Let_def bind_blocking_def go_simps
      split: prod.splits option.splits intro: settles_cons [OF settles_error] settles_cons [OF range_settles] range_settles error_response_simps(1))

lemma dispatch_settles: "dispatch cd ids fetch ic sc tr = Ret (Some rs) \<Longrightarrow> settles tr rs"
  unfolding dispatch_def
  by (auto split: if_splits dest: GetTransactions_settles GetLatest_settles query_settles)

text \<open>What a request needs to be answered: a range to fetch must not end at zero, and \<open>getRange\<close> must return.\<close>

definition answerable :: "codec \<Rightarrow> request_ids \<Rightarrow> range_fetch \<Rightarrow> IndexerClient \<Rightarrow> TaskRequest \<Rightarrow> bool" where
  "answerable cd ids fetch ic tr =
     (if rq_Type tr = ReqIDGetTransactions ids then
        (case js_HeightRange cd (rq_Payload tr) of Inl e \<Rightarrow> True | Inr hr \<Rightarrow> hr_EndHeight hr \<noteq> 0 \<and> fetch hr \<noteq> None)
      else if rq_Type tr = ReqIDLatestData ids then
        (case g_GetBlock (ic_grpc ic) (HeightHash_Height 0) of
           (block, Some e) \<Rightarrow> True
         | (block, None) \<Rightarrow>
             fetch (getLastHeightRange (fst (js_LatestDataRequest cd (rq_Payload tr))) (ic_maximumHeightsToGet ic) (blk_Height block)) \<noteq> None)
      else True)"

lemma bind_blocking_Some:
  "bind_blocking m f = Ret (Some y) \<longleftrightarrow> (\<exists>x. m = Ret (Some x) \<and> f x = Ret (Some y))"
  by (auto simp: bind_blocking_def go_simps split: option.splits go.splits)

lemma range_responses_iff: "(\<exists>rs. range_responses cd fetch sc tr hr = Ret (Some rs)) \<longleftrightarrow> fetch hr \<noteq> None"
  unfolding range_responses_def sendResp_events by (cases "fetch hr") (auto split: option.split)

context query_handler
begin

lemma handler_answers: "\<exists>rs. handle stop tr = Some rs"
  using returns_answer by blast

end

lemma dispatch_iff: "(\<exists>rs. dispatch cd ids fetch ic sc tr = Ret (Some rs)) \<longleftrightarrow> answerable cd ids fetch ic tr"
proof -
  have latest: "(\<exists>rs. GetLatest cd client m fetch sc tr = Ret (Some rs)) \<longleftrightarrow>
      (case g_GetBlock client (HeightHash_Height 0) of
         (block, Some e) \<Rightarrow> True
       | (block, None) \<Rightarrow> fetch (getLastHeightRange (fst (js_LatestDataRequest cd (rq_Payload tr))) m (blk_Height block)) \<noteq> None)"
    for client m
  proof (cases "snd (g_GetBlock client (HeightHash_Height 0))")
    case None
    let ?hr = "getLastHeightRange (fst (js_LatestDataRequest cd (rq_Payload tr))) m (blk_Height (fst (g_GetBlock client (HeightHash_Height 0))))"
    have eq: "GetLatest cd client m fetch sc tr = bind_blocking (range_responses cd fetch sc tr ?hr) (\<lambda>rs. Ret (Some
        ((case snd (js_LatestDataRequest cd (rq_Payload tr)) of Some _ \<Rightarrow> [error_response (rq_Id tr) ''Cannot unmarshal payload'']
          | None \<Rightarrow> []) @ rs)))"
      using None by (simp add: GetLatest_def Let_def case_prod_beta)
    have "(\<exists>rs. GetLatest cd client m fetch sc tr = Ret (Some rs)) \<longleftrightarrow> (\<exists>rs. range_responses cd fetch sc tr ?hr = Ret (Some rs))"
      unfolding eq bind_blocking_Some by auto
    with None range_responses_iff show ?thesis by (simp add: case_prod_beta)
  next
    case (Some e)
    then show ?thesis by (simp add: GetLatest_def Let_def case_prod_beta)
  qed
  have range: "(\<exists>rs. GetTransactions cd fetch sc tr = Ret (Some rs)) \<longleftrightarrow>
      (case js_HeightRange cd (rq_Payload tr) of Inl e \<Rightarrow> True | Inr hr \<Rightarrow> hr_EndHeight hr \<noteq> 0 \<and> fetch hr \<noteq> None)"
    using range_responses_iff by (auto simp: GetTransactions_def split: sum.split)
  show ?thesis unfolding dispatch_def answerable_def
    using range latest reward_query.handler_answers balance_query.handler_answers delegations_query.handler_answers by simp
qed

definition serve :: "(schedule \<times> TaskRequest) list \<Rightarrow> stream_event \<Rightarrow> stream_event list" where
  "serve reqs e = map (\<lambda>(sc, tr). StreamRequest sc tr) reqs @ [e]"

text \<open>Claim C12: a \<open>Run\<close> goroutine that works off requests until its context is done or its stream is finished answers each of
  them, in the order they came, provided that every range to fetch has an end other than zero and \<open>getRange\<close> returns for
  it: all responses to a request carry its id, at least one of them is final, also for a request of a type that has no
  handler; then it returns, and exactly at the end of the context the stream, and no other, is removed from the
  registry. If one request does not meet the condition, the goroutine panics or never returns.\<close>

theorem Run_answers_every_request:
  assumes "e = StreamDone \<or> e = StreamFinish"
  shows "if list_all (\<lambda>(sc, tr). answerable cd ids fetch ic tr) reqs
    then \<exists>rss. Run cd ids fetch streamID (serve reqs e) ic
          = Ret (Some (rss, if e = StreamDone then ic\<lparr>ic_streams := ic_streams ic - {streamID}\<rparr> else ic))
        \<and> list_all2 (\<lambda>(sc, tr) rs. settles tr rs) reqs rss
    else \<forall>r. Run cd ids fetch streamID (serve reqs e) ic \<noteq> Ret (Some r)"
proof (induction reqs)
  case Nil
  show ?case using assms by (auto simp: serve_def CloseStream_def)
next
  case (Cons q reqs)
  obtain sc tr where q: "q = (sc, tr)" by (cases q)
  have run: "Run cd ids fetch streamID (serve (q # reqs) e) ic = bind_blocking (dispatch cd ids fetch ic sc tr) (\<lambda>rs.
      bind_blocking (Run cd ids fetch streamID (serve reqs e) ic) (\<lambda>(rss, ic'). Ret (Some (rs # rss, ic'))))"
    by (simp add: serve_def q)
  show ?case
  proof (cases "list_all (\<lambda>(sc, tr). answerable cd ids fetch ic tr) (q # reqs)")
    case True
    then have ok: "answerable cd ids fetch ic tr" and rest: "list_all (\<lambda>(sc, tr). answerable cd ids fetch ic tr) reqs" by (simp_all add: q)
    from ok obtain rs where rs: "dispatch cd ids fetch ic sc tr = Ret (Some rs)" using dispatch_iff by blast
    from Cons.IH rest obtain rss where rss: "Run cd ids fetch streamID (serve reqs e) ic
        = Ret (Some (rss, if e = StreamDone then ic\<lparr>ic_streams := ic_streams ic - {streamID}\<rparr> else ic))"
      "list_all2 (\<lambda>(sc, tr) rs. settles tr rs) reqs rss" by auto
    have "Run cd ids fetch streamID (serve (q # reqs) e) ic
        = Ret (Some (rs # rss, if e = StreamDone then ic\<lparr>ic_streams := ic_streams ic - {streamID}\<rparr> else ic))"
      unfolding run rs rss(1) by simp
    moreover have "list_all2 (\<lambda>(sc, tr) rs. settles tr rs) (q # reqs) (rs # rss)" using rss(2) dispatch_settles [OF rs] by (simp add: q)
    ultimately show ?thesis using True by (simp only: if_True) blast
  next
    case False
    then have "\<not> (\<exists>rs. dispatch cd ids fetch ic sc tr = Ret (Some rs)) \<or> (\<forall>r. Run cd ids fetch streamID (serve reqs e) ic \<noteq> Ret (Some r))"
      using Cons.IH dispatch_iff [of cd ids fetch ic sc tr] by (auto simp: q)
    then show ?thesis using False unfolding run bind_blocking_Some by auto
  qed
qed

definition sample_ids :: request_ids where
  "sample_ids = \<lparr>ReqIDGetTransactions = ''GetTransactions'', ReqIDLatestData = ''GetLatest'', ReqIDGetReward = ''GetReward'',
     ReqIDAccountBalance = ''GetAccountBalance'', ReqIDAccountDelegations = ''GetAccountDelegations''\<rparr>"

theorem Run_answers_every_request_witness:
  "\<exists>rss. Run sample_codec sample_ids (\<lambda>_. Some ([], None)) ''s''
       [StreamRequest \<lparr>sc_stop = Complete, sc_at = 0\<rparr> (sample_request ''GetTransactions'' ''r''),
        StreamRequest \<lparr>sc_stop = Complete, sc_at = 0\<rparr> (sample_request ''GetBlock'' ''b''), StreamDone]
       (fst (RegisterStream ''s'' (NewIndexerClient (sample_client {}) 100)))
         = Ret (Some (rss, NewIndexerClient (sample_client {}) 100)) \<and> length rss = 2"
proof -
  let ?sc = "\<lparr>sc_stop = Complete, sc_at = 0\<rparr>"
  let ?reqs = "[(?sc, sample_request ''GetTransactions'' ''r''), (?sc, sample_request ''GetBlock'' ''b'')]"
  let ?ic = "fst (RegisterStream ''s'' (NewIndexerClient (sample_client {}) 100))"
  have "list_all (\<lambda>(sc, tr). answerable sample_codec sample_ids (\<lambda>_. Some ([], None)) ?ic tr) ?reqs"
    by (simp add: answerable_def sample_ids_def sample_request_def sample_codec_def)
  with Run_answers_every_request [of StreamDone sample_codec sample_ids "\<lambda>_. Some ([], None)" ?ic ?reqs "''s''"]
  obtain rss where rss: "Run sample_codec sample_ids (\<lambda>_. Some ([], None)) ''s'' (serve ?reqs StreamDone) ?ic
      = Ret (Some (rss, ?ic\<lparr>ic_streams := ic_streams ?ic - {''s''}\<rparr>))" "list_all2 (\<lambda>(sc, tr) rs. settles tr rs) ?reqs rss" by auto
  from rss(2) have "length rss = 2" by (auto dest: list_all2_lengthD)
  with rss(1) show ?thesis by (simp add: serve_def RegisterStream_def NewIndexerClient_def)
qed

end
