(* ===== verification/Metrics.thy ===== *)
theory Metrics
  imports Search_Tx Blocks Indexer
begin

text \<open>
  The metrics of \<^verbatim>\<open>src/api/metrics.go\<close> and \<^verbatim>\<open>src/client/metrics.go\<close>, and what the operations record on them. A
  metric is data; a group is a metric with the values of its labels, what \<open>WithLabels\<close> selects. The library needs
  as many values as the metric has tags. The operations are defined again with the samples that they record; the
  durations of samples depend on the clock and are left out; a \<open>float64\<close> that is added is the number it was made from.
\<close>

subsection \<open>The metrics\<close>

datatype metric_kind = Histogram | Counter

record metric =
  mt_kind :: metric_kind
  mt_Namespace :: string
  mt_Subsystem :: string
  mt_Name :: string
  mt_Desc :: string
  mt_Tags :: "string list"

definition conversionDuration :: metric where
  "conversionDuration =
     \<lparr>mt_kind = Histogram, mt_Namespace = ''indexerworker'', mt_Subsystem = ''api'', mt_Name = ''conversion_duration'',
      mt_Desc = ''Duration how long it takes to convert from raw to format'', mt_Tags = [''type'']\<rparr>"

definition rawRequestHTTPDuration :: metric where
  "rawRequestHTTPDuration =
     \<lparr>mt_kind = Histogram, mt_Namespace = ''indexerworker'', mt_Subsystem = ''api'', mt_Name = ''request_http'',
      mt_Desc = ''Duration how long it takes to take data from cosmos'', mt_Tags = [''endpoint'', ''status'']\<rparr>"

definition rawRequestGRPCDuration :: metric where
  "rawRequestGRPCDuration =
     \<lparr>mt_kind = Histogram, mt_Namespace = ''indexerworker'', mt_Subsystem = ''api'', mt_Name = ''request_grpc'',
      mt_Desc = ''Duration how long it takes to take data from cosmos'', mt_Tags = [''endpoint'', ''status'']\<rparr>"

definition numberOfItems :: metric where
  "numberOfItems =
     \<lparr>mt_kind = Counter, mt_Namespace = ''indexerworker'', mt_Subsystem = ''api'', mt_Name = ''tx_num'',
      mt_Desc = ''Number of all transactions returned from one request'', mt_Tags = [''type'']\<rparr>"

definition numberOfItemsBlock :: metric where
  "numberOfItemsBlock =
     \<lparr>mt_kind = Counter, mt_Namespace = ''indexerworker'', mt_Subsystem = ''api'', mt_Name = ''block_tx_num'',
      mt_Desc = ''Number of all transactions returned from one request'', mt_Tags = [''type'']\<rparr>"

definition unknownTransactions :: metric where
  "unknownTransactions =
     \<lparr>mt_kind = Counter, mt_Namespace = ''indexerworker'', mt_Subsystem = ''api'', mt_Name = ''tx_unknown'',
      mt_Desc = ''Number of unknown transactions'', mt_Tags = [''type'']\<rparr>"

definition brokenTransactions :: metric where
  "brokenTransactions =
     \<lparr>mt_kind = Counter, mt_Namespace = ''indexerworker'', mt_Subsystem = ''api'', mt_Name = ''tx_broken'',
      mt_Desc = ''Number of broken transactions'', mt_Tags = [''type'']\<rparr>"

definition api_metrics :: "metric list" where
  "api_metrics = [conversionDuration, rawRequestHTTPDuration, rawRequestGRPCDuration, numberOfItems, numberOfItemsBlock,
     unknownTransactions, brokenTransactions]"

text \<open>Those of the client.\<close>

definition endpointDuration :: metric where
  "endpointDuration =
     \<lparr>mt_kind = Histogram, mt_Namespace = ''indexerworker'', mt_Subsystem = ''client'', mt_Name = ''endpoint_duration'',
      mt_Desc = ''Duration how long it takes for each endpoint'', mt_Tags = [''type'']\<rparr>"

definition newStreamsMetric :: metric where
  "newStreamsMetric =
     \<lparr>mt_kind = Counter, mt_Namespace = ''indexerworker'', mt_Subsystem = ''client'', mt_Name = ''new_streams'',
      mt_Desc = ''New Streams'', mt_Tags = []\<rparr>"

definition receivedRequestsMetric :: metric where
  "receivedRequestsMetric =
     \<lparr>mt_kind = Counter, mt_Namespace = ''indexerworker'', mt_Subsystem = ''client'', mt_Name = ''received_requests'',
      mt_Desc = ''Received requests to process by client'', mt_Tags = [''type'']\<rparr>"

definition sendResponseMetric :: metric where
  "sendResponseMetric =
     \<lparr>mt_kind = Counter, mt_Namespace = ''indexerworker'', mt_Subsystem = ''client'', mt_Name = ''responses_sent'',
      mt_Desc = ''Responses to be sent from client'', mt_Tags = [''type'', ''final'']\<rparr>"

definition client_metrics :: "metric list" where
  "client_metrics = [endpointDuration, newStreamsMetric, receivedRequestsMetric, sendResponseMetric]"

definition metric_id :: "metric \<Rightarrow> string \<times> string \<times> string" where
  "metric_id m = (mt_Namespace m, mt_Subsystem m, mt_Name m)"

subsection \<open>Groups and samples\<close>

type_synonym group = "metric \<times> string list"

definition WithLabels :: "metric \<Rightarrow> string list \<Rightarrow> group" where
  "WithLabels m labels = (m, labels)"

definition fits :: "group \<Rightarrow> bool" where
  "fits g \<longleftrightarrow> length (snd g) = length (mt_Tags (fst g))"

text \<open>\<open>InitMetrics\<close> selects the two groups that \<open>SearchTx\<close> adds to, \<open>NewIndexerClient\<close> those of the handlers' timers.\<close>

definition numberOfItemsTransactions :: group where
  "numberOfItemsTransactions = WithLabels numberOfItems [''transactions'']"

definition numberOfItemsInBlock :: group where
  "numberOfItemsInBlock = WithLabels numberOfItemsBlock [''transactions'']"

datatype sample = Inc group | AddTo group nat | Observe group

primrec sample_group :: "sample \<Rightarrow> group" where
  "sample_group (Inc g) = g"
| "sample_group (AddTo g n) = g"
| "sample_group (Observe g) = g"

primrec added :: "group \<Rightarrow> sample \<Rightarrow> nat" where
  "added g (Inc h) = (if h = g then 1 else 0)"
| "added g (AddTo h n) = (if h = g then n else 0)"
| "added g (Observe h) = 0"

primrec observed :: "metric \<Rightarrow> sample \<Rightarrow> nat" where
  "observed m (Inc h) = 0"
| "observed m (AddTo h n) = 0"
| "observed m (Observe h) = (if fst h = m then 1 else 0)"

subsection \<open>What the operations record\<close>

text \<open>\<open>GetBlock\<close>: one observation for a call that reaches the node.\<close>

definition GetBlock_samples :: "block_service \<Rightarrow> HeightHash \<Rightarrow> api_state \<Rightarrow> sample list" where
  "GetBlock_samples svc params s =
     (let (block, ok) = (if hh_Height params \<noteq> 0 then Get (hh_Height params) (Sbc s) else (Block0, False));
          endpoint = (if hh_Height params = 0 then ''GetLatestBlock'' else ''GetBlockByHeight'')
      in if ok \<or> bs_Wait svc (calls s) \<noteq> None then []
         else case (if hh_Height params = 0 then bs_GetLatestBlock svc (calls s)
                    else bs_GetBlockByHeight svc (calls s) (hh_Height params)) of
                Inl e \<Rightarrow> [Observe (WithLabels rawRequestGRPCDuration [endpoint, ''error''])]
              | Inr lb \<Rightarrow> [Observe (WithLabels rawRequestGRPCDuration [endpoint, ''ok''])])"

text \<open>\<open>SearchTx\<close> with its samples: the state of its loops also holds what was recorded.\<close>

primrec tx_sample :: "tx_metric \<Rightarrow> sample" where
  "tx_sample (UnknownTransaction url) = Inc (WithLabels unknownTransactions [url])"
| "tx_sample (BrokenTransaction url) = Inc (WithLabels brokenTransactions [url])"

type_synonym metered = "(Transaction list \<times> tx_metric list) \<times> sample list"

definition page_step_metered ::
  "('i, 'd) env \<Rightarrow> Block \<Rightarrow> TxResponse list \<Rightarrow> nat \<times> 'i Tx \<Rightarrow> metered \<Rightarrow> metered result" where
  "page_step_metered E block responses ix st =
     bind_go (page_step E block responses ix (fst st)) (\<lambda>(st', err).
       let failures = map tx_sample (drop (length (snd (fst st))) (snd st'));
           converted = (case (err, r_Tx (responses ! fst ix)) of
                          (None, Some any) \<Rightarrow> [Observe (WithLabels conversionDuration [TypeUrl any])]
                        | _ \<Rightarrow> [])
       in Ret ((st', snd st @ failures @ converted), err))"

definition request_sample :: "string \<Rightarrow> sample" where
  "request_sample status = Observe (WithLabels rawRequestGRPCDuration [''GetTxsEvent'', status])"

partial_function (option) search_metered ::
  "('i, 'd) env \<Rightarrow> 'i tx_service \<Rightarrow> HeightHash \<Rightarrow> Block \<Rightarrow> uint64 \<Rightarrow> nat \<Rightarrow> uint64 \<Rightarrow> metered \<Rightarrow> metered result option" where
  "search_metered E svc r block perPage call page st =
     (case ts_Wait svc call of
        Some e \<Rightarrow> Some (Ret ((([], snd (fst st)), snd st), Some (ExtError e)))
      | None \<Rightarrow>
          (case ts_GetTxsEvent svc call (txs_request (hh_Height r) perPage page) of
             Inl e \<Rightarrow> Some (Ret ((([], snd (fst st)), snd st @ [request_sample ''error'']), Some (ExtError e)))
           | Inr res \<Rightarrow>
               (case for_go (page_step_metered E block (ge_TxResponses res)) (enumerate 0 (ge_Txs res))
                       (fst st, snd st @ [request_sample ''ok'', AddTo numberOfItemsTransactions (length (ge_Txs res))]) of
                  Panic p \<Rightarrow> Some (Panic p)
                | Ret (st', Some e) \<Rightarrow> Some (Ret ((([], snd (fst st')), snd st'), Some e))
                | Ret (st', None) \<Rightarrow>
                    if GetTotal (ge_Pagination res) \<le> word_of_nat (length (fst (fst st'))) then Some (Ret (st', None))
                    else search_metered E svc r block perPage (Suc call) (page + 1) st')))"

declare search_metered.simps [code]

definition SearchTx_metered ::
  "('i, 'd) env \<Rightarrow> 'i tx_service \<Rightarrow> HeightHash \<Rightarrow> Block \<Rightarrow> uint64 \<Rightarrow> metered result option" where
  "SearchTx_metered E svc r block perPage =
     search_metered E svc r block perPage 0 1 (([], []), [AddTo numberOfItemsInBlock (unat (blk_NumberOfTransactions block))])"

text \<open>The sender counts every response that it received, \<open>RegisterStream\<close> every stream, \<open>Run\<close> every request; a handler
  times itself, under the name of the handler that \<open>dispatch\<close> chooses.\<close>

fun sendResp_samples :: "send_event list \<Rightarrow> sample list" where
  "sendResp_samples (Received t # es) = Inc (WithLabels sendResponseMetric [or_Type t, ''yes'']) # sendResp_samples es"
| "sendResp_samples _ = []"

definition RegisterStream_samples :: "sample list" where
  "RegisterStream_samples = [Inc (WithLabels newStreamsMetric [])]"

definition handler_samples :: "request_ids \<Rightarrow> string \<Rightarrow> sample list" where
  "handler_samples ids ty =
     map (\<lambda>name. Observe (WithLabels endpointDuration [name]))
       (if ty = ReqIDGetTransactions ids then [''getTransactions'']
        else if ty = ReqIDLatestData ids then [''getLatest'']
        else if ty = ReqIDGetReward ids then [''getReward'']
        else if ty = ReqIDAccountBalance ids then [''getAccountBalance'']
        else if ty = ReqIDAccountDelegations ids then [''getAccountDelegations'']
        else [])"

fun Run_samples :: "request_ids \<Rightarrow> stream_event list \<Rightarrow> sample list" where
  "Run_samples ids (StreamRequest sc tr # es) =
     Inc (WithLabels receivedRequestsMetric [rq_Type tr]) # handler_samples ids (rq_Type tr) @ Run_samples ids es"
| "Run_samples ids _ = []"

subsection \<open>Metering changes no result\<close>

definition unmetered :: "metered result \<Rightarrow> (Transaction list \<times> tx_metric list) result" where
  "unmetered r = bind_go r (\<lambda>(st, err). Ret (fst st, err))"

lemma unmetered_simps [simp]:
  "unmetered (Ret (st, err)) = Ret (fst st, err)"
  "unmetered (Panic p) = Panic p"
  by (simp_all add: unmetered_def)

lemma unmetered_step: "unmetered (page_step_metered E block rs ix st) = page_step E block rs ix (fst st)"
  by (cases "page_step E block rs ix (fst st)") (auto simp: page_step_metered_def Let_def)

lemma unmetered_loop:
  "unmetered (for_go (page_step_metered E block rs) ixs st) = for_go (page_step E block rs) ixs (fst st)"
proof (induction ixs arbitrary: st)
  case (Cons ix ixs)
  show ?case
    using unmetered_step [of E block rs ix st, symmetric] Cons.IH
    by (cases "page_step_metered E block rs ix st") (auto split: option.splits)
qed simp

lemma unmetered_search: 
  assumes "search_metered E svc r block perPage call page st = Some res"
  shows "search_pages E svc r block perPage call page (fst (fst st)) (snd (fst st)) = Some (unmetered res)"
  using assms
proof (rule search_metered.raw_induct [where P = "\<lambda>E svc r block perPage call page st res.
    search_pages E svc r block perPage call page (fst (fst st)) (snd (fst st)) = Some (unmetered res)", rotated], goal_cases)
  case (1 sp E svc r block perPage call page st res)
  show ?case
  proof (cases "ts_Wait svc call")
    case (Some e)
    with 1(2) show ?thesis by (subst search_pages.simps) auto
  next
    case None
    note wait = this
    show ?thesis
    proof (cases "ts_GetTxsEvent svc call (txs_request (hh_Height r) perPage page)")
      case (Inl e)
      with wait 1(2) show ?thesis by (subst search_pages.simps) auto
    next
      case (Inr rs)
      let ?m = "for_go (page_step_metered E block (ge_TxResponses rs)) (enumerate 0 (ge_Txs rs))
          (fst st, snd st @ [request_sample ''ok'', AddTo numberOfItemsTransactions (length (ge_Txs rs))])"
      have loop: "for_go (page_step E block (ge_TxResponses rs)) (enumerate 0 (ge_Txs rs)) (fst st) = unmetered ?m"
        by (simp add: unmetered_loop)
      show ?thesis
      proof (cases ?m)
        case (Ret x)
        obtain a b ba err where "x = (((a, b), ba), err)" by (metis prod.exhaust)
        with Ret have m: "?m = Ret (((a, b), ba), err)" by simp
        from 1(2) 1(1) [of E svc r block perPage "Suc call" "page + 1" "((a, b), ba)" res] show ?thesis
          by (subst search_pages.simps) (auto simp: wait Inr m loop split: option.splits if_splits)
      next
        case (Panic p)
        with loop wait Inr 1(2) show ?thesis by (subst search_pages.simps) auto
      qed
    qed
  qed
qed

text \<open>Conversely the metered search returns whenever the search does.\<close>

lemma metered_search_returns:
  assumes "search_pages E svc r block perPage call page txs metrics = Some res"
  shows "\<forall>ss. \<exists>res'. search_metered E svc r block perPage call page ((txs, metrics), ss) = Some res'"
  using assms
proof (rule search_pages.raw_induct [where P = "\<lambda>E svc r block perPage call page txs metrics res.
    \<forall>ss. \<exists>res'. search_metered E svc r block perPage call page ((txs, metrics), ss) = Some res'", rotated], goal_cases)
  case (1 sp E svc r block perPage call page txs metrics res)
  show ?case
  proof (intro allI)
    fix ss
    show "\<exists>res'. search_metered E svc r block perPage call page ((txs, metrics), ss) = Some res'"
    proof (cases "ts_Wait svc call")
      case (Some e)
      then show ?thesis by (subst search_metered.simps) auto
    next
      case None
      note wait = this
      show ?thesis
      proof (cases "ts_GetTxsEvent svc call (txs_request (hh_Height r) perPage page)")
        case (Inl e)
        with wait show ?thesis by (subst search_metered.simps) auto
      next
        case (Inr rs)
        let ?m = "for_go (page_step_metered E block (ge_TxResponses rs)) (enumerate 0 (ge_Txs rs))
            ((txs, metrics), ss @ [request_sample ''ok'', AddTo numberOfItemsTransactions (length (ge_Txs rs))])"
        have loop: "for_go (page_step E block (ge_TxResponses rs)) (enumerate 0 (ge_Txs rs)) (txs, metrics) = unmetered ?m"
          by (simp add: unmetered_loop)
        show ?thesis
        proof (cases ?m)
          case (Ret x)
          obtain a b ba err where "x = (((a, b), ba), err)" by (metis prod.exhaust)
          with Ret have m: "?m = Ret (((a, b), ba), err)" by simp
          from 1(2) 1(1) [of E svc r block perPage "Suc call" "page + 1" a b res] show ?thesis
            by (subst search_metered.simps) (auto simp: wait Inr m loop split: option.splits if_splits)
        next
          case (Panic p)
          with wait Inr show ?thesis by (subst search_metered.simps) auto
        qed
      qed
    qed
  qed
qed

lemma SearchTx_metered_same: "map_option unmetered (SearchTx_metered E svc r block perPage) = SearchTx E svc r block perPage"
proof (cases "SearchTx_metered E svc r block perPage")
  case (Some res)
  then show ?thesis
    using unmetered_search [of E svc r block perPage 0 1 "(([], []), _)"] by (simp add: SearchTx_metered_def SearchTx_def)
next
  case None
  then have "SearchTx E svc r block perPage = None"
    using metered_search_returns [of E svc r block perPage 0 1 "[]" "[]"]
    unfolding SearchTx_metered_def SearchTx_def by (metis not_None_eq)
  with None show ?thesis by simp
qed

subsection \<open>What is counted\<close>

abbreviation items_added :: "sample list \<Rightarrow> nat" where
  "items_added ss \<equiv> sum_list (map (added numberOfItemsTransactions) ss)"

abbreviation conversions :: "sample list \<Rightarrow> nat" where
  "conversions ss \<equiv> sum_list (map (observed conversionDuration) ss)"

lemma conversion_not_request [simp]: "rawRequestGRPCDuration \<noteq> conversionDuration"
  by (simp add: rawRequestGRPCDuration_def conversionDuration_def)

lemma items_not_failures [simp]:
  "WithLabels unknownTransactions ls \<noteq> numberOfItemsTransactions" "WithLabels brokenTransactions ls \<noteq> numberOfItemsTransactions"
  "numberOfItemsInBlock \<noteq> numberOfItemsTransactions"
  by (simp_all add: WithLabels_def numberOfItemsTransactions_def numberOfItemsInBlock_def numberOfItems_def
        unknownTransactions_def brokenTransactions_def numberOfItemsBlock_def)

lemma tx_sample_counts [simp]: "added numberOfItemsTransactions (tx_sample m) = 0" "observed conversionDuration (tx_sample m) = 0"
  by (cases m; simp)+

lemma tx_samples_count [simp]: "items_added (map tx_sample ms) = 0" "conversions (map tx_sample ms) = 0"
  by (induction ms) simp_all

lemma page_step_metered_counts:
  assumes "page_step_metered E block rs ix st = Ret (st', None)"
  shows "length (fst (fst st')) = Suc (length (fst (fst st))) \<and> items_added (snd st') = items_added (snd st)
    \<and> conversions (snd st') = Suc (conversions (snd st))"
proof -
  obtain i raw txs ms ss where ix: "ix = (i, raw)" "st = ((txs, ms), ss)" by (metis prod.exhaust)
  from assms ix show ?thesis
    by (auto simp: page_step_metered_def page_step_def Let_def WithLabels_def go_simps split: if_splits option.splits prod.splits)
qed

lemma page_loop_counts:
  assumes "for_go (page_step_metered E block rs) ixs st = Ret (st', None)"
  shows "length (fst (fst st')) = length (fst (fst st)) + length ixs \<and> items_added (snd st') = items_added (snd st)
    \<and> conversions (snd st') = conversions (snd st) + length ixs"
  using assms
proof (induction ixs arbitrary: st)
  case (Cons ix ixs)
  from Cons.prems obtain st1 where st1: "page_step_metered E block rs ix st = Ret (st1, None)"
    "for_go (page_step_metered E block rs) ixs st1 = Ret (st', None)"
    by (cases "page_step_metered E block rs ix st") (auto split: option.splits)
  from page_step_metered_counts [OF st1(1)] Cons.IH [OF st1(2)] show ?case by simp
qed simp

definition counts_kept :: "metered \<Rightarrow> metered \<Rightarrow> bool" where
  "counts_kept st st' \<longleftrightarrow>
     items_added (snd st') + length (fst (fst st)) = items_added (snd st) + length (fst (fst st'))
     \<and> conversions (snd st') + length (fst (fst st)) = conversions (snd st) + length (fst (fst st'))"

lemma page_counts_kept:
  assumes "for_go (page_step_metered E block rs) (enumerate 0 xs)
      (fst st, snd st @ [request_sample ''ok'', AddTo numberOfItemsTransactions (length xs)]) = Ret (st', None)"
  shows "counts_kept st st'"
  using page_loop_counts [OF assms] by (simp add: counts_kept_def request_sample_def WithLabels_def)

lemma search_counts_kept:
  assumes "search_metered E svc r block perPage call page st = Some res"
  shows "\<forall>st'. res = Ret (st', None) \<longrightarrow> counts_kept st st'"
  using assms
proof (rule search_metered.raw_induct [where P = "\<lambda>E svc r block perPage call page st res.
    \<forall>st'. res = Ret (st', None) \<longrightarrow> counts_kept st st'", rotated], goal_cases)
  case (1 sm E svc r block perPage call page st res)
  show ?case
  proof (intro allI impI)
    fix st' assume res: "res = Ret (st', None)"
    from 1(2) res have wait: "ts_Wait svc call = None" by (cases "ts_Wait svc call") auto
    with 1(2) res obtain rs where rs: "ts_GetTxsEvent svc call (txs_request (hh_Height r) perPage page) = Inr rs"
      by (cases "ts_GetTxsEvent svc call (txs_request (hh_Height r) perPage page)") auto
    let ?m = "for_go (page_step_metered E block (ge_TxResponses rs)) (enumerate 0 (ge_Txs rs))
        (fst st, snd st @ [request_sample ''ok'', AddTo numberOfItemsTransactions (length (ge_Txs rs))])"
    obtain st1 where page: "?m = Ret (st1, None)"
      using 1(2) res by (cases ?m) (auto simp: wait rs split: option.splits)
    from 1(2) res have rest: "st' = st1 \<or> sm E svc r block perPage (Suc call) (page + 1) st1 = Some res"
      by (auto simp: wait rs page split: if_splits)
    from rest 1(1) res have "st' = st1 \<or> counts_kept st1 st'" by blast
    with page_counts_kept [OF page] show "counts_kept st st'" by (auto simp: counts_kept_def)
  qed
qed

text \<open>Claim C32: a search that succeeds is counted right: metering gives the same result, the counter of transactions grows by
  exactly the number of transactions that are returned, and each of them is timed once as a conversion.\<close>

theorem SearchTx_counts:
  assumes "SearchTx E svc r block perPage = Some (Ret ((txs, metrics), None))"
  shows "\<exists>ss. SearchTx_metered E svc r block perPage = Some (Ret (((txs, metrics), ss), None))
      \<and> items_added ss = length txs \<and> conversions ss = length txs"
proof -
  from SearchTx_metered_same [of E svc r block perPage] assms obtain st where
    st: "SearchTx_metered E svc r block perPage = Some (Ret (st, None))" "fst st = (txs, metrics)"
    by (auto simp: unmetered_def go_simps)
  from search_counts_kept [OF st(1) [unfolded SearchTx_metered_def]] st(2) have
    "items_added (snd st) = length txs" "conversions (snd st) = length txs" by (simp_all add: counts_kept_def)
  with st show ?thesis by (cases st) auto
qed

theorem SearchTx_counts_witness:
  "\<exists>ss. SearchTx_metered sample_env (paging_service sample_chain) (HeightHash_Height 7) Block0 2
        = Some (Ret (((map (stamp_block Block0 \<circ> sample_conv) sample_chain, []), ss), None))
      \<and> items_added ss = 3 \<and> conversions ss = 3"
proof -
  have "SearchTx sample_env (paging_service sample_chain) (HeightHash_Height 7) Block0 2
      = Some (Ret ((map (stamp_block Block0 \<circ> sample_conv) sample_chain, []), None))"
    by (rule SearchTx_served [OF serves_paging_service sample_chain_convertible]) (simp_all add: sample_chain_def)
  from SearchTx_counts [OF this] show ?thesis by (simp add: sample_chain_def)
qed

subsection \<open>Labels\<close>

abbreviation all_fit :: "sample list \<Rightarrow> bool" where
  "all_fit ss \<equiv> list_all (fits \<circ> sample_group) ss"

lemma groups_fit [simp]:
  "fits (WithLabels rawRequestGRPCDuration [endpoint, status])" "fits (WithLabels conversionDuration [ty])"
  "fits (WithLabels unknownTransactions [ty])" "fits (WithLabels brokenTransactions [ty])"
  "fits numberOfItemsTransactions" "fits numberOfItemsInBlock" "fits (WithLabels endpointDuration [ty])"
  "fits (WithLabels newStreamsMetric [])" "fits (WithLabels receivedRequestsMetric [ty])"
  "fits (WithLabels sendResponseMetric [ty, final])"
  by (simp_all add: fits_def WithLabels_def rawRequestGRPCDuration_def conversionDuration_def unknownTransactions_def
        brokenTransactions_def numberOfItemsTransactions_def numberOfItems_def numberOfItemsInBlock_def numberOfItemsBlock_def
        endpointDuration_def newStreamsMetric_def receivedRequestsMetric_def sendResponseMetric_def)

lemma tx_sample_fits [simp]: "fits (sample_group (tx_sample m))"
  by (cases m) simp_all

lemma page_step_fits:
  assumes "page_step_metered E block rs ix st = Ret (st', err)" "all_fit (snd st)"
  shows "all_fit (snd st')"
  using assms by (auto simp: page_step_metered_def Let_def go_simps list_all_iff split: option.splits)

lemma page_loop_fits:
  assumes "for_go (page_step_metered E block rs) ixs st = Ret (st', err)" "all_fit (snd st)"
  shows "all_fit (snd st')"
  using assms by (rule for_go_invariant) (blast intro: page_step_fits)

lemma search_fits:
  assumes "search_metered E svc r block perPage call page st = Some res"
  shows "\<forall>st' err. all_fit (snd st) \<longrightarrow> res = Ret (st', err) \<longrightarrow> all_fit (snd st')"
  using assms
proof (rule search_metered.raw_induct [where P = "\<lambda>E svc r block perPage call page st res.
    \<forall>st' err. all_fit (snd st) \<longrightarrow> res = Ret (st', err) \<longrightarrow> all_fit (snd st')", rotated], goal_cases)
  case (1 sm E svc r block perPage call page st res)
  show ?case
  proof (cases "ts_Wait svc call")
    case (Some e)
    with 1(2) show ?thesis by auto
  next
    case None
    note wait = this
    show ?thesis
    proof (cases "ts_GetTxsEvent svc call (txs_request (hh_Height r) perPage page)")
      case (Inl e)
      with wait 1(2) show ?thesis by (auto simp: request_sample_def)
    next
      case (Inr rs)
      let ?st = "(fst st, snd st @ [request_sample ''ok'', AddTo numberOfItemsTransactions (length (ge_Txs rs))])"
      let ?m = "for_go (page_step_metered E block (ge_TxResponses rs)) (enumerate 0 (ge_Txs rs)) ?st"
      show ?thesis
      proof (cases ?m)
        case (Ret x)
        obtain st1 err where x: "x = (st1, err)" by (cases x)
        show ?thesis
        proof (intro allI impI)
          fix st' err'
          assume "all_fit (snd st)" and res: "res = Ret (st', err')"
          then have fit: "all_fit (snd st1)" using page_loop_fits [OF Ret [unfolded x]] by (simp add: request_sample_def)
          have "snd st' = snd st1 \<or> sm E svc r block perPage (Suc call) (page + 1) st1 = Some res"
            using 1(2) res by (auto simp: wait Inr Ret x split: option.splits if_splits)
          then show "all_fit (snd st')"
          proof
            assume "sm E svc r block perPage (Suc call) (page + 1) st1 = Some res"
            from 1(1) [OF this] fit res show ?thesis by blast
          qed (simp add: fit)
        qed
      next
        case (Panic p)
        with 1(2) show ?thesis by (auto simp: wait Inr)
      qed
    qed
  qed
qed

text \<open>Claim C33: no metric is used against its declaration, which would stop the worker: no two metrics are registered under the
  same name, and every sample that an operation records, the failed ones included, has as many label values as its metric
  has tags.\<close>

theorem samples_fit_tags:
  "distinct (map metric_id (api_metrics @ client_metrics))
   \<and> all_fit (GetBlock_samples svc params s)
   \<and> (case SearchTx_metered E svc' r block perPage of Some (Ret ((_, ss), _)) \<Rightarrow> all_fit ss | _ \<Rightarrow> True)
   \<and> all_fit (sendResp_samples es) \<and> all_fit RegisterStream_samples \<and> all_fit (Run_samples ids evs)"
proof (intro conjI)
  show "distinct (map metric_id (api_metrics @ client_metrics))"
    by (simp add: metric_id_def api_metrics_def client_metrics_def conversionDuration_def rawRequestHTTPDuration_def
        rawRequestGRPCDuration_def numberOfItems_def numberOfItemsBlock_def unknownTransactions_def brokenTransactions_def
        endpointDuration_def newStreamsMetric_def receivedRequestsMetric_def sendResponseMetric_def)
  show "all_fit (GetBlock_samples svc params s)"
    by (auto simp: GetBlock_samples_def Let_def split: prod.splits sum.splits)
  show "case SearchTx_metered E svc' r block perPage of Some (Ret ((_, ss), _)) \<Rightarrow> all_fit ss | _ \<Rightarrow> True"
    using search_fits [of E svc' r block perPage 0 1 "(([], []), [AddTo numberOfItemsInBlock (unat (blk_NumberOfTransactions block))])"]
    by (auto simp: SearchTx_metered_def split: option.splits go.splits)
  show "all_fit (sendResp_samples es)" by (induction es rule: sendResp_samples.induct) simp_all
  show "all_fit RegisterStream_samples" by (simp add: RegisterStream_samples_def)
  show "all_fit (Run_samples ids evs)" by (induction ids evs rule: Run_samples.induct) (simp_all add: handler_samples_def)
qed

text \<open>The label \<open>final\<close> says \<open>yes\<close> for exactly the responses that are not final; the final one is not counted.\<close>

lemma send_loop_samples:
  assumes "send_loop enc rid n es = Some (rs, m, d)"
  shows "sendResp_samples es = map (\<lambda>r. Inc (WithLabels sendResponseMetric [tr_Type r, ''yes''])) rs \<and> list_all (Not \<circ> tr_Final) rs"
  using assms by (induction enc rid n es arbitrary: rs m d rule: send_loop.induct) (auto simp: task_response_def)

lemma final_label_always_yes:
  assumes "sendResp enc rid es fin = Some (rs, f)"
  shows "sendResp_samples es = map (\<lambda>r. Inc (WithLabels sendResponseMetric [tr_Type r, ''yes''])) (filter (Not \<circ> tr_Final) rs)
    \<and> filter tr_Final rs = [last rs]"
proof -
  from assms obtain ts m d where ts: "send_loop enc rid 0 es = Some (ts, m, d)" "rs = ts @ [end_response rid m]"
    by (auto simp: sendResp_def)
  from send_loop_samples [OF ts(1)] ts(2) show ?thesis
    by (auto simp: end_response_def list_all_iff filter_id_conv filter_empty_conv)
qed

text \<open>A block that is asked for by its height is timed once, unless the rate limiter refuses the call.\<close>

lemma GetBlock_samples_length:
  assumes "api_inv s" "hh_Height params \<noteq> 0"
  shows "length (GetBlock_samples svc params s) = (if bs_Wait svc (calls s) = None then 1 else 0)"
  using assms by (auto simp: GetBlock_samples_def Let_def Get_def api_inv_def Block0_def split: prod.splits sum.splits option.splits)

end
