(* ===== verification/Pipeline_Termination.thy ===== *)
theory Pipeline_Termination
  imports Pipeline_Progress
begin

text \<open>
  The machine of \<open>Pipeline\<close> does a bounded amount of work, whatever the schedule and whether heights fail or not. Every
  step lowers \<open>work\<close>: a round of the publisher pays for everything the height it publishes can cause, a response
  is worth four steps while its worker holds it, three in its channel, two when it waits for \<open>out\<close>, one in \<open>out\<close>. With the progress of
  \<open>Pipeline_Progress\<close> a range without failing heights is therefore always delivered completely.
\<close>

subsection \<open>What is left to do\<close>

definition weight :: "nat \<Rightarrow> (nat \<Rightarrow> 'a list) \<Rightarrow> nat" where
  "weight n f = (\<Sum>k \<le> n. length (f k))"

definition active :: "(nat \<Rightarrow> worker) \<Rightarrow> nat" where
  "active ws = (\<Sum>w < num_workers. if ws w = Exited then 0 else 1)"

definition round_work :: "GRPC \<Rightarrow> HeightRange \<Rightarrow> nat" where
  "round_work client hr = 4 * weight (last_lane hr) (lane_responses client hr) + 2"

definition pub_rank :: "HeightRange \<Rightarrow> pipe \<Rightarrow> nat" where
  "pub_rank hr s =
     3 * (last_lane hr - lanes s)
     + (case pub s of PubOut _ \<Rightarrow> 5 | PubIn _ \<Rightarrow> 4 | PubNext _ \<Rightarrow> 3 | PubLast \<Rightarrow> 2 | PubClose \<Rightarrow> 1 | PubDone \<Rightarrow> 0)"

definition coll_rank :: "collector \<Rightarrow> nat" where
  "coll_rank co =
     (case co of Collecting \<Rightarrow> 4 | Reading _ \<Rightarrow> 4 | Forwarding _ _ \<Rightarrow> 6 | Signalling _ \<Rightarrow> 6 | Reporting _ \<Rightarrow> 4 | Waiting _ \<Rightarrow> 2 | Purifying _ \<Rightarrow> 1 | Returned _ \<Rightarrow> 0)"

definition queued :: "GRPC \<Rightarrow> (nat \<times> uint64) list \<Rightarrow> nat" where
  "queued client q = (\<Sum>(k, h) \<leftarrow> q. 1 + 4 * length (height_responses client h))"

definition work :: "GRPC \<Rightarrow> HeightRange \<Rightarrow> pipe \<Rightarrow> nat" where
  "work client hr s =
     round_work client hr * pub_rank hr s + queued client (chIn s)
     + 4 * weight (last_lane hr) (todo s) + 3 * weight (last_lane hr) (resp_ch s)
     + length (outp s) + length (chOut s) + active (workers s) + coll_rank (coll s)"

primrec lane_upto :: "nat \<Rightarrow> hBTx \<Rightarrow> bool" where
  "lane_upto n (Lane k h) = (k \<le> n)"
| "lane_upto n LastHeight = True"

text \<open>Everything in flight belongs to a lane of the range; this holds after an error, too.\<close>

definition in_range :: "HeightRange \<Rightarrow> pipe \<Rightarrow> bool" where
  "in_range hr s \<longleftrightarrow>
     list_all (\<lambda>(k, h). k \<le> last_lane hr) (chIn s) \<and> (\<forall>w k. workers s w = Sending k \<longrightarrow> k \<le> last_lane hr)
     \<and> list_all (lane_upto (last_lane hr)) (chOut s) \<and> (\<forall>k r. coll s = Reading k \<or> coll s = Forwarding k r \<longrightarrow> k \<le> last_lane hr)"

lemma weight_upd:
  assumes "k \<le> n"
  shows "weight n (f(k := v)) + length (f k) = weight n f + length v"
proof -
  have "{..n} = insert k ({..n} - {k})" using assms by auto
  then show ?thesis unfolding weight_def by (simp add: sum.insert_if [of "{..n} - {k}" _ k] sum.remove [of "{..n}" k] assms)
qed

lemma weight_upd_le: "weight n (f(k := v)) \<le> weight n f + length v"
  using weight_upd [of k n f v] by (cases "k \<le> n") (auto simp: weight_def intro!: sum_mono)

lemma weight_drop: "weight n (f(k := [])) \<le> weight n f"
  using weight_upd_le [of n f k "[]"] by simp

lemma weight_member: "k \<le> n \<Longrightarrow> length (f k) \<le> weight n f"
  unfolding weight_def by (intro member_le_sum) auto

lemma active_upd:
  "active (ws(w := v)) \<le> active ws + (if w < num_workers \<and> v \<noteq> Exited \<and> ws w = Exited then 1 else 0)"
  unfolding active_def num_workers_def by (simp add: lessThan_nat_numeral)

lemma active_exit: "w < num_workers \<Longrightarrow> ws w \<noteq> Exited \<Longrightarrow> active (ws(w := Exited)) < active ws"
  unfolding active_def by (intro sum_strict_mono_ex1) auto

subsection \<open>Every step lowers it\<close>

lemma pub_rank_pays:
  assumes "pub_rank hr s' < pub_rank hr s" and "extra < round_work client hr"
  shows "round_work client hr * pub_rank hr s' + extra < round_work client hr * pub_rank hr s"
proof -
  have "round_work client hr * pub_rank hr s' + extra < round_work client hr * Suc (pub_rank hr s')" using assms(2) by simp
  also have "\<dots> \<le> round_work client hr * pub_rank hr s" using assms(1) by (intro mult_le_mono) auto
  finally show ?thesis .
qed

lemma publish_rank:
  assumes "populate_send hr s = Some s'" "pub_ok hr s" "proper_range hr"
  shows "pub_rank hr s' < pub_rank hr s"
  using assms last_lane_reached [of hr "lanes s"]
  by (auto simp: populate_send_def pub_rank_def pub_ok_def split: publisher.splits if_splits)

lemma publish_work:
  assumes "populate_send hr s = Some s'" "pub_ok hr s" "proper_range hr"
  shows "work client hr s' < work client hr s"
proof -
  have "\<exists>extra < round_work client hr. work client hr s' + round_work client hr * pub_rank hr s
      = work client hr s + round_work client hr * pub_rank hr s' + extra"
  proof (cases "\<exists>h. pub s = PubIn h")
    case True
    then obtain h where h: "pub s = PubIn h" by blast
    with assms(2) have "length (height_responses client h) \<le> weight (last_lane hr) (lane_responses client hr)"
      using weight_member [of "lanes s" "last_lane hr" "lane_responses client hr"] by (simp add: pub_ok_def lane_responses_def)
    with h assms(1) show ?thesis
      by (intro exI [of _ "1 + 4 * length (height_responses client h)"])
        (auto simp: populate_send_def work_def queued_def round_work_def split: if_splits)
  next
    case False
    with assms(1) show ?thesis
      by (intro exI [of _ "length (chOut s') - length (chOut s)"])
        (auto simp: populate_send_def work_def round_work_def split: publisher.splits if_splits)
  qed
  then obtain extra where "extra < round_work client hr" "work client hr s' + round_work client hr * pub_rank hr s
      = work client hr s + round_work client hr * pub_rank hr s' + extra" by blast
  with pub_rank_pays [OF publish_rank [OF assms], of extra client] show ?thesis by simp
qed

lemma interrupt_work:
  assumes "populate_interrupt s = Some s'"
  shows "work client hr s' < work client hr s"
proof -
  have "pub_rank hr s' < pub_rank hr s" "work client hr s' + round_work client hr * pub_rank hr s
      = work client hr s + round_work client hr * pub_rank hr s'"
    using assms by (auto simp: populate_interrupt_def recv_errored_def work_def pub_rank_def split: publisher.splits if_splits)
  with pub_rank_pays [of hr s' s 0 client] show ?thesis by (simp add: round_work_def)
qed

lemma take_work:
  assumes "worker_take client w s = Some s'"
  shows "work client hr s' < work client hr s"
proof (cases "chIn s")
  case Nil
  with assms have "s' = s\<lparr>workers := (workers s)(w := Exited)\<rparr>" "w < num_workers" "workers s w = Receiving"
    by (auto simp: worker_take_def split: if_splits)
  with active_exit [of w "workers s"] show ?thesis by (simp add: work_def pub_rank_def)
next
  case (Cons kh rest)
  obtain k h where "kh = (k, h)" by (cases kh)
  with Cons assms have s': "s' = s\<lparr>chIn := rest, workers := (workers s)(w := Sending k), todo := (todo s)(k := height_responses client h)\<rparr>"
    "workers s w = Receiving"
    by (auto simp: worker_take_def split: if_splits)
  have "weight (last_lane hr) ((todo s)(k := height_responses client h)) \<le> weight (last_lane hr) (todo s) + length (height_responses client h)"
    by (rule weight_upd_le)
  moreover have "active ((workers s)(w := Sending k)) \<le> active (workers s)" using active_upd [of "workers s" w "Sending k"] s'(2) by simp
  ultimately show ?thesis unfolding s' using Cons \<open>kh = (k, h)\<close> by (simp add: work_def pub_rank_def queued_def)
qed

lemma produce_work:
  assumes "worker_produce w s = Some s'" "in_range hr s"
  shows "work client hr s' < work client hr s"
  using assms(1)
proof (rule produce_cases)
  fix k r and rs :: "OutResp list"
  let ?v = "if is_error r then Exited else if rs = [] then Receiving else Sending k"
  assume w: "workers s w = Sending k" "todo s k = r # rs" and s': "s' = s\<lparr>resp_ch := (resp_ch s)(k := resp_ch s k @ [r]),
    todo := (todo s)(k := rs), workers := (workers s)(w := ?v)\<rparr>"
  from w(1) assms(2) have k: "k \<le> last_lane hr" by (simp add: in_range_def)
  have "active ((workers s)(w := ?v)) \<le> active (workers s)" using active_upd [of "workers s" w ?v] w(1) by simp
  with weight_upd [OF k, of "todo s" rs] weight_upd [OF k, of "resp_ch s" "resp_ch s k @ [r]"] w(2) show ?thesis
    unfolding s' by (simp add: work_def pub_rank_def)
qed

lemma collect_work:
  assumes "collect s = Some s'" "in_range hr s"
  shows "work client hr s' < work client hr s"
proof (cases "coll s")
  case (Reading k)
  with assms obtain r rs where buf: "resp_ch s k = r # rs" by (auto simp: collect_def split: list.splits)
  from Reading assms(2) have "k \<le> last_lane hr" by (simp add: in_range_def)
  from weight_upd [OF this, of "resp_ch s" rs] buf Reading assms(1) show ?thesis
    by (auto simp: collect_def work_def pub_rank_def coll_rank_def Let_def split: if_splits)
next
  case (Purifying e)
  with assms weight_drop [of "last_lane hr" "resp_ch s"] show ?thesis
    by (auto simp: collect_def work_def pub_rank_def coll_rank_def less_Suc_eq_le split: list.splits hBTx.splits)
qed (use assms in \<open>auto simp: collect_def work_def pub_rank_def coll_rank_def split: list.splits hBTx.splits if_splits\<close>)

lemma act_work:
  assumes "act client hr a s = Some s'" "pub_ok hr s" "proper_range hr" "in_range hr s"
  shows "work client hr s' < work client hr s"
  using assms publish_work interrupt_work take_work produce_work collect_work
  by (cases a) (auto simp: deliver_def work_def pub_rank_def split: list.splits)

lemma act_in_range:
  assumes "act client hr a s = Some s'" "pub_ok hr s" "in_range hr s"
  shows "in_range hr s'"
proof (cases a)
  case Publish
  with assms show ?thesis
    by (auto simp: populate_send_def in_range_def pub_ok_def split: publisher.splits if_splits)
next
  case Interrupt
  with assms show ?thesis
    by (auto simp: populate_interrupt_def recv_errored_def in_range_def split: publisher.splits if_splits)
next
  case (Take w)
  with assms show ?thesis by (auto simp: worker_take_def in_range_def split: if_splits list.splits)
next
  case (Produce w)
  with assms show ?thesis
    by (auto simp: worker_produce_def in_range_def split: if_splits list.splits worker.splits)
next
  case Collect
  with assms show ?thesis
    by (auto simp: collect_def in_range_def Let_def split: collector.splits if_splits list.splits hBTx.splits)
next
  case Deliver
  with assms show ?thesis by (auto simp: deliver_def in_range_def split: list.splits)
qed

lemma step_work:
  assumes "getRange client hr s s'" "pipe_inv client hr s" "in_range hr s" "proper_range hr"
  shows "work client hr s' < work client hr s \<and> pipe_inv client hr s' \<and> in_range hr s'"
proof -
  from assms(1) obtain a where a: "act client hr a s = Some s'" by (rule getRange_cases)
  from assms(2) have "pub_ok hr s" by (simp add: pipe_inv_def)
  with act_work [OF a] act_in_range [OF a] act_inv [OF a] assms show ?thesis by blast
qed

lemma init_in_range: "in_range hr (pipe_init hr)"
  by (simp add: in_range_def pipe_init_def)

lemma init_work:
  "work client hr (pipe_init hr) = round_work client hr * (3 * last_lane hr + 5) + 9"
  by (simp add: work_def pipe_init_def pub_rank_def queued_def weight_def active_def coll_rank_def num_workers_def)

lemma run_relpowp: "run client hr as s = Some t \<Longrightarrow> (getRange client hr ^^ length as) s t"
proof (induction as arbitrary: s)
  case (Cons a as)
  then obtain u where u: "act client hr a s = Some u" "run client hr as u = Some t" by (auto split: option.splits)
  from relpowp_Suc_I2 [OF getRange_step [OF u(1)] Cons.IH [OF u(2)]] show ?case by (simp only: list.size add_Suc_right add_0_right)
qed simp

interpretation bounded: terminating_system "\<lambda>s. s = pipe_init hr \<and> proper_range hr" "getRange client hr"
  "\<lambda>s. pipe_inv client hr s \<and> in_range hr s \<and> proper_range hr" "work client hr"
  using step_work init_in_range reachable_pipe_inv by unfold_locales blast+

lemma reachable_bounded:
  assumes "proper_range hr" and "(getRange client hr)\<^sup>*\<^sup>* (pipe_init hr) s"
  shows "pipe_inv client hr s \<and> in_range hr s \<and> proper_range hr"
  by (rule bounded.reachable_invariant [OF bounded.reachable_steps [OF reach_init assms(2)]]) (simp add: assms(1))

subsection \<open>Termination and completion\<close>

text \<open>Claim C9: a call of \<open>getRange\<close> cannot run forever: whatever the schedule of its goroutines, and whether heights fail
  or not, the number of their steps is bounded by the number of heights and of the responses they give rise to.\<close>

theorem getRange_terminates:
  assumes "proper_range hr" and "run client hr as (pipe_init hr) = Some s"
  shows "length as \<le> (4 * (\<Sum>k \<le> last_lane hr. length (lane_responses client hr k)) + 2) * (3 * last_lane hr + 5) + 9"
  using bounded.run_bounded [OF run_relpowp [OF assms(2)] reachable_bounded [OF assms(1) rtranclp.rtrancl_refl]]
  by (simp add: init_work round_work_def weight_def)

theorem getRange_terminates_witness:
  "length two_heights \<le> (4 * (\<Sum>k \<le> (1::nat). 2) + 2) * (3 * 1 + 5) + (9::nat)"
proof -
  let ?hr = "\<lparr>hr_StartHeight = 5, hr_EndHeight = 6\<rparr>"
  from two_heights_run obtain s where s: "run (sample_client {}) ?hr two_heights (pipe_init ?hr) = Some s" by blast
  from getRange_terminates [OF _ s] show ?thesis
    by (simp add: proper_range_def last_lane_def lane_responses_def sample_responses)
qed

lemma end_delivered:
  assumes "proper_range hr" and "(getRange client hr)\<^sup>*\<^sup>* (pipe_init hr) s" and "\<And>t. \<not> getRange client hr s t"
    and "\<And>k. k \<le> last_lane hr \<Longrightarrow> \<not> fails (lane_responses client hr k)"
  shows "coll s = Returned None \<and> sent s = in_order client hr (Suc (last_lane hr))"
proof -
  have "returned s" using not_stuck [OF assms(1,2) _ assms(4)] assms(3) by blast
  then obtain err where err: "coll s = Returned err" by (auto simp: returned_def split: collector.splits)
  have "\<not> failed_at client hr c r" for c r using assms(4) [of c] by (auto simp: failed_at_def fails_def)
  with reachable_pipe_inv [OF assms(1,2)] err have "err = None" "sent s @ outp s = in_order client hr (Suc (last_lane hr))"
    by (auto simp: pipe_inv_def outcome_def split: option.splits)
  moreover have "outp s = []" using can_deliver assms(3) by blast
  ultimately show ?thesis using err by simp
qed

lemma range_completes:
  assumes "proper_range hr" and "(getRange client hr)\<^sup>*\<^sup>* (pipe_init hr) s"
    and "\<And>k. k \<le> last_lane hr \<Longrightarrow> \<not> fails (lane_responses client hr k)"
  shows "(\<exists>t. (getRange client hr)\<^sup>*\<^sup>* s t \<and> coll t = Returned None \<and> sent t = in_order client hr (Suc (last_lane hr)))
    \<and> ((\<exists>t. getRange client hr s t) \<or> coll s = Returned None \<and> sent s = in_order client hr (Suc (last_lane hr)))"
proof -
  from bounded.reaches_end [OF reachable_bounded [OF assms(1,2)]]
  obtain t where t: "(getRange client hr)\<^sup>*\<^sup>* s t" "\<And>u. \<not> getRange client hr t u" by blast
  from assms(2) t(1) have "(getRange client hr)\<^sup>*\<^sup>* (pipe_init hr) t" by (rule rtranclp_trans)
  from end_delivered [OF assms(1) this t(2) assms(3)] t(1) end_delivered [OF assms(1,2) _ assms(3)] show ?thesis by blast
qed

text \<open>Claim C8: when no height of the range fails, the range is always delivered completely. From every state that
  \<open>getRange\<close> and its goroutines can be in, they can go on to a state in which \<open>getRange\<close> has returned without an error
  and the sender has received the blocks and transactions of all heights in order; and every state in which
  none of them can go on is such a state, so no schedule ends anywhere else.\<close>

theorem getRange_completes:
  assumes "proper_range hr" and "(getRange client hr)\<^sup>*\<^sup>* (pipe_init hr) s"
    and "\<And>k. k \<le> last_lane hr \<Longrightarrow> \<not> fails (lane_responses client hr k)"
  shows "(\<exists>t. (getRange client hr)\<^sup>*\<^sup>* s t \<and> coll t = Returned None \<and> sent t = in_order client hr (Suc (last_lane hr)))
    \<and> ((\<exists>t. getRange client hr s t) \<or> coll s = Returned None \<and> sent s = in_order client hr (Suc (last_lane hr)))"
  by (rule range_completes [OF assms])

theorem getRange_completes_witness:
  "\<exists>t. (getRange (sample_client {}) \<lparr>hr_StartHeight = 5, hr_EndHeight = 6\<rparr>)\<^sup>*\<^sup>* (pipe_init \<lparr>hr_StartHeight = 5, hr_EndHeight = 6\<rparr>) t
     \<and> coll t = Returned None"
proof -
  let ?hr = "\<lparr>hr_StartHeight = 5, hr_EndHeight = 6\<rparr>"
  have "proper_range ?hr" "\<And>k. \<not> fails (lane_responses (sample_client {}) ?hr k)"
    by (simp_all add: proper_range_def lane_responses_def sample_responses fails_def)
  from getRange_completes [OF this(1) rtranclp.rtrancl_refl this(2)] show ?thesis by blast
qed

end
