(* ===== verification/Pipeline_Cancel.thy ===== *)
theory Pipeline_Cancel
  imports Pipeline_Termination
begin

text \<open>
  The end of the context while a range is fetched. \<open>sendResp\<close> of \<^verbatim>\<open>src/client/client.go\<close> leaves its loop on
  \<open>ctx.Done()\<close> and receives no more; \<open>getRange\<close>, its workers and its publisher do not look at the context. A fetch looks at
  it: the limiter and the call of gRPC can fail from then on, so the heights that are heights_taken after the end are answered by
  another client, which is arbitrary. The machine of \<open>Pipeline\<close> is extended by what became of the context.
\<close>

subsection \<open>The machine with the context\<close>

datatype ending = CtxOpen | CtxEnded | SenderStopped

type_synonym cancellable = "pipe \<times> ending"

inductive cancel_step :: "GRPC \<Rightarrow> GRPC \<Rightarrow> HeightRange \<Rightarrow> cancellable \<Rightarrow> cancellable \<Rightarrow> bool" for client client' hr where
  goes_on: "act (if c = CtxOpen then client else client') hr a s = Some t \<Longrightarrow> a = Deliver \<longrightarrow> c \<noteq> SenderStopped
    \<Longrightarrow> cancel_step client client' hr (s, c) (t, c)"
| ctx_ends: "cancel_step client client' hr (s, CtxOpen) (s, CtxEnded)"
| sender_stops: "cancel_step client client' hr (s, CtxEnded) (s, SenderStopped)"

inductive_cases cancel_stepE: "cancel_step client client' hr (s, b) (t, c)"

inductive_simps cancel_step_stopped: "cancel_step client client' hr (s, SenderStopped) x"

lemma run_cancel:
  "run client hr as s = Some t \<Longrightarrow> (cancel_step client client' hr)\<^sup>*\<^sup>* (s, CtxOpen) (t, CtxOpen)"
proof (induction as arbitrary: s)
  case (Cons a as)
  then obtain u where u: "act client hr a s = Some u" "run client hr as u = Some t" by (auto split: option.splits)
  then have "cancel_step client client' hr (s, CtxOpen) (u, CtxOpen)" by (intro goes_on [where a = a]) simp_all
  with Cons.IH [OF u(2)] show ?case by (meson converse_rtranclp_into_rtranclp)
qed simp

lemma before_end:
  "(cancel_step client client' hr)\<^sup>*\<^sup>* (s, CtxOpen) y \<Longrightarrow> snd y = CtxOpen \<Longrightarrow> (getRange client hr)\<^sup>*\<^sup>* s (fst y)"
proof (induction rule: rtranclp_induct)
  case (step y z)
  from step(2,4) have "snd y = CtxOpen" "getRange client hr (fst y) (fst z)"
    by (cases y; cases z; auto elim!: cancel_stepE intro: getRange_step)+
  with step(3) show ?case by auto
qed simp

lemma after_end:
  "(cancel_step client client' hr)\<^sup>*\<^sup>* (s, c) y \<Longrightarrow> c \<noteq> CtxOpen \<Longrightarrow> snd y \<noteq> CtxOpen \<and> (getRange client' hr)\<^sup>*\<^sup>* s (fst y)"
proof (induction rule: rtranclp_induct)
  case (step y z)
  then have "snd y \<noteq> CtxOpen" "(getRange client' hr)\<^sup>*\<^sup>* s (fst y)" by simp_all
  moreover from step(2) this(1) have "snd z \<noteq> CtxOpen" "fst z = fst y \<or> getRange client' hr (fst y) (fst z)"
    by (cases y; cases z; auto elim!: cancel_stepE intro: getRange_step)+
  ultimately show ?case by auto
qed simp

text \<open>Nothing is sent once the sender has stopped, and it does not start again.\<close>

lemma act_sent: "act client hr a s = Some t \<Longrightarrow> a \<noteq> Deliver \<Longrightarrow> sent t = sent s"
  by (cases a; auto simp: populate_send_def populate_interrupt_def recv_errored_def worker_take_def worker_produce_def
      collect_def Let_def split: publisher.splits worker.splits list.splits collector.splits hBTx.splits if_splits)+

lemma stopped_frozen:
  "(cancel_step client client' hr)\<^sup>*\<^sup>* (s, SenderStopped) y \<Longrightarrow> snd y = SenderStopped \<and> sent (fst y) = sent s"
proof (induction rule: rtranclp_induct)
  case (step y z)
  then show ?case by (cases y) (auto simp: cancel_step_stopped act_sent)
qed simp

text \<open>\<open>out\<close> never holds more than its capacity.\<close>

lemma act_out_bounded: "act client hr a s = Some t \<Longrightarrow> length (outp s) \<le> out_cap \<Longrightarrow> length (outp t) \<le> out_cap"
  by (cases a; auto simp: populate_send_def populate_interrupt_def recv_errored_def worker_take_def worker_produce_def
      collect_def deliver_def Let_def split: publisher.splits worker.splits list.splits collector.splits hBTx.splits if_splits)+

lemma out_bounded: "(getRange client hr)\<^sup>*\<^sup>* (pipe_init hr) s \<Longrightarrow> length (outp s) \<le> out_cap"
proof (induction rule: rtranclp_induct)
  case base
  then show ?case by (simp add: pipe_init_def)
next
  case (step s t)
  then show ?case by (auto elim!: getRange_cases intro: act_out_bounded)
qed

subsection \<open>One client for the whole range\<close>

text \<open>The lanes before \<open>heights_taken s\<close> were taken by a worker, or left out after an error; the others are still to be taken.\<close>

definition heights_taken :: "pipe \<Rightarrow> nat" where
  "heights_taken s = (case chIn s of (k, h) # rest \<Rightarrow> k | [] \<Rightarrow> offered s)"

definition chIn_ok :: "HeightRange \<Rightarrow> pipe \<Rightarrow> bool" where
  "chIn_ok hr s \<longleftrightarrow>
     sorted_wrt (<) (map fst (chIn s)) \<and> (\<forall>(k, h) \<in> set (chIn s). h = lane_height hr k \<and> k < offered s)"

lemma chIn_ok_same:
  "chIn t = chIn s \<Longrightarrow> offered t = offered s \<Longrightarrow> chIn_ok hr t = chIn_ok hr s \<and> heights_taken t = heights_taken s"
  by (simp add: chIn_ok_def heights_taken_def split: list.split)

lemma heights_taken_offered: "chIn_ok hr s \<Longrightarrow> heights_taken s \<le> offered s"
  by (auto simp: chIn_ok_def heights_taken_def split: list.split)

lemma publish_chIn_ok:
  assumes "populate_send hr s = Some t" "chIn_ok hr s" "pub_ok hr s"
  shows "chIn_ok hr t \<and> heights_taken s \<le> heights_taken t"
proof (cases "\<exists>h. pub s = PubIn h")
  case True
  with assms(1,3) have t: "chIn t = chIn s @ [(lanes s, lane_height hr (lanes s))]" "offered t = Suc (offered s)" "offered s = lanes s"
    by (auto simp: populate_send_def offered_def pub_ok_def split: if_splits)
  have old: "k < lanes s" "h = lane_height hr k" if "(k, h) \<in> set (chIn s)" for k h
    using assms(2) that t(3) unfolding chIn_ok_def by auto
  have "sorted_wrt (<) (map fst (chIn s) @ [lanes s])"
    using assms(2) old(1) by (auto simp: chIn_ok_def sorted_wrt_append)
  moreover have "h = lane_height hr k \<and> k < offered t" if "(k, h) \<in> set (chIn t)" for k h
  proof -
    from that consider "(k, h) \<in> set (chIn s)" | "k = lanes s" "h = lane_height hr (lanes s)" by (auto simp: t(1))
    then show ?thesis by cases (use old [of k h] in \<open>simp_all add: t(2,3)\<close>)
  qed
  moreover have "map fst (chIn t) = map fst (chIn s) @ [lanes s]" by (simp add: t(1))
  ultimately have "chIn_ok hr t" unfolding chIn_ok_def by (simp only:) blast
  moreover have "heights_taken s \<le> heights_taken t" using t by (cases "chIn s") (auto simp: heights_taken_def)
  ultimately show ?thesis ..
next
  case False
  with assms(1) have "chIn t = chIn s" "offered t = offered s"
    by (auto simp: populate_send_def offered_def split: publisher.splits if_splits)
  with chIn_ok_same [of t s hr] assms(2) show ?thesis by simp
qed

lemma interrupt_chIn_ok:
  assumes "populate_interrupt s = Some t" "chIn_ok hr s"
  shows "chIn_ok hr t \<and> heights_taken s \<le> heights_taken t"
proof -
  from assms(1) have "chIn t = chIn s" "offered s \<le> offered t"
    by (auto simp: populate_interrupt_def recv_errored_def offered_def split: publisher.splits if_splits)
  moreover from this(2) assms(2) have "chIn_ok hr t"
    unfolding chIn_ok_def calculation(1) by (auto intro: order.strict_trans2)
  ultimately show ?thesis by (simp add: heights_taken_def split: list.split)
qed

lemma take_chIn_ok:
  assumes "worker_take client w s = Some t" "chIn_ok hr s"
  shows "chIn_ok hr t \<and> heights_taken s \<le> heights_taken t \<and> (chIn s \<noteq> [] \<longrightarrow> heights_taken s < heights_taken t)"
proof -
  from assms(1) have t: "offered t = offered s" "chIn t = tl (chIn s)"
    by (auto simp: worker_take_def offered_def split: if_splits list.splits)
  show ?thesis
  proof (cases "chIn s")
    case Nil
    with t assms(2) show ?thesis by (simp add: chIn_ok_def heights_taken_def)
  next
    case (Cons x xs)
    with t assms(2) have "chIn_ok hr t" by (simp add: chIn_ok_def)
    moreover have "heights_taken s < heights_taken t" using Cons t assms(2) by (cases xs) (auto simp: chIn_ok_def heights_taken_def)
    ultimately show ?thesis by simp
  qed
qed

lemma act_chIn_ok:
  assumes "act client hr a s = Some t" "chIn_ok hr s" "pub_ok hr s"
  shows "chIn_ok hr t \<and> heights_taken s \<le> heights_taken t"
proof (cases a)
  case (Produce w)
  with assms(1) have "chIn t = chIn s" "offered t = offered s"
    by (auto simp: worker_produce_def offered_def split: if_splits list.splits worker.splits)
  with chIn_ok_same [of t s hr] assms(2) show ?thesis by simp
next
  case Collect
  with assms(1) have "chIn t = chIn s" "offered t = offered s"
    by (auto simp: collect_def offered_def split: collector.splits if_splits list.splits hBTx.splits)
  with chIn_ok_same [of t s hr] assms(2) show ?thesis by simp
next
  case Deliver
  with assms(1) have "chIn t = chIn s" "offered t = offered s" by (auto simp: deliver_def offered_def split: list.splits)
  with chIn_ok_same [of t s hr] assms(2) show ?thesis by simp
next
  case Publish
  with assms show ?thesis by (intro publish_chIn_ok) simp_all
next
  case Interrupt
  with assms show ?thesis by (intro interrupt_chIn_ok) simp_all
next
  case (Take w)
  with assms take_chIn_ok [of client w s t hr] show ?thesis by simp
qed

lemma reachable_chIn_ok:
  assumes "proper_range hr" "(getRange client hr)\<^sup>*\<^sup>* (pipe_init hr) s"
  shows "chIn_ok hr s"
  using assms(2)
proof (induction rule: rtranclp_induct)
  case base
  then show ?case by (simp add: chIn_ok_def pipe_init_def)
next
  case (step s t)
  from step(2) obtain a where "act client hr a s = Some t" by (rule getRange_cases)
  moreover have "pub_ok hr s" using reachable_pipe_inv [OF assms(1) step(1)] by (simp add: pipe_inv_def)
  ultimately show ?case using act_chIn_ok step(3) by blast
qed

text \<open>A step depends on the client only for the height that is taken.\<close>

lemma act_client:
  assumes "\<And>k h rest. chIn s = (k, h) # rest \<Longrightarrow> height_responses client2 h = height_responses client h"
  shows "act client2 hr a s = act client hr a s"
  using assms by (cases a) (auto simp: worker_take_def split: list.split)

lemma run_with_other_client:
  assumes "proper_range hr" "(getRange client hr)\<^sup>*\<^sup>* (pipe_init hr) s"
    and "\<And>k. k < heights_taken s \<Longrightarrow> lane_responses client2 hr k = lane_responses client hr k"
  shows "(getRange client2 hr)\<^sup>*\<^sup>* (pipe_init hr) s"
  using assms(2,3)
proof (induction rule: rtranclp_induct)
  case (step s t)
  from step(2) obtain a where a: "act client hr a s = Some t" by (rule getRange_cases)
  have ok: "chIn_ok hr s" "pub_ok hr s"
    using reachable_chIn_ok [OF assms(1) step(1)] reachable_pipe_inv [OF assms(1) step(1)] by (simp_all add: pipe_inv_def)
  from act_chIn_ok [OF a ok] step(3,4) have run: "(getRange client2 hr)\<^sup>*\<^sup>* (pipe_init hr) s" by simp
  have "act client2 hr a s = Some t"
  proof (cases "\<exists>w. a = Take w")
    case True
    then obtain w where w: "a = Take w" by blast
    have "height_responses client2 h = height_responses client h" if q: "chIn s = (k, h) # rest" for k h rest
    proof -
      have "k < heights_taken t" using take_chIn_ok [of client w s t] a w ok(1) q by (simp add: heights_taken_def)
      moreover have "h = lane_height hr k" using ok(1) q by (simp add: chIn_ok_def)
      ultimately show ?thesis using step(4) [of k] by (simp add: lane_responses_def)
    qed
    with a act_client show ?thesis by metis
  next
    case False
    with a show ?thesis by (cases a) auto
  qed
  with run show ?case by (blast intro: rtranclp.rtrancl_into_rtrancl getRange_step)
qed simp

lemma height_responses_client:
  "g_GetBlock c (HeightHash_Height h) = g_GetBlock d (HeightHash_Height h) \<Longrightarrow>
    g_SearchTx c (HeightHash_Height h) = g_SearchTx d (HeightHash_Height h) \<Longrightarrow> height_responses c h = height_responses d h"
  by (simp only: height_responses_def blockAndTx_def)

text \<open>The client of a range in which the lanes before \<open>m\<close> are heights_taken before the context ends.\<close>

definition client_until :: "GRPC \<Rightarrow> GRPC \<Rightarrow> HeightRange \<Rightarrow> nat \<Rightarrow> GRPC" where
  "client_until client client' hr m =
     client\<lparr>g_GetBlock := (\<lambda>hh. if hh_Height hh \<in> lane_height hr ` {..<m} then g_GetBlock client hh else g_GetBlock client' hh),
            g_SearchTx := (\<lambda>hh b p. if hh_Height hh \<in> lane_height hr ` {..<m} then g_SearchTx client hh b p
                                   else g_SearchTx client' hh b p)\<rparr>"

lemma lane_height_inj:
  assumes "proper_range hr" "j \<le> last_lane hr" "k \<le> last_lane hr" "lane_height hr j = lane_height hr k"
  shows "j = k"
proof -
  have "unat (hr_EndHeight hr) + 1 < 2 ^ 64" "unat (hr_StartHeight hr) \<le> unat (hr_EndHeight hr)"
    using assms(1) by (simp_all add: proper_range_def word_le_nat_alt)
  then have "unat (lane_height hr i) = unat (hr_StartHeight hr) + i" if "i \<le> last_lane hr" for i
    using that by (simp add: lane_height_def last_lane_def unat_word_ariths unat_of_nat)
  with assms(2-4) show ?thesis by (metis add_left_cancel)
qed

lemma lane_responses_until:
  assumes "proper_range hr" "m \<le> Suc (last_lane hr)" "k \<le> last_lane hr"
  shows "lane_responses (client_until client client' hr m) hr k
    = (if k < m then lane_responses client hr k else lane_responses client' hr k)"
proof -
  have "lane_height hr k \<in> lane_height hr ` {..<m} \<longleftrightarrow> k < m"
  proof
    assume "lane_height hr k \<in> lane_height hr ` {..<m}"
    then obtain j where "j < m" "lane_height hr j = lane_height hr k" by auto
    with lane_height_inj [OF assms(1) _ assms(3), of j] assms(2) show "k < m" by simp
  qed simp
  moreover have "hh_Height (HeightHash_Height h) = h" for h by (simp add: HeightHash_Height_def)
  ultimately show ?thesis
    unfolding lane_responses_def by (auto intro!: height_responses_client simp: client_until_def)
qed

lemma heights_taken_bound:
  assumes "proper_range hr" "(getRange client hr)\<^sup>*\<^sup>* (pipe_init hr) s"
  shows "heights_taken s \<le> Suc (last_lane hr)"
proof -
  have "pub_ok hr s" using reachable_pipe_inv [OF assms] by (simp add: pipe_inv_def)
  then have "offered s \<le> Suc (last_lane hr)" by (auto simp: pub_ok_def offered_def split: publisher.splits)
  with heights_taken_offered [OF reachable_chIn_ok [OF assms]] show ?thesis by simp
qed

lemma act_after_end:
  assumes "proper_range hr" "(getRange client2 hr)\<^sup>*\<^sup>* (pipe_init hr) u" "m \<le> heights_taken u"
  shows "act (client_until client client' hr m) hr a u = act client' hr a u"
proof (rule act_client)
  fix k h rest assume q: "chIn u = (k, h) # rest"
  have ok: "chIn_ok hr u" "pub_ok hr u"
    using reachable_chIn_ok [OF assms(1,2)] reachable_pipe_inv [OF assms(1,2)] by (simp_all add: pipe_inv_def)
  then have "k \<le> last_lane hr" using q by (auto simp: chIn_ok_def pub_ok_def offered_def split: publisher.splits)
  moreover have "m \<le> k" "h = lane_height hr k" using assms(3) ok(1) q by (simp_all add: heights_taken_def chIn_ok_def)
  moreover have "m \<le> Suc (last_lane hr)" using heights_taken_bound [OF assms(1,2)] assms(3) by simp
  ultimately show "height_responses (client_until client client' hr m) h = height_responses client' h"
    using lane_responses_until [OF assms(1), of m k client client'] by (simp add: lane_responses_def)
qed

text \<open>The range is one of that client, from its begin through the end of the context to any later state.\<close>

definition ended :: "GRPC \<Rightarrow> HeightRange \<Rightarrow> nat \<Rightarrow> pipe \<Rightarrow> bool" where
  "ended whole hr m u \<longleftrightarrow> (getRange whole hr)\<^sup>*\<^sup>* (pipe_init hr) u \<and> m \<le> heights_taken u"

lemma ended_step:
  assumes "proper_range hr" "ended (client_until client client' hr m) hr m u" "getRange client' hr u v"
  shows "ended (client_until client client' hr m) hr m v \<and> getRange (client_until client client' hr m) hr u v"
proof -
  from assms(2) have u: "(getRange (client_until client client' hr m) hr)\<^sup>*\<^sup>* (pipe_init hr) u" "m \<le> heights_taken u"
    by (simp_all add: ended_def)
  from assms(3) obtain a where a: "act client' hr a u = Some v" by (rule getRange_cases)
  have ok: "chIn_ok hr u" "pub_ok hr u"
    using reachable_chIn_ok [OF assms(1) u(1)] reachable_pipe_inv [OF assms(1) u(1)] by (simp_all add: pipe_inv_def)
  have "getRange (client_until client client' hr m) hr u v"
    using a act_after_end [OF assms(1) u] by (intro getRange_step) simp
  with u act_chIn_ok [OF a ok] show ?thesis by (auto simp: ended_def)
qed

lemma through_end:
  assumes "proper_range hr" "(cancel_step client client' hr)\<^sup>*\<^sup>* (pipe_init hr, CtxOpen) (s, CtxOpen)"
    and "(cancel_step client client' hr)\<^sup>*\<^sup>* (s, CtxEnded) (u, c)"
  shows "ended (client_until client client' hr (heights_taken s)) hr (heights_taken s) u"
proof -
  have reach: "(getRange client hr)\<^sup>*\<^sup>* (pipe_init hr) s" using before_end [OF assms(2)] by simp
  have bound: "heights_taken s \<le> Suc (last_lane hr)" by (rule heights_taken_bound [OF assms(1) reach])
  have "(getRange (client_until client client' hr (heights_taken s)) hr)\<^sup>*\<^sup>* (pipe_init hr) s"
    by (rule run_with_other_client [OF assms(1) reach]) (use bound lane_responses_until [OF assms(1) bound] in simp)
  then have start: "ended (client_until client client' hr (heights_taken s)) hr (heights_taken s) s" by (simp add: ended_def)
  have "(getRange client' hr)\<^sup>*\<^sup>* s u" using after_end [OF assms(3)] by simp
  then show ?thesis
    by (induction rule: rtranclp_induct) (rule start, use ended_step [OF assms(1)] in blast)
qed

subsection \<open>What is left must fit into \<open>out\<close>\<close>

abbreviation range_length :: "GRPC \<Rightarrow> HeightRange \<Rightarrow> nat" where
  "range_length client hr \<equiv> length (in_order client hr (Suc (last_lane hr)))"

lemma awaiting_more:
  assumes "pipe_inv client hr s" "awaits_sender s"
  shows "length (sent s) + out_cap < range_length client hr"
proof -
  from assms(2) obtain k r where s: "coll s = Forwarding k r" "out_cap \<le> length (outp s)" by (auto simp: awaits_sender_def)
  with assms(1) obtain t rd where live: "live client hr k (Suc k) t rd (put_out r s)" "k \<le> last_lane hr"
    by (auto simp: pipe_inv_def dest: pushed_bound)
  then have "rd @ resp_ch s k @ (if k < t then todo s k else lane_responses client hr k) = lane_responses client hr k"
    by (auto simp: live_def lanes_ok_def lane_ok_def)
  moreover from live have "\<forall>x \<in> set rd. \<not> is_partial x" "sent s @ outp s @ [r] = in_order client hr k @ rd"
    by (simp_all add: live_def lanes_ok_def)
  ultimately have "prefix (sent s @ outp s @ [r]) (in_order client hr (Suc (last_lane hr)))"
    using in_order_part [of rd _ client hr k] live(2) by simp
  then show ?thesis using s(2) by (auto dest: prefix_length_le)
qed

text \<open>When what is left fits, the others finish without the sender.\<close>

lemma stopped_not_stuck:
  assumes "proper_range hr" and "ended (client_until client client' hr m) hr m u" and "\<not> returned u"
    and "\<And>k. k \<le> last_lane hr \<Longrightarrow> \<not> fails (lane_responses (client_until client client' hr m) hr k)"
    and "range_length (client_until client client' hr m) hr \<le> length (sent u) + out_cap"
  shows "\<exists>v. cancel_step client client' hr (u, SenderStopped) (v, SenderStopped) \<and> getRange client' hr u v"
proof -
  let ?C = "client_until client client' hr m"
  have reach: "(getRange ?C hr)\<^sup>*\<^sup>* (pipe_init hr) u" and m: "m \<le> heights_taken u" using assms(2) by (simp_all add: ended_def)
  have "\<not> awaits_sender u" using awaiting_more [OF reachable_pipe_inv [OF assms(1) reach]] assms(5) by fastforce
  with moves_or_awaits [OF assms(1) reach assms(3,4)] obtain a v where a: "a \<noteq> Deliver" "act ?C hr a u = Some v"
    unfolding moves_def by blast
  then have "act client' hr a u = Some v" using act_after_end [OF assms(1) reach m, of client client' a] by simp
  with a(1) show ?thesis by (intro exI [of _ v] conjI goes_on [where a = a] getRange_step) simp_all
qed

lemma returned_result:
  assumes "proper_range hr" and "(getRange client hr)\<^sup>*\<^sup>* (pipe_init hr) s" and "returned s" and "n \<le> Suc (last_lane hr)"
    and "\<And>k. k < n \<Longrightarrow> \<not> fails (lane_responses client hr k)"
  shows "length (in_order client hr n) \<le> length (sent s @ outp s) \<and> (n = Suc (last_lane hr) \<longrightarrow> coll s = Returned None)"
proof -
  from assms(3) obtain e where e: "coll s = Returned e" by (auto simp: returned_def split: collector.splits)
  have inv: "pipe_inv client hr s" by (rule reachable_pipe_inv [OF assms(1,2)])
  show ?thesis
  proof (cases e)
    case None
    with inv e have "sent s @ outp s = in_order client hr (Suc (last_lane hr))" by (simp add: pipe_inv_def outcome_def)
    with e None in_order_prefix [OF assms(4), of client hr] show ?thesis by (auto dest: prefix_length_le)
  next
    case (Some x)
    with inv e obtain c r where c: "failed_at client hr c r" "sent s @ outp s = in_order client hr c @ [r]"
      by (auto simp: pipe_inv_def outcome_def)
    then have "fails (lane_responses client hr c)" "c \<le> last_lane hr" by (simp_all add: failed_at_def fails_def)
    with assms(5) [of c] have "n \<le> c" by (meson not_le)
    with c(2) \<open>c \<le> last_lane hr\<close> in_order_prefix [of n c client hr] show ?thesis by (auto dest!: prefix_length_le)
  qed
qed

lemma stopped_returns:
  assumes "proper_range hr" and "\<And>k. k \<le> last_lane hr \<Longrightarrow> \<not> fails (lane_responses (client_until client client' hr m) hr k)"
    and "ended (client_until client client' hr m) hr m u"
    and "range_length (client_until client client' hr m) hr \<le> length (sent u) + out_cap"
  shows "\<exists>t. (cancel_step client client' hr)\<^sup>*\<^sup>* (u, SenderStopped) (t, SenderStopped) \<and> coll t = Returned None"
  using assms(3,4)
proof (induction "work (client_until client client' hr m) hr u" arbitrary: u rule: less_induct)
  case less
  let ?C = "client_until client client' hr m"
  have reach: "(getRange ?C hr)\<^sup>*\<^sup>* (pipe_init hr) u" using less.prems(1) by (simp add: ended_def)
  show ?case
  proof (cases "returned u")
    case True
    with returned_result [OF assms(1) reach True order.refl] assms(2) have "coll u = Returned None" by simp
    then show ?thesis by blast
  next
    case False
    from stopped_not_stuck [OF assms(1) less.prems(1) False assms(2) less.prems(2)]
    obtain v where v: "cancel_step client client' hr (u, SenderStopped) (v, SenderStopped)" "getRange client' hr u v" by blast
    from ended_step [OF assms(1) less.prems(1) v(2)] have e: "ended ?C hr m v" "getRange ?C hr u v" by simp_all
    have "work ?C hr v < work ?C hr u" using step_work [OF e(2)] reachable_bounded [OF assms(1) reach] by blast
    moreover have "sent v = sent u"
      using stopped_frozen [OF r_into_rtranclp [where r = "cancel_step client client' hr", OF v(1)]] by simp
    ultimately obtain t where "(cancel_step client client' hr)\<^sup>*\<^sup>* (v, SenderStopped) (t, SenderStopped)" "coll t = Returned None"
      using less.hyps [of v] e(1) less.prems(2) by auto
    with v(1) show ?thesis by (meson converse_rtranclp_into_rtranclp)
  qed
qed

text \<open>Claim C20: the end of the context while a range is fetched. Let the context end in \<open>s\<close> and the sender stop in \<open>u\<close>; the heights
  that were not taken by a worker in \<open>s\<close> are answered by any other client from then on, in particular by one that always
  fails. If the responses of the first \<open>n\<close> heights, none of which failed, are more than what was sent and the 201
  places of \<open>out\<close>, then \<open>getRange\<close> never returns, in no schedule: it waits for room in a channel that nobody reads, and the
  goroutine of \<open>Run\<close> that called it is lost. If no height fails at all and what is left fits, it can go on to return
  without an error and cannot get stuck before.\<close>

theorem cancelled_returns_iff_fits:
  assumes "proper_range hr" and "(cancel_step client client' hr)\<^sup>*\<^sup>* (pipe_init hr, CtxOpen) (s, CtxOpen)"
    and "(cancel_step client client' hr)\<^sup>*\<^sup>* (s, CtxEnded) (u, SenderStopped)"
    and "whole = client_until client client' hr (heights_taken s)"
    and "n \<le> Suc (last_lane hr)" and "\<And>k. k < n \<Longrightarrow> \<not> fails (lane_responses whole hr k)"
  shows "(length (sent u) + out_cap < length (in_order whole hr n) \<longrightarrow>
        (\<forall>t. (cancel_step client client' hr)\<^sup>*\<^sup>* (u, SenderStopped) (t, SenderStopped) \<longrightarrow> \<not> returned t))
    \<and> (n = Suc (last_lane hr) \<and> length (in_order whole hr n) \<le> length (sent u) + out_cap \<longrightarrow>
        (\<exists>t. (cancel_step client client' hr)\<^sup>*\<^sup>* (u, SenderStopped) (t, SenderStopped) \<and> coll t = Returned None)
        \<and> (returned u \<or> (\<exists>t. cancel_step client client' hr (u, SenderStopped) (t, SenderStopped))))"
proof (intro conjI impI allI)
  have u: "ended whole hr (heights_taken s) u" unfolding assms(4) by (rule through_end [OF assms(1-3)])
  show "\<not> returned t" if more: "length (sent u) + out_cap < length (in_order whole hr n)"
    and t: "(cancel_step client client' hr)\<^sup>*\<^sup>* (u, SenderStopped) (t, SenderStopped)" for t
  proof
    assume ret: "returned t"
    from assms(3) t have "(cancel_step client client' hr)\<^sup>*\<^sup>* (s, CtxEnded) (t, SenderStopped)" by (rule rtranclp_trans)
    from through_end [OF assms(1,2) this] have reach: "(getRange whole hr)\<^sup>*\<^sup>* (pipe_init hr) t"
      by (simp add: ended_def assms(4))
    from returned_result [OF assms(1) reach ret assms(5,6)] have "length (in_order whole hr n) \<le> length (sent t) + length (outp t)"
      by simp
    with out_bounded [OF reach] stopped_frozen [OF t] more show False by simp
  qed
  assume fits: "n = Suc (last_lane hr) \<and> length (in_order whole hr n) \<le> length (sent u) + out_cap"
  have ok: "\<not> fails (lane_responses (client_until client client' hr (heights_taken s)) hr k)" if "k \<le> last_lane hr" for k
    using assms(6) [of k] that fits by (simp add: assms(4))
  note fit = u [unfolded assms(4)] fits [unfolded assms(4)]
  show "\<exists>t. (cancel_step client client' hr)\<^sup>*\<^sup>* (u, SenderStopped) (t, SenderStopped) \<and> coll t = Returned None"
    by (rule stopped_returns [OF assms(1) ok fit(1)]) (use fit(2) in auto)
  show "returned u \<or> (\<exists>t. cancel_step client client' hr (u, SenderStopped) (t, SenderStopped))"
    using stopped_not_stuck [OF assms(1) fit(1) _ ok] fit(2) by blast
qed

text \<open>A client with 250 transactions in every block; the context ends, and every fetch fails, when a worker has taken the height.\<close>

definition busy_client :: GRPC where
  "busy_client = (sample_client {})\<lparr>
     g_GetBlock := (\<lambda>hh. (Block0\<lparr>blk_Height := hh_Height hh, blk_NumberOfTransactions := 250\<rparr>, None)),
     g_SearchTx := (\<lambda>hh b p. (replicate 250 Transaction0, None))\<rparr>"

lemma busy_responses:
  "height_responses busy_client h =
     (let b = Block0\<lparr>blk_Height := h, blk_NumberOfTransactions := 250\<rparr>
      in block_resp b # replicate 250 (transaction_resp Transaction0) @ [partial_resp b])"
  by (simp add: height_responses_def blockAndTx_def busy_client_def HeightHash_Height_def Let_def)

lemma busy_lane:
  "length (content (lane_responses busy_client hr k)) = 251" "\<not> fails (lane_responses busy_client hr k)"
  by (simp_all add: lane_responses_def busy_responses Let_def content_def filter_replicate fails_def
      list_ex_iff is_partial_def is_error_def block_resp_def transaction_resp_def partial_resp_def)

theorem cancelled_returns_iff_fits_witness:
  "\<exists>s. (cancel_step busy_client (sample_client UNIV) \<lparr>hr_StartHeight = 5, hr_EndHeight = 6\<rparr>)\<^sup>*\<^sup>*
        (pipe_init \<lparr>hr_StartHeight = 5, hr_EndHeight = 6\<rparr>, CtxOpen) (s, SenderStopped)
     \<and> {t. (cancel_step busy_client (sample_client UNIV) \<lparr>hr_StartHeight = 5, hr_EndHeight = 6\<rparr>)\<^sup>*\<^sup>*
           (s, SenderStopped) (t, SenderStopped) \<and> returned t} = {}"
proof -
  let ?hr = "\<lparr>hr_StartHeight = 5, hr_EndHeight = 6\<rparr>" and ?F = "sample_client UNIV"
  let ?steps = "cancel_step busy_client ?F ?hr"
  obtain s where s: "run busy_client ?hr [Publish, Publish, Take 0] (pipe_init ?hr) = Some s" "chIn s = []" "offered s = 1" "sent s = []"
    by (simp add: pipe_init_def populate_send_def worker_take_def hbtx_cap_def num_workers_def offered_def)
  have m: "heights_taken s = 1" using s(2,3) by (simp add: heights_taken_def)
  have hr: "proper_range ?hr" "last_lane ?hr = 1" by (simp_all add: proper_range_def last_lane_def)
  have steps: "?steps\<^sup>*\<^sup>* (pipe_init ?hr, CtxOpen) (s, CtxOpen)" by (rule run_cancel [OF s(1)])
  have stop: "?steps\<^sup>*\<^sup>* (s, CtxEnded) (s, SenderStopped)" by (intro r_into_rtranclp) (rule sender_stops)
  let ?whole = "client_until busy_client ?F ?hr (heights_taken s)"
  have lane: "lane_responses ?whole ?hr 0 = lane_responses busy_client ?hr 0"
    using lane_responses_until [OF hr(1), of "heights_taken s" 0 busy_client ?F] by (simp add: m)
  then have "length (in_order ?whole ?hr 1) = 251" by (simp add: in_order_def busy_lane)
  moreover have "\<not> fails (lane_responses ?whole ?hr k)" if "k < 1" for k using that lane busy_lane(2) by simp
  ultimately have never: "\<forall>t. ?steps\<^sup>*\<^sup>* (s, SenderStopped) (t, SenderStopped) \<longrightarrow> \<not> returned t"
    using cancelled_returns_iff_fits [OF hr(1) steps stop refl, of 1] s(4) by (simp add: out_cap_def)
  have "?steps (s, CtxOpen) (s, CtxEnded)" by (rule ctx_ends)
  with steps stop have "?steps\<^sup>*\<^sup>* (pipe_init ?hr, CtxOpen) (s, SenderStopped)"
    by (meson rtranclp.rtrancl_into_rtrancl rtranclp_trans)
  with never show ?thesis by (intro exI [of _ s]) auto
qed

end
