(* ===== verification/Pipeline_Pool.thy ===== *)
theory Pipeline_Pool
  imports Pipeline_Progress Pools
begin

text \<open>
  \<open>getRange\<close> with the pool its response channels come from. In \<open>Pipeline\<close> every round of the publisher has a channel of its
  own, a lane; in \<^verbatim>\<open>src/client/client.go\<close> a round takes a channel out of the pool of \<^verbatim>\<open>src/client/pool.go\<close>, \<open>getRange\<close>
  puts it back after the last response of the height, and the other goroutines of \<open>Run\<close> use the same pool at the same
  time. Here the channel operations go to the store of the pool, and the steps of the others are any that keep the pool in order
  and leave alone the channels that this range holds. Up to the first error the two machines are shown to do the same.
\<close>

subsection \<open>The machine with the pool\<close>

text \<open>\<open>ref\<close>: the field \<open>Ch\<close> of each round's \<open>hBTx\<close>; \<open>got\<close>: whether the publisher has its channel for the round; \<open>held\<close>: the
  rounds whose channel was taken and not put back, which is only recorded and never read.\<close>

record pooled =
  pl :: pipe
  pp :: "OutResp pool"
  ref :: "nat \<Rightarrow> chan_ref"
  got :: bool
  held :: "nat set"

definition pooled_init :: "HeightRange \<Rightarrow> OutResp pool \<Rightarrow> pooled" where
  "pooled_init hr p = \<lparr>pl = pipe_init hr, pp = p, ref = (\<lambda>_. None), got = False, held = {}\<rparr>"

definition lane_chan :: "pooled \<Rightarrow> nat \<Rightarrow> OutResp chan option" where
  "lane_chan s k = (case ref s k of None \<Rightarrow> None | Some i \<Rightarrow> chan_at (pp s) i)"

definition set_chan :: "nat \<Rightarrow> OutResp chan \<Rightarrow> pooled \<Rightarrow> pooled" where
  "set_chan k c s =
     (case ref s k of None \<Rightarrow> s | Some i \<Rightarrow> s\<lparr>pp := (pp s)\<lparr>chan_at := (chan_at (pp s))(i \<mapsto> c)\<rparr>\<rparr>)"

text \<open>A step that does not touch a response channel.\<close>

definition lifted :: "pipe option \<Rightarrow> pooled \<Rightarrow> pooled blocking" where
  "lifted r s = Ret (map_option (\<lambda>x. s\<lparr>pl := x\<rparr>) r)"

definition with_lane :: "nat \<Rightarrow> chan_ref \<Rightarrow> OutResp pool \<Rightarrow> pooled \<Rightarrow> pooled" where
  "with_lane k r p s = s\<lparr>pp := p, ref := (ref s)(k := r), got := True, held := insert k (held s)\<rparr>"

definition pool_publish :: "HeightRange \<Rightarrow> pooled \<Rightarrow> pooled blocking" where
  "pool_publish hr s =
     (case pub (pl s) of
        PubOut h \<Rightarrow>
          if got s then lifted (populate_send hr (pl s)) s
          else Ret (map_option (\<lambda>(r, p). with_lane (lanes (pl s)) r p s) (outRespPool_Get (pp s)))
      | PubNext h \<Rightarrow> lifted (populate_send hr (pl s)) (s\<lparr>got := False\<rparr>)
      | _ \<Rightarrow> lifted (populate_send hr (pl s)) s)"

definition pool_interrupt :: "pooled \<Rightarrow> pooled blocking" where
  "pool_interrupt s =
     (case pub (pl s) of
        PubOut h \<Rightarrow> if got s then lifted (populate_interrupt (pl s)) s else Ret None
      | _ \<Rightarrow> lifted (populate_interrupt (pl s)) s)"

definition pool_produce :: "nat \<Rightarrow> pooled \<Rightarrow> pooled blocking" where
  "pool_produce w s =
     (if w < num_workers then
        (case workers (pl s) w of
           Sending k \<Rightarrow>
             (case (todo (pl s) k, lane_chan s k) of
                (r # rs, Some c) \<Rightarrow>
                  bind_blocking (chan_send r c) (\<lambda>c'.
                    Ret (Some ((set_chan k c' s)\<lparr>pl := (pl s)\<lparr>todo := (todo (pl s))(k := rs),
                      workers := (workers (pl s))(w := if is_error r then Exited
                                                       else if rs = [] then Receiving else Sending k)\<rparr>\<rparr>)))
              | _ \<Rightarrow> Ret None)
         | _ \<Rightarrow> Ret None)
      else Ret None)"

text \<open>Putting back the channel of a round; the end of \<open>INNER_LOOP\<close>, which a closed channel ends as well.\<close>

definition give_back :: "nat \<Rightarrow> pooled \<Rightarrow> pooled go" where
  "give_back k s = bind_go (outRespPool_Put (ref s k) (pp s)) (\<lambda>p. Ret (s\<lparr>pp := p, held := held s - {k}\<rparr>))"

definition finish_round :: "nat \<Rightarrow> pooled \<Rightarrow> pooled blocking" where
  "finish_round k s = bind_go (give_back k s) (\<lambda>t. Ret (Some (t\<lparr>pl := (pl s)\<lparr>coll := Collecting\<rparr>\<rparr>)))"

definition pool_collect :: "pooled \<Rightarrow> pooled blocking" where
  "pool_collect s =
     (case coll (pl s) of
        Reading k \<Rightarrow>
          (case lane_chan s k of
             None \<Rightarrow> Ret None
           | Some c \<Rightarrow>
               (case chan_recv c of
                  None \<Rightarrow> Ret None
                | Some (None, c') \<Rightarrow> finish_round k s
                | Some (Some r, c') \<Rightarrow>
                    if is_partial r then finish_round k (set_chan k c' s)
                    else Ret (Some ((set_chan k c' s)\<lparr>pl := (pl s)\<lparr>coll := if is_error r then Signalling r else Forwarding k r\<rparr>\<rparr>))))
      | Purifying e \<Rightarrow>
          (case chOut (pl s) of
             Lane k h # rest \<Rightarrow>
               (case outRespDrain (ref s k) (pp s) of
                  None \<Rightarrow> Ret None
                | Some p \<Rightarrow> bind_go (give_back k (s\<lparr>pp := p\<rparr>)) (\<lambda>t. Ret (Some (t\<lparr>pl := (pl s)\<lparr>chOut := rest\<rparr>\<rparr>))))
           | LastHeight # rest \<Rightarrow>
               bind_go (outRespPool_Put None (pp s)) (\<lambda>p. Ret (Some (s\<lparr>pp := p, pl := (pl s)\<lparr>chOut := rest\<rparr>\<rparr>)))
           | [] \<Rightarrow> lifted (collect (pl s)) s)
      | _ \<Rightarrow> lifted (collect (pl s)) s)"

primrec pool_act :: "GRPC \<Rightarrow> HeightRange \<Rightarrow> action \<Rightarrow> pooled \<Rightarrow> pooled blocking" where
  "pool_act client hr Publish s = pool_publish hr s"
| "pool_act client hr Interrupt s = pool_interrupt s"
| "pool_act client hr (Take w) s = lifted (worker_take client w (pl s)) s"
| "pool_act client hr (Produce w) s = pool_produce w s"
| "pool_act client hr Collect s = pool_collect s"
| "pool_act client hr Deliver s = lifted (deliver (pl s)) s"

subsection \<open>Sharing the pool\<close>

text \<open>What the others may do to the channels in \<open>X\<close>, given that they keep the pool in order: nothing.\<close>

definition all_caps :: "'a pool \<Rightarrow> bool" where
  "all_caps p \<longleftrightarrow> (\<forall>i c. chan_at p i = Some c \<longrightarrow> ch_cap c = resp_cap)"

definition rely :: "nat set \<Rightarrow> OutResp pool \<Rightarrow> OutResp pool \<Rightarrow> bool" where
  "rely X p p' \<longleftrightarrow> pool_inv p' \<and> all_caps p' \<and> (\<forall>i \<in> X. i \<notin> idle p' \<and> chan_at p' i = chan_at p i)"

definition ours :: "pooled \<Rightarrow> nat set" where
  "ours s = {i. \<exists>k \<in> held s. ref s k = Some i}"

text \<open>What a step guarantees to the others: it keeps the pool in order, leaves alone every channel that was made and is
  neither ours nor in the pool, and does not take it.\<close>

definition guarantee :: "pooled \<Rightarrow> pooled \<Rightarrow> bool" where
  "guarantee s t \<longleftrightarrow>
     (\<forall>X. X \<inter> ours s = {} \<and> X \<inter> idle (pp s) = {} \<and> X \<subseteq> dom (chan_at (pp s)) \<longrightarrow>
        rely X (pp s) (pp t) \<and> X \<inter> ours t = {})"

inductive pool_step :: "GRPC \<Rightarrow> HeightRange \<Rightarrow> pooled \<Rightarrow> pooled \<Rightarrow> bool" for client hr where
  own_step: "pool_act client hr a s = Ret (Some t) \<Longrightarrow> pool_step client hr s t"
| others_step: "rely (ours s) (pp s) p \<Longrightarrow> pool_step client hr s (s\<lparr>pp := p\<rparr>)"

text \<open>The machine of \<open>Pipeline\<close> that is seen: the buffer of a lane is that of the channel held for it.\<close>

definition lane_buf :: "pooled \<Rightarrow> nat \<Rightarrow> OutResp list" where
  "lane_buf s k = (if k \<in> held s then (case lane_chan s k of None \<Rightarrow> [] | Some c \<Rightarrow> ch_buf c) else [])"

definition seen :: "pooled \<Rightarrow> pipe" where
  "seen s = (pl s)\<lparr>resp_ch := lane_buf s\<rparr>"

definition owns :: "pooled \<Rightarrow> bool" where
  "owns s \<longleftrightarrow> pool_inv (pp s) \<and> all_caps (pp s) \<and> inj_on (ref s) (held s) \<and>
     (\<forall>k \<in> held s. \<exists>i c. ref s k = Some i \<and> i \<notin> idle (pp s) \<and> chan_at (pp s) i = Some c \<and> \<not> ch_closed c)"

text \<open>The lanes that are held: from the first that is not forwarded completely to the last that was begun.\<close>

definition queued_lanes :: "pipe \<Rightarrow> nat" where
  "queued_lanes x = length (filter (\<lambda>y. y \<noteq> LastHeight) (chOut x))"

definition first_lane :: "pipe \<Rightarrow> nat" where
  "first_lane x = (case coll x of Reading k \<Rightarrow> k | Forwarding k r \<Rightarrow> k | _ \<Rightarrow> pushed x - queued_lanes x)"

definition begun :: "pooled \<Rightarrow> nat" where
  "begun s = pushed (pl s) + (case pub (pl s) of PubOut h \<Rightarrow> if got s then 1 else 0 | _ \<Rightarrow> 0)"

definition holds_lanes :: "pooled \<Rightarrow> bool" where
  "holds_lanes s \<longleftrightarrow> held s = {first_lane (pl s)..<begun s}"

definition unsettled :: "pooled \<Rightarrow> bool" where
  "unsettled s \<longleftrightarrow> (case coll (pl s) of Collecting \<Rightarrow> True | Reading k \<Rightarrow> True | Forwarding k r \<Rightarrow> True | _ \<Rightarrow> False)"

subsection \<open>Steps that do not touch a response channel\<close>

lemma frame_publish: "populate_send hr (x\<lparr>resp_ch := R\<rparr>) = map_option (\<lambda>y. y\<lparr>resp_ch := R\<rparr>) (populate_send hr x)"
  by (cases "pub x") (simp_all add: populate_send_def)

lemma frame_interrupt: "populate_interrupt (x\<lparr>resp_ch := R\<rparr>) = map_option (\<lambda>y. y\<lparr>resp_ch := R\<rparr>) (populate_interrupt x)"
  by (cases "pub x") (simp_all add: populate_interrupt_def recv_errored_def returned_def)

lemma frame_take: "worker_take client w (x\<lparr>resp_ch := R\<rparr>) = map_option (\<lambda>y. y\<lparr>resp_ch := R\<rparr>) (worker_take client w x)"
  by (simp add: worker_take_def split: list.split)

lemma frame_deliver: "deliver (x\<lparr>resp_ch := R\<rparr>) = map_option (\<lambda>y. y\<lparr>resp_ch := R\<rparr>) (deliver x)"
  by (simp add: deliver_def split: list.split)

lemma frame_collect:
  "coll x = Collecting \<or> coll x = Forwarding k r \<Longrightarrow> collect (x\<lparr>resp_ch := R\<rparr>) = map_option (\<lambda>y. y\<lparr>resp_ch := R\<rparr>) (collect x)"
  by (auto simp: collect_def split: list.split hBTx.split)

lemmas frames = frame_publish frame_interrupt frame_take frame_deliver

lemma lane_chan_frame [simp]: "lane_chan (s\<lparr>pl := x\<rparr>) k = lane_chan s k" "lane_chan (s\<lparr>got := b\<rparr>) k = lane_chan s k"
  by (cases "ref s k"; simp add: lane_chan_def)+

lemma lane_buf_frame [simp]: "lane_buf (s\<lparr>pl := x\<rparr>) = lane_buf s" "lane_buf (s\<lparr>got := b\<rparr>) = lane_buf s"
  by (simp_all add: lane_buf_def fun_eq_iff)

lemma seen_fields [simp]:
  "coll (seen s) = coll (pl s)" "pub (seen s) = pub (pl s)" "lanes (seen s) = lanes (pl s)" "chOut (seen s) = chOut (pl s)"
  "workers (seen s) = workers (pl s)" "todo (seen s) = todo (pl s)" "outp (seen s) = outp (pl s)" "sent (seen s) = sent (pl s)"
  "errored (seen s) = errored (pl s)" "resp_ch (seen s) = lane_buf s" "pushed (seen s) = pushed (pl s)" "offered (seen s) = offered (pl s)"
  by (simp_all add: seen_def pushed_def offered_def)

lemma seen_pl [simp]: "seen (s\<lparr>pl := x\<rparr>) = x\<lparr>resp_ch := lane_buf s\<rparr>"
  by (simp add: seen_def)

lemma owns_frame [simp]: "owns (s\<lparr>pl := x\<rparr>) = owns s" "owns (s\<lparr>got := b\<rparr>) = owns s"
  by (simp_all add: owns_def)

lemma ours_frame [simp]: "ours (s\<lparr>pl := x\<rparr>) = ours s" "ours (s\<lparr>got := b\<rparr>) = ours s"
  by (simp_all add: ours_def)

lemma guarantee_same: "owns s \<Longrightarrow> pp t = pp s \<Longrightarrow> ours t = ours s \<Longrightarrow> guarantee s t"
  by (auto simp: guarantee_def rely_def owns_def)

text \<open>What a step has to do: it does not panic, it follows the machine that is seen, and it keeps to the contract.\<close>

definition follows :: "pipe option \<Rightarrow> pooled \<Rightarrow> pooled blocking \<Rightarrow> bool" where
  "follows r s m \<longleftrightarrow>
     (\<exists>ot. m = Ret ot \<and> map_option seen ot = r \<and> (\<forall>t. ot = Some t \<longrightarrow> owns t \<and> guarantee s t \<and> (unsettled t \<longrightarrow> holds_lanes t)))"

lemma follows_lifted:
  assumes "owns s" and "r = map_option (\<lambda>x. x\<lparr>resp_ch := lane_buf s\<rparr>) m"
    and "\<And>x. m = Some x \<Longrightarrow> unsettled (s\<lparr>pl := x\<rparr>) \<Longrightarrow> holds_lanes (s\<lparr>got := g, pl := x\<rparr>)"
  shows "follows r s (lifted m (s\<lparr>got := g\<rparr>))"
  using assms by (auto simp: follows_def lifted_def option.map_comp comp_def unsettled_def intro: guarantee_same)

text \<open>The lanes in terms of the machine that is seen.\<close>

lemma live_queued:
  assumes "live client hr c f t rd (seen s)"
  shows "f \<le> pushed (pl s) \<and> queued_lanes (pl s) = pushed (pl s) - f"
proof -
  from assms have "chOut (pl s) = map (\<lambda>k. Lane k (lane_height hr k)) [f..<pushed (pl s)]
      @ (if pub (pl s) = PubClose \<or> pub (pl s) = PubDone then [LastHeight] else [])" and "f \<le> pushed (pl s)"
    by (simp_all add: live_def queues_ok_def)
  then show ?thesis unfolding queued_lanes_def by (simp add: filter_map comp_def)
qed

lemma collecting_lane:
  assumes "pipe_inv client hr (seen s)" "coll (pl s) = Collecting"
  obtains c t where "live client hr c c t [] (seen s)" "first_lane (pl s) = c" "c \<le> pushed (pl s)"
proof -
  from assms obtain c t where l: "live client hr c c t [] (seen s)" by (auto simp: pipe_inv_def)
  from live_queued [OF l] assms(2) have "first_lane (pl s) = c" "c \<le> pushed (pl s)" by (simp_all add: first_lane_def)
  with l that show thesis by blast
qed

lemma reading_lane_seen:
  assumes "pipe_inv client hr (seen s)" "coll (pl s) = Reading k"
  obtains t rd where "live client hr k (Suc k) t rd (seen s)" "k < pushed (pl s)" "pushed (pl s) - queued_lanes (pl s) = Suc k"
proof -
  from assms obtain t rd where l: "live client hr k (Suc k) t rd (seen s)" by (auto simp: pipe_inv_def)
  from live_queued [OF l] have "k < pushed (pl s)" "pushed (pl s) - queued_lanes (pl s) = Suc k" by simp_all
  with l that show thesis by blast
qed

lemma seen_put_out: "seen (s\<lparr>pl := put_out r (pl s)\<rparr>) = put_out r (seen s)"
  by (simp add: seen_def)

lemma forwarding_lane_seen:
  assumes "pipe_inv client hr (seen s)" "coll (pl s) = Forwarding k r"
  obtains t rd where "live client hr k (Suc k) t rd (put_out r (seen s))" "k < pushed (pl s)" "pushed (pl s) - queued_lanes (pl s) = Suc k"
proof -
  from assms obtain t rd where "live client hr k (Suc k) t rd (put_out r (seen s))" by (auto simp: pipe_inv_def)
  then have l: "live client hr k (Suc k) t rd (seen (s\<lparr>pl := put_out r (pl s)\<rparr>))" by (simp only: seen_put_out)
  from live_queued [OF l] have "k < pushed (pl s)" "pushed (pl s) - queued_lanes (pl s) = Suc k"
    by (simp_all add: pushed_def queued_lanes_def)
  with l that show thesis by (simp only: seen_put_out)
qed

lemma first_lane_cong:
  "coll y = coll x \<Longrightarrow> pushed y - queued_lanes y = pushed x - queued_lanes x \<Longrightarrow> first_lane y = first_lane x"
  by (cases "coll x") (simp_all add: first_lane_def)

lemma holds_cong:
  assumes "pub x = pub (pl s)" "lanes x = lanes (pl s)" "chOut x = chOut (pl s)" "coll x = coll (pl s)" "holds_lanes s"
  shows "holds_lanes (s\<lparr>pl := x\<rparr>)"
proof -
  have eq: "pushed x = pushed (pl s)" "queued_lanes x = queued_lanes (pl s)" using assms by (simp_all add: pushed_def queued_lanes_def)
  then have "first_lane x = first_lane (pl s)" using assms(4) by (intro first_lane_cong) simp_all
  with eq assms show ?thesis by (simp add: holds_lanes_def begun_def)
qed

lemma take_holds:
  assumes "worker_take client w (pl s) = Some x" "holds_lanes s"
  shows "holds_lanes (s\<lparr>pl := x\<rparr>)"
  by (rule holds_cong) (use assms in \<open>auto simp: worker_take_def split: if_splits list.splits\<close>)

lemma deliver_holds:
  assumes "deliver (pl s) = Some x" "holds_lanes s"
  shows "holds_lanes (s\<lparr>pl := x\<rparr>)"
  by (rule holds_cong) (use assms in \<open>auto simp: deliver_def split: list.splits\<close>)

lemma publish_first_lane:
  assumes "populate_send hr x = Some y" "queued_lanes x \<le> pushed x"
  shows "first_lane y = first_lane x"
proof -
  have "coll y = coll x" "pushed y - queued_lanes y = pushed x - queued_lanes x"
    using assms by (cases "pub x"; auto simp: populate_send_def pushed_def queued_lanes_def split: if_splits)+
  then show ?thesis by (rule first_lane_cong)
qed

lemma publish_begun:
  assumes "populate_send hr (pl s) = Some x" "(\<exists>h. pub (pl s) = PubOut h) \<longrightarrow> got s" "(\<exists>h. pub (pl s) = PubNext h) \<longrightarrow> \<not> g"
    "(\<exists>h. pub (pl s) = PubNext h) \<or> g = got s"
  shows "begun (s\<lparr>got := g, pl := x\<rparr>) = begun s"
  using assms by (cases "pub (pl s)") (auto simp: populate_send_def begun_def pushed_def split: if_splits)

subsection \<open>The channels that are held\<close>

lemma owns_lane:
  assumes "owns s" "k \<in> held s"
  obtains i c where "ref s k = Some i" "lane_chan s k = Some c" "chan_at (pp s) i = Some c" "\<not> ch_closed c" "ch_cap c = resp_cap"
    "i \<notin> idle (pp s)" "lane_buf s k = ch_buf c"
proof -
  from assms obtain i c where "ref s k = Some i" "i \<notin> idle (pp s)" "chan_at (pp s) i = Some c" "\<not> ch_closed c"
    unfolding owns_def by blast
  moreover from this assms(1) have "ch_cap c = resp_cap" by (auto simp: owns_def all_caps_def)
  ultimately show thesis using assms(2) by (intro that [of i c]) (simp_all add: lane_chan_def lane_buf_def)
qed

text \<open>Writing to the channel of a lane changes the buffer of that lane only.\<close>

lemma set_chan_owned:
  assumes "owns s" "k \<in> held s" "lane_chan s k = Some c" "ch_cap c' = ch_cap c" "ch_closed c' = ch_closed c"
  shows "owns (set_chan k c' s)" "lane_buf (set_chan k c' s) = (lane_buf s)(k := ch_buf c')" "guarantee s (set_chan k c' s)"
    "held (set_chan k c' s) = held s" "ref (set_chan k c' s) = ref s" "pl (set_chan k c' s) = pl s" "got (set_chan k c' s) = got s"
proof -
  obtain i c0 where i: "ref s k = Some i" "lane_chan s k = Some c0" "chan_at (pp s) i = Some c0" "\<not> ch_closed c0" "ch_cap c0 = resp_cap"
    "i \<notin> idle (pp s)" by (rule owns_lane [OF assms(1,2)])
  with assms(3) have [simp]: "c0 = c" by simp
  define t where "t = s\<lparr>pp := (pp s)\<lparr>chan_at := (chan_at (pp s))(i \<mapsto> c')\<rparr>\<rparr>"
  have t: "set_chan k c' s = t" using i(1) by (simp add: set_chan_def t_def)
  have idle: "idle (pp t) = idle (pp s)" by (simp add: t_def idle_def)
  have inv: "pool_inv (pp t)" "all_caps (pp t)"
    using assms(1,4,5) i idle by (auto simp: owns_def pool_inv_def all_caps_def t_def)
  have inj: "ref s j \<noteq> Some i" if "j \<in> held s" "j \<noteq> k" for j
    using assms(1,2) i(1) that unfolding owns_def inj_on_def by metis
  have own: "\<exists>i' d. ref s j = Some i' \<and> i' \<notin> idle (pp s) \<and> chan_at (pp t) i' = Some d \<and> \<not> ch_closed d" if j: "j \<in> held s" for j
  proof (cases "j = k")
    case True
    with i assms(5) show ?thesis by (simp add: t_def)
  next
    case False
    obtain i' d where "ref s j = Some i'" "chan_at (pp s) i' = Some d" "\<not> ch_closed d" "i' \<notin> idle (pp s)"
      by (rule owns_lane [OF assms(1) j])
    with inj [OF j False] show ?thesis by (auto simp: t_def)
  qed
  show "owns (set_chan k c' s)" using assms(1) inv own by (simp add: t owns_def idle) (simp add: t_def)
  show "lane_buf (set_chan k c' s) = (lane_buf s)(k := ch_buf c')"
  proof
    fix j
    show "lane_buf (set_chan k c' s) j = ((lane_buf s)(k := ch_buf c')) j"
    proof (cases "j \<in> held s \<and> j \<noteq> k")
      case True
      with inj have "lane_chan t j = lane_chan s j" by (cases "ref s j") (auto simp: lane_chan_def t_def)
      with True show ?thesis by (simp add: t lane_buf_def) (simp add: t_def)
    next
      case False
      have "lane_chan t k = Some c'" using i(1) by (simp add: lane_chan_def t_def)
      moreover have "held t = held s" by (simp add: t_def)
      ultimately show ?thesis using False assms(2) unfolding t by (cases "j = k") (simp_all add: lane_buf_def)
    qed
  qed
  have "i \<in> ours s" using i(1) assms(2) by (auto simp: ours_def)
  then have "rely X (pp s) (pp t)" if "X \<inter> ours s = {}" "X \<inter> idle (pp s) = {}" for X
    using that inv by (auto simp: rely_def idle) (auto simp: t_def)
  moreover have "ours t = ours s" by (simp add: ours_def t_def)
  ultimately show "guarantee s (set_chan k c' s)" unfolding t guarantee_def by simp
qed (use assms in \<open>simp_all add: set_chan_def split: option.split\<close>)

text \<open>The pool makes all channels of one capacity.\<close>

lemma Get_caps:
  assumes "outRespPool_Get p = Some (r, p')" "all_caps p"
  shows "all_caps p'"
proof -
  have drained: "ch_cap c' = ch_cap c" if "drain c = Some c'" for c c' :: "OutResp chan"
    using that drain_open [of c] drain_closed_diverges [OF that] by auto
  show ?thesis
  proof (cases "chan_recv (stor p)")
    case None
    with assms show ?thesis
      by (auto simp: outRespPool_Get_def pool_Get_def fresh_chan_def all_caps_def resp_cap_def split: if_split_asm)
  next
    case (Some x)
    with assms show ?thesis
      by (cases x) (auto simp: outRespPool_Get_def pool_Get_def Let_def outRespDrain_def drain_ref_def all_caps_def
          dest: drained split: option.splits if_splits)
  qed
qed

lemma Put_caps:
  assumes "outRespPool_Put r p = Ret p'" "all_caps p"
  shows "all_caps p'"
  using assms
  by (auto simp: outRespPool_Put_def pool_Put_def go_simps all_caps_def chan_close_def split: option.splits if_splits)

lemma get_new:
  assumes "owns s"
  obtains i p c where "outRespPool_Get (pp s) = Some (Some i, p)" "pool_inv p" "all_caps p"
    "i \<notin> idle p" "idle p \<subseteq> idle (pp s)" "i \<in> idle (pp s) \<or> chan_at (pp s) i = None"
    "chan_at p i = Some c" "ch_buf c = []" "\<not> ch_closed c"
    "\<And>j. j \<noteq> i \<Longrightarrow> chan_at p j = chan_at (pp s) j" "\<And>j. j \<in> held s \<Longrightarrow> ref s j \<noteq> Some i"
proof -
  have inv: "pool_inv (pp s)" "all_caps (pp s)" using assms by (simp_all add: owns_def)
  from outResp.get_exclusive [OF inv(1)] obtain i p where g: "outRespPool_Get (pp s) = Some (Some i, p)" "pool_inv p"
    "handed_out i (pp s) p" by blast
  from g(3) obtain c where h: "i \<notin> idle p" "idle p \<subseteq> idle (pp s)" "i \<in> idle (pp s) \<or> chan_at (pp s) i = None"
    "chan_at p i = Some c" "ch_buf c = []" "\<not> ch_closed c" "\<And>j. j \<noteq> i \<Longrightarrow> chan_at p j = chan_at (pp s) j"
    unfolding handed_out_def by blast
  have "ref s j \<noteq> Some i" if j: "j \<in> held s" for j
  proof
    assume r: "ref s j = Some i"
    obtain i' c' where "ref s j = Some i'" "chan_at (pp s) i' = Some c'" "i' \<notin> idle (pp s)" by (rule owns_lane [OF assms j])
    with r h(3) show False by simp
  qed
  from that [OF g(1,2) Get_caps [OF g(1) inv(2)] h this] show thesis .
qed

lemma with_lane_fields [simp]:
  "pp (with_lane k r p s) = p" "ref (with_lane k r p s) = (ref s)(k := r)" "got (with_lane k r p s)"
  "held (with_lane k r p s) = insert k (held s)" "pl (with_lane k r p s) = pl s"
  by (simp_all add: with_lane_def)

text \<open>The other lanes do not see that a channel was taken.\<close>

lemma with_lane_others:
  assumes "owns s" "k \<notin> held s" "j \<in> held s" "\<And>j. j \<noteq> i \<Longrightarrow> chan_at p j = chan_at (pp s) j" "ref s j \<noteq> Some i"
    "idle p \<subseteq> idle (pp s)"
  shows "ref (with_lane k (Some i) p s) j = ref s j" "lane_chan (with_lane k (Some i) p s) j = lane_chan s j"
    "\<exists>i' d. ref s j = Some i' \<and> i' \<notin> idle p \<and> chan_at p i' = Some d \<and> \<not> ch_closed d"
proof -
  have "j \<noteq> k" using assms(2,3) by blast
  then show "ref (with_lane k (Some i) p s) j = ref s j" "lane_chan (with_lane k (Some i) p s) j = lane_chan s j"
    using assms(4,5) by (cases "ref s j"; auto simp: lane_chan_def)+
  obtain i' c' where "ref s j = Some i'" "chan_at (pp s) i' = Some c'" "i' \<notin> idle (pp s)" "\<not> ch_closed c'"
    by (rule owns_lane [OF assms(1,3)])
  with assms(4-6) show "\<exists>i' d. ref s j = Some i' \<and> i' \<notin> idle p \<and> chan_at p i' = Some d \<and> \<not> ch_closed d"
    by (metis subsetD)
qed

lemma get_lane:
  assumes "owns s" "k \<notin> held s"
  obtains r p where "outRespPool_Get (pp s) = Some (r, p)" "owns (with_lane k r p s)" "lane_buf (with_lane k r p s) = lane_buf s"
    "guarantee s (with_lane k r p s)"
proof -
  obtain i p c where g: "outRespPool_Get (pp s) = Some (Some i, p)" "pool_inv p" "all_caps p"
    "i \<notin> idle p" "idle p \<subseteq> idle (pp s)" "i \<in> idle (pp s) \<or> chan_at (pp s) i = None"
    "chan_at p i = Some c" "ch_buf c = []" "\<not> ch_closed c"
    "\<And>j. j \<noteq> i \<Longrightarrow> chan_at p j = chan_at (pp s) j" "\<And>j. j \<in> held s \<Longrightarrow> ref s j \<noteq> Some i"
    using get_new [OF assms(1)] by blast
  let ?t = "with_lane k (Some i) p s"
  note others = with_lane_others [OF assms _ g(10) g(11) g(5)]
  have "inj_on ((ref s)(k := Some i)) (insert k (held s))"
    using assms g(11) by (simp add: owns_def inj_on_def) metis
  moreover have "\<exists>i' d. ((ref s)(k := Some i)) j = Some i' \<and> i' \<notin> idle p \<and> chan_at p i' = Some d \<and> \<not> ch_closed d"
    if "j \<in> insert k (held s)" for j
    using that g(4,7,9) others(1,3) [of j] by (cases "j = k") simp_all
  ultimately have "owns ?t" using g(2,3) unfolding owns_def with_lane_fields by blast
  moreover have "lane_buf ?t = lane_buf s"
  proof
    fix j
    show "lane_buf ?t j = lane_buf s j"
    proof (cases "j = k")
      case True
      have "lane_chan ?t k = Some c" using g(7) by (simp add: lane_chan_def)
      with True assms(2) g(8) show ?thesis by (simp add: lane_buf_def)
    next
      case False
      with others(2) [of j] show ?thesis by (auto simp: lane_buf_def)
    qed
  qed
  moreover have "guarantee s ?t" unfolding guarantee_def
  proof (intro allI impI)
    fix X assume X: "X \<inter> ours s = {} \<and> X \<inter> idle (pp s) = {} \<and> X \<subseteq> dom (chan_at (pp s))"
    with g(6) have "i \<notin> X" by blast
    moreover from this X g(5,10) have "j \<notin> idle p \<and> chan_at p j = chan_at (pp s) j" if "j \<in> X" for j
      using that by (metis disjoint_iff subsetD)
    moreover have "ours ?t = insert i (ours s)" using others(1) assms(2) by (auto simp: ours_def)
    ultimately show "rely X (pp s) (pp ?t) \<and> X \<inter> ours ?t = {}" using g(2,3) X by (auto simp: rely_def)
  qed
  ultimately show thesis using that g(1) by blast
qed

text \<open>A lane that is given back must be empty: its buffer is no longer seen.\<close>

lemma give_back_lane:
  assumes "owns s" "k \<in> held s" "lane_buf s k = []"
  obtains t where "give_back k s = Ret t" "owns t" "lane_buf t = lane_buf s" "guarantee s t" "held t = held s - {k}"
    "pl t = pl s" "got t = got s"
proof -
  have inv: "pool_inv (pp s)" "all_caps (pp s)" using assms(1) by (simp_all add: owns_def)
  obtain i c where i: "ref s k = Some i" "chan_at (pp s) i = Some c" "\<not> ch_closed c" "i \<notin> idle (pp s)"
    by (rule owns_lane [OF assms(1,2)])
  from outResp.put_owned [OF inv(1) i(4,2,3)] obtain p where p: "outRespPool_Put (Some i) (pp s) = Ret p" "pool_inv p"
    "idle p \<subseteq> insert i (idle (pp s))" "\<And>j. j \<noteq> i \<Longrightarrow> chan_at p j = chan_at (pp s) j" by blast
  define t where "t = s\<lparr>pp := p, held := held s - {k}\<rparr>"
  have t: "give_back k s = Ret t" using p(1) i(1) by (simp add: give_back_def t_def)
  have other: "ref s j \<noteq> Some i" if "j \<in> held s - {k}" for j
    using assms(1,2) i(1) that unfolding owns_def inj_on_def by (metis Diff_iff singletonI)
  have own: "\<exists>i' d. ref s j = Some i' \<and> i' \<notin> idle p \<and> chan_at p i' = Some d \<and> \<not> ch_closed d" if j: "j \<in> held s - {k}" for j
  proof -
    from j have "j \<in> held s" by simp
    obtain i' c' where "ref s j = Some i'" "chan_at (pp s) i' = Some c'" "i' \<notin> idle (pp s)" "\<not> ch_closed c'"
      by (rule owns_lane [OF assms(1) \<open>j \<in> held s\<close>])
    with other [OF j] p(3,4) show ?thesis by (metis insertE subsetD)
  qed
  have "inj_on (ref s) (held s - {k})" using assms(1) by (auto simp: owns_def inj_on_def)
  then have "owns t" using p(2) Put_caps [OF p(1) inv(2)] own by (simp add: owns_def t_def)
  moreover have "lane_buf t = lane_buf s"
  proof
    fix j
    show "lane_buf t j = lane_buf s j"
    proof (cases "j \<in> held s - {k}")
      case True
      with other [OF True] p(4) have "lane_chan t j = lane_chan s j" by (cases "ref s j") (auto simp: lane_chan_def t_def)
      with True show ?thesis by (simp add: lane_buf_def) (simp add: t_def)
    next
      case False
      with assms(3) show ?thesis by (cases "j = k") (simp_all add: lane_buf_def t_def)
    qed
  qed
  moreover have "guarantee s t"
  proof -
    have "i \<in> ours s" using i(1) assms(2) by (auto simp: ours_def)
    then have "rely X (pp s) p" if "X \<inter> ours s = {}" "X \<inter> idle (pp s) = {}" for X
      using that p(2-4) Put_caps [OF p(1) inv(2)] by (fastforce simp: rely_def)
    moreover have "ours t \<subseteq> ours s" by (auto simp: ours_def t_def)
    ultimately show ?thesis by (auto simp: guarantee_def t_def)
  qed
  ultimately show thesis using that [OF t] by (simp add: t_def)
qed

end
