(* ===== verification/Pool_Refinement.thy ===== *)
theory Pool_Refinement
  imports Pipeline_Pool
begin

text \<open>
  The machine of \<open>Pipeline_Pool\<close> and that of \<open>Pipeline\<close> do the same up to the first error: every step with the pool is
  followed by the machine in which each height has a channel of its own, keeps the channels that are held, and can be made
  when that machine can make it.
\<close>

subsection \<open>Every step follows the machine with lanes\<close>

definition pool_ok :: "GRPC \<Rightarrow> HeightRange \<Rightarrow> pooled \<Rightarrow> bool" where
  "pool_ok client hr s \<longleftrightarrow> pipe_inv client hr (seen s) \<and> owns s \<and> holds_lanes s \<and> unsettled s"

lemma seen_act:
  "populate_send hr (seen s) = map_option (\<lambda>x. x\<lparr>resp_ch := lane_buf s\<rparr>) (populate_send hr (pl s))"
  "populate_interrupt (seen s) = map_option (\<lambda>x. x\<lparr>resp_ch := lane_buf s\<rparr>) (populate_interrupt (pl s))"
  "worker_take client w (seen s) = map_option (\<lambda>x. x\<lparr>resp_ch := lane_buf s\<rparr>) (worker_take client w (pl s))"
  "deliver (seen s) = map_option (\<lambda>x. x\<lparr>resp_ch := lane_buf s\<rparr>) (deliver (pl s))"
  "coll (pl s) = Collecting \<or> coll (pl s) = Forwarding k r \<Longrightarrow>
    collect (seen s) = map_option (\<lambda>x. x\<lparr>resp_ch := lane_buf s\<rparr>) (collect (pl s))"
  unfolding seen_def by (rule frames frame_collect | assumption)+

lemma follows_same:
  assumes "owns s" and "r = map_option (\<lambda>x. x\<lparr>resp_ch := lane_buf s\<rparr>) m"
    and "\<And>x. m = Some x \<Longrightarrow> unsettled (s\<lparr>pl := x\<rparr>) \<Longrightarrow> holds_lanes (s\<lparr>pl := x\<rparr>)"
  shows "follows r s (lifted m s)"
  using assms follows_lifted [of s r m "got s"] by simp

lemma take_follows: "pool_ok client hr s \<Longrightarrow> follows (worker_take client w (seen s)) s (lifted (worker_take client w (pl s)) s)"
  by (rule follows_same) (auto simp: pool_ok_def seen_act intro: take_holds)

lemma deliver_follows: "pool_ok client hr s \<Longrightarrow> follows (deliver (seen s)) s (lifted (deliver (pl s)) s)"
  by (rule follows_same) (auto simp: pool_ok_def seen_act intro: deliver_holds)

lemma seen_same_outp [simp]: "(seen s)\<lparr>outp := outp (pl s)\<rparr> = seen s"
  by (simp add: seen_def)

lemma pool_ok_live:
  assumes "pool_ok client hr s"
  obtains f t rd os where "live client hr (first_lane (pl s)) f t rd ((seen s)\<lparr>outp := os\<rparr>)" "queued_lanes (pl s) \<le> pushed (pl s)"
    "first_lane (pl s) \<le> pushed (pl s)"
proof (cases "coll (pl s)")
  case Collecting
  with assms obtain c t where "live client hr c c t [] (seen s)" "first_lane (pl s) = c" "c \<le> pushed (pl s)"
    by (auto simp: pool_ok_def elim: collecting_lane)
  moreover from live_queued [OF this(1)] have "queued_lanes (pl s) \<le> pushed (pl s)" by simp
  ultimately show thesis using that [of c t "[]" "outp (seen s)"] by simp
next
  case (Reading k)
  with assms obtain t rd where "live client hr k (Suc k) t rd (seen s)" "k < pushed (pl s)"
    by (auto simp: pool_ok_def elim: reading_lane_seen)
  moreover from live_queued [OF this(1)] have "queued_lanes (pl s) \<le> pushed (pl s)" by simp
  ultimately show thesis using Reading that [of "Suc k" t rd "outp (seen s)"] by (simp add: first_lane_def)
next
  case (Forwarding k r)
  with assms obtain t rd where "live client hr k (Suc k) t rd (put_out r (seen s))" "k < pushed (pl s)"
    "pushed (pl s) - queued_lanes (pl s) = Suc k"
    by (auto simp: pool_ok_def elim: forwarding_lane_seen)
  moreover from this(2,3) have "queued_lanes (pl s) \<le> pushed (pl s)" by simp
  ultimately show thesis using Forwarding that [of "Suc k" t rd "outp (seen s) @ [r]"] by (simp add: first_lane_def)
qed (use assms in \<open>simp_all add: pool_ok_def unsettled_def\<close>)

lemma interrupt_follows:
  assumes "pool_ok client hr s"
  shows "follows (populate_interrupt (seen s)) s (pool_interrupt s)"
proof -
  have "\<not> returned (seen s)" using assms by (auto simp: pool_ok_def unsettled_def returned_def split: collector.splits)
  moreover obtain f t rd os where "live client hr (first_lane (pl s)) f t rd ((seen s)\<lparr>outp := os\<rparr>)" using assms by (rule pool_ok_live)
  then have "errored (seen s) = 0" by (simp add: live_def queues_ok_def)
  ultimately have "populate_interrupt (seen s) = None" by (simp add: populate_interrupt_def recv_errored_def split: publisher.split)
  then have "populate_interrupt (seen s) = None" "populate_interrupt (pl s) = None" by (simp_all add: seen_act)
  then show ?thesis by (auto simp: follows_def pool_interrupt_def lifted_def split: publisher.split)
qed

lemma publish_holds:
  assumes "populate_send hr (pl s) = Some x" "pool_ok client hr s" "(\<exists>h. pub (pl s) = PubOut h) \<longrightarrow> got s"
    "(\<exists>h. pub (pl s) = PubNext h) \<longrightarrow> \<not> g" "(\<exists>h. pub (pl s) = PubNext h) \<or> g = got s"
  shows "holds_lanes (s\<lparr>got := g, pl := x\<rparr>)"
proof -
  have "first_lane x = first_lane (pl s)" using publish_first_lane [OF assms(1)] pool_ok_live [OF assms(2)] by blast
  with publish_begun [OF assms(1,3,4,5)] assms(2) show ?thesis by (simp add: holds_lanes_def pool_ok_def)
qed

text \<open>The publisher first takes its channel, a step that is not seen.\<close>

definition awaits_channel :: "pooled \<Rightarrow> bool" where
  "awaits_channel s \<longleftrightarrow> (\<exists>h. pub (pl s) = PubOut h) \<and> \<not> got s"

lemma publish_follows:
  assumes "pool_ok client hr s"
  shows "if awaits_channel s then follows (Some (seen s)) s (pool_publish hr s) else follows (populate_send hr (seen s)) s (pool_publish hr s)"
proof (cases "awaits_channel s")
  case True
  then obtain h where h: "pub (pl s) = PubOut h" "\<not> got s" by (auto simp: awaits_channel_def)
  obtain f t rd where l: "first_lane (pl s) \<le> pushed (pl s)" using assms by (rule pool_ok_live)
  have held: "held s = {first_lane (pl s)..<lanes (pl s)}" using assms h by (simp add: pool_ok_def holds_lanes_def begun_def pushed_def)
  then have "lanes (pl s) \<notin> held s" by simp
  have "owns s" using assms by (simp add: pool_ok_def)
  obtain r p where g: "outRespPool_Get (pp s) = Some (r, p)" and ok: "owns (with_lane (lanes (pl s)) r p s)"
      "lane_buf (with_lane (lanes (pl s)) r p s) = lane_buf s" "guarantee s (with_lane (lanes (pl s)) r p s)"
    by (rule get_lane [OF \<open>owns s\<close> \<open>lanes (pl s) \<notin> held s\<close>])
  let ?t = "with_lane (lanes (pl s)) r p s"
  have "pool_publish hr s = Ret (Some ?t)" using h g by (simp add: pool_publish_def)
  moreover have "seen ?t = seen s" using ok(2) by (simp add: seen_def)
  moreover have "holds_lanes ?t" using h l held by (auto simp: holds_lanes_def begun_def pushed_def)
  ultimately show ?thesis using True ok(1,3) by (simp add: follows_def)
next
  case False
  have "owns s" using assms by (simp add: pool_ok_def)
  have lift: "follows (populate_send hr (seen s)) s (lifted (populate_send hr (pl s)) (s\<lparr>got := g\<rparr>))"
    if "(\<exists>h. pub (pl s) = PubNext h) \<longrightarrow> \<not> g" "(\<exists>h. pub (pl s) = PubNext h) \<or> g = got s" for g
    using False that assms by (intro follows_lifted [OF \<open>owns s\<close>]) (auto simp: seen_act awaits_channel_def intro: publish_holds)
  show ?thesis
  proof (cases "\<exists>h. pub (pl s) = PubNext h")
    case True
    with lift [of False] False show ?thesis by (auto simp: pool_publish_def)
  next
    case no_next: False
    then have "pool_publish hr s = lifted (populate_send hr (pl s)) s"
      using False by (auto simp: pool_publish_def awaits_channel_def split: publisher.split)
    with lift [of "got s"] no_next False show ?thesis by simp
  qed
qed

text \<open>A worker writes to a channel that is held for its lane.\<close>

lemma busy_lane_held:
  assumes "pool_ok client hr s" "w < num_workers" "workers (pl s) w = Sending k" "todo (pl s) k \<noteq> []"
  shows "k \<in> held s"
proof -
  obtain f t rd os where l: "live client hr (first_lane (pl s)) f t rd ((seen s)\<lparr>outp := os\<rparr>)" using assms(1) by (rule pool_ok_live)
  then have "k < t" "t \<le> offered (pl s)" "\<forall>j < first_lane (pl s). todo (pl s) j = []"
    using assms(2,3) by (auto simp: live_def workers_ok_def busy_sound_def queues_ok_def lanes_ok_def)
  moreover have "offered (pl s) \<le> begun s" by (auto simp: offered_def begun_def pushed_def split: publisher.split)
  ultimately have "first_lane (pl s) \<le> k" "k < begun s" using assms(4) not_le by auto
  with assms(1) show ?thesis by (simp add: pool_ok_def holds_lanes_def)
qed

lemma produce_follows:
  assumes "pool_ok client hr s"
  shows "follows (worker_produce w (seen s)) s (pool_produce w s)"
proof (cases "w < num_workers \<and> (\<exists>k. workers (pl s) w = Sending k \<and> todo (pl s) k \<noteq> [])")
  case False
  then have "worker_produce w (seen s) = None" "pool_produce w s = Ret None"
    by (auto simp: worker_produce_def pool_produce_def split: worker.splits list.splits)
  then show ?thesis by (simp add: follows_def)
next
  case True
  then obtain k r rs where w: "w < num_workers" "workers (pl s) w = Sending k" "todo (pl s) k = r # rs"
    by (auto simp: neq_Nil_conv)
  with busy_lane_held [OF assms w(1,2)] have k: "k \<in> held s" by simp
  have own: "owns s" using assms by (simp add: pool_ok_def)
  obtain i c where c: "lane_chan s k = Some c" "\<not> ch_closed c" "ch_cap c = resp_cap" "lane_buf s k = ch_buf c"
    by (rule owns_lane [OF own k])
  let ?x = "(pl s)\<lparr>todo := (todo (pl s))(k := rs),
      workers := (workers (pl s))(w := if is_error r then Exited else if rs = [] then Receiving else Sending k)\<rparr>"
  show ?thesis
  proof (cases "length (ch_buf c) < resp_cap")
    case False
    with w c show ?thesis by (simp add: follows_def worker_produce_def pool_produce_def chan_send_def)
  next
    case True
    let ?c = "c\<lparr>ch_buf := ch_buf c @ [r]\<rparr>"
    note set = set_chan_owned [OF own k c(1), of ?c, simplified]
    have "pool_produce w s = Ret (Some ((set_chan k ?c s)\<lparr>pl := ?x\<rparr>))"
      using w c True by (simp add: pool_produce_def chan_send_def)
    moreover have "worker_produce w (seen s) = Some (?x\<lparr>resp_ch := (lane_buf s)(k := ch_buf c @ [r])\<rparr>)"
      using w c True by (simp add: worker_produce_def seen_def)
    moreover have "holds_lanes ((set_chan k ?c s)\<lparr>pl := ?x\<rparr>)"
    proof (rule holds_cong)
      show "holds_lanes (set_chan k ?c s)" using assms set by (simp add: pool_ok_def holds_lanes_def begun_def)
    qed (simp_all add: set)
    moreover have "guarantee s ((set_chan k ?c s)\<lparr>pl := ?x\<rparr>)" using set(3) by (simp add: guarantee_def)
    ultimately show ?thesis using set by (simp add: follows_def)
  qed
qed

lemma guarantee_trans:
  assumes "guarantee s t" "guarantee t u"
  shows "guarantee s u"
  unfolding guarantee_def
proof (intro allI impI)
  fix X assume X: "X \<inter> ours s = {} \<and> X \<inter> idle (pp s) = {} \<and> X \<subseteq> dom (chan_at (pp s))"
  with assms(1) have t: "rely X (pp s) (pp t)" "X \<inter> ours t = {}" unfolding guarantee_def by simp_all
  then have keep: "j \<notin> idle (pp t) \<and> chan_at (pp t) j = chan_at (pp s) j" if "j \<in> X" for j using that by (simp add: rely_def)
  then have "X \<inter> idle (pp t) = {}" by blast
  moreover have "X \<subseteq> dom (chan_at (pp t))"
  proof
    fix j assume "j \<in> X"
    with X keep [of j] show "j \<in> dom (chan_at (pp t))" by (auto simp: dom_def)
  qed
  ultimately have "rely X (pp t) (pp u)" "X \<inter> ours u = {}" using assms(2) t(2) unfolding guarantee_def by simp_all
  with keep show "rely X (pp s) (pp u) \<and> X \<inter> ours u = {}" by (simp add: rely_def)
qed

lemma collecting_follows:
  assumes "pool_ok client hr s" "coll (pl s) = Collecting"
  shows "follows (collect (seen s)) s (pool_collect s)"
proof -
  have own: "owns s" and inv: "pipe_inv client hr (seen s)" using assms(1) by (simp_all add: pool_ok_def)
  obtain c t where l: "live client hr c c t [] (seen s)" "first_lane (pl s) = c" "c \<le> pushed (pl s)"
    by (rule collecting_lane [OF inv assms(2)])
  have out: "chOut (pl s) = map (\<lambda>k. Lane k (lane_height hr k)) [c..<pushed (pl s)]
      @ (if pub (pl s) = PubClose \<or> pub (pl s) = PubDone then [LastHeight] else [])"
    using l(1) by (simp add: live_def queues_ok_def)
  have "holds_lanes (s\<lparr>pl := x\<rparr>)" if x: "collect (pl s) = Some x" "unsettled (s\<lparr>pl := x\<rparr>)" for x
  proof -
    from x assms(2) obtain k h rest where k: "chOut (pl s) = Lane k h # rest" "x = (pl s)\<lparr>chOut := rest, coll := Reading k\<rparr>"
      by (auto simp: collect_def unsettled_def split: list.splits hBTx.splits)
    with out have "k = c" by (cases "c < pushed (pl s)") (auto simp: upt_conv_Cons split: if_splits)
    moreover have "begun (s\<lparr>pl := x\<rparr>) = begun s" by (simp add: k(2) begun_def pushed_def)
    ultimately show ?thesis using assms(1) l(2) k(2) by (simp add: pool_ok_def holds_lanes_def first_lane_def)
  qed
  then have "follows (collect (seen s)) s (lifted (collect (pl s)) s)"
    by (intro follows_same [OF own]) (simp_all add: seen_act assms(2))
  then show ?thesis using assms(2) by (simp add: pool_collect_def)
qed

lemma finish_follows:
  assumes "pool_ok client hr s" "coll (pl s) = Reading k" "lane_chan s k = Some c" "ch_buf c = [r]" "k \<in> held s"
  shows "follows (Some ((seen s)\<lparr>resp_ch := (lane_buf s)(k := []), coll := Collecting\<rparr>)) s (finish_round k (set_chan k (c\<lparr>ch_buf := []\<rparr>) s))"
proof -
  have own: "owns s" and inv: "pipe_inv client hr (seen s)" using assms(1) by (simp_all add: pool_ok_def)
  note set = set_chan_owned [OF own assms(5,3), of "c\<lparr>ch_buf := []\<rparr>", simplified]
  let ?s = "set_chan k (c\<lparr>ch_buf := []\<rparr>) s"
  have "k \<in> held ?s" "lane_buf ?s k = []" using assms(5) set by simp_all
  from give_back_lane [OF set(1) this] obtain t where t: "give_back k ?s = Ret t" "owns t" "lane_buf t = lane_buf ?s" "guarantee ?s t"
    "held t = held ?s - {k}" "pl t = pl ?s" "got t = got ?s" by blast
  obtain t' rd where k: "k < pushed (pl s)" "pushed (pl s) - queued_lanes (pl s) = Suc k"
    by (rule reading_lane_seen [OF inv assms(2)])
  let ?x = "(pl s)\<lparr>coll := Collecting\<rparr>"
  have "first_lane ?x = Suc k" using k(2) by (simp add: first_lane_def pushed_def queued_lanes_def)
  moreover have "held s = {k..<begun s}" using assms(1,2) by (simp add: pool_ok_def holds_lanes_def first_lane_def)
  moreover have "begun (t\<lparr>pl := ?x\<rparr>) = begun s" using t(7) set(7) by (simp add: begun_def pushed_def)
  ultimately have "holds_lanes (t\<lparr>pl := ?x\<rparr>)" using t(5) set(4) by (auto simp: holds_lanes_def)
  moreover have "finish_round k ?s = Ret (Some (t\<lparr>pl := ?x\<rparr>))" using t(1,6) set(6) by (simp add: finish_round_def)
  moreover have "seen (t\<lparr>pl := ?x\<rparr>) = (seen s)\<lparr>resp_ch := (lane_buf s)(k := []), coll := Collecting\<rparr>"
    using t(3) set(2) by (simp add: seen_def)
  moreover have "guarantee s (t\<lparr>pl := ?x\<rparr>)" using guarantee_trans [OF set(3) t(4)] by (simp add: guarantee_def)
  ultimately show ?thesis using t(2) by (simp add: follows_def)
qed

lemma reading_follows:
  assumes "pool_ok client hr s" "coll (pl s) = Reading k"
  shows "follows (collect (seen s)) s (pool_collect s)"
proof -
  have own: "owns s" and inv: "pipe_inv client hr (seen s)" using assms(1) by (simp_all add: pool_ok_def)
  obtain t rd where l: "live client hr k (Suc k) t rd (seen s)" "k < pushed (pl s)" by (rule reading_lane_seen [OF inv assms(2)])
  have k: "k \<in> held s" using assms l(2) by (simp add: pool_ok_def holds_lanes_def first_lane_def begun_def)
  obtain i c where c: "lane_chan s k = Some c" "\<not> ch_closed c" "lane_buf s k = ch_buf c" by (rule owns_lane [OF own k])
  show ?thesis
  proof (cases "ch_buf c")
    case Nil
    with assms(2) c show ?thesis by (simp add: follows_def collect_def pool_collect_def chan_recv_def)
  next
    case (Cons r rs)
    let ?s = "set_chan k (c\<lparr>ch_buf := rs\<rparr>) s"
    note set = set_chan_owned [OF own k c(1), of "c\<lparr>ch_buf := rs\<rparr>", simplified]
    have same: "guarantee s (?s\<lparr>pl := x\<rparr>)" for x using set(3) by (simp add: guarantee_def)
    consider (partial) "is_partial r" | (error) "\<not> is_partial r" "is_error r" | (content) "\<not> is_partial r" "\<not> is_error r" by blast
    then show ?thesis
    proof cases
      case partial
      have "resp_ch (seen s) k = r # rs" using c Cons by simp
      from reading_lane [OF l(1) this] partial_ends_lane [of rd r "rs @ todo (seen s) k" client hr k] partial have "rs = []" by simp
      with finish_follows [OF assms c(1) _ k] Cons have "follows (Some ((seen s)\<lparr>resp_ch := (lane_buf s)(k := []), coll := Collecting\<rparr>)) s (finish_round k ?s)"
        by simp
      with \<open>rs = []\<close> partial assms(2) c Cons show ?thesis by (simp add: collect_def pool_collect_def chan_recv_def)
    next
      case error
      with assms(2) c Cons set same show ?thesis
        by (simp add: follows_def collect_def pool_collect_def chan_recv_def unsettled_def seen_def)
    next
      case content
      have "first_lane ((pl s)\<lparr>coll := Forwarding k r\<rparr>) = first_lane (pl s)" using assms(2) by (simp add: first_lane_def)
      moreover have "begun (?s\<lparr>pl := (pl s)\<lparr>coll := Forwarding k r\<rparr>\<rparr>) = begun s" using set by (simp add: begun_def pushed_def)
      ultimately have "holds_lanes (?s\<lparr>pl := (pl s)\<lparr>coll := Forwarding k r\<rparr>\<rparr>)"
        using assms(1) set by (simp add: pool_ok_def holds_lanes_def)
      with content assms(2) c Cons set same show ?thesis
        by (simp add: follows_def collect_def pool_collect_def chan_recv_def seen_def)
    qed
  qed
qed

lemma forwarding_follows:
  assumes "pool_ok client hr s" "coll (pl s) = Forwarding k r"
  shows "follows (collect (seen s)) s (pool_collect s)"
proof -
  have "holds_lanes (s\<lparr>pl := x\<rparr>)" if x: "collect (pl s) = Some x" for x
  proof -
    from x assms(2) have "x = (put_out r (pl s))\<lparr>coll := Reading k\<rparr>" by (auto simp: collect_def split: if_splits)
    with assms show ?thesis by (simp add: pool_ok_def holds_lanes_def first_lane_def begun_def pushed_def)
  qed
  then have "follows (collect (seen s)) s (lifted (collect (pl s)) s)"
    using assms by (intro follows_same) (auto simp: seen_act pool_ok_def)
  then show ?thesis using assms(2) by (simp add: pool_collect_def)
qed

lemma act_follows:
  assumes "pool_ok client hr s" "\<not> (a = Publish \<and> awaits_channel s)"
  shows "follows (act client hr a (seen s)) s (pool_act client hr a s)"
proof (cases a)
  case Collect
  have "coll (pl s) = Collecting \<or> (\<exists>k. coll (pl s) = Reading k) \<or> (\<exists>k r. coll (pl s) = Forwarding k r)"
    using assms(1) by (auto simp: pool_ok_def unsettled_def split: collector.splits)
  with Collect assms(1) show ?thesis by (auto intro: collecting_follows reading_follows forwarding_follows)
next
  case Publish
  with publish_follows [OF assms(1)] assms(2) show ?thesis by simp
qed (use assms(1) in \<open>simp_all add: interrupt_follows take_follows deliver_follows produce_follows\<close>)

lemma pool_ok_step:
  assumes "pool_ok client hr s" "proper_range hr" "pool_act client hr a s = Ret (Some t)"
  shows "(a = Publish \<and> seen t = seen s \<or> act client hr a (seen s) = Some (seen t)) \<and> guarantee s t \<and> owns t
    \<and> (unsettled t \<longrightarrow> pool_ok client hr t)"
proof (cases "a = Publish \<and> awaits_channel s")
  case True
  with publish_follows [OF assms(1)] assms(3) show ?thesis using assms(1) by (auto simp: follows_def pool_ok_def)
next
  case False
  from act_follows [OF assms(1) False] assms(3) have t: "act client hr a (seen s) = Some (seen t)" "owns t" "guarantee s t"
    "unsettled t \<longrightarrow> holds_lanes t" by (auto simp: follows_def)
  from act_inv [OF t(1) _ assms(2)] assms(1) t show ?thesis by (simp add: pool_ok_def)
qed

lemma owns_others:
  assumes "owns s" "rely (ours s) (pp s) p"
  shows "owns (s\<lparr>pp := p\<rparr>)" "seen (s\<lparr>pp := p\<rparr>) = seen s" "ours (s\<lparr>pp := p\<rparr>) = ours s"
proof -
  have lane: "lane_chan (s\<lparr>pp := p\<rparr>) k = lane_chan s k \<and> (\<exists>i c. ref s k = Some i \<and> i \<notin> idle p \<and> chan_at p i = Some c \<and> \<not> ch_closed c)"
    if k: "k \<in> held s" for k
  proof -
    obtain i c where i: "ref s k = Some i" "chan_at (pp s) i = Some c" "\<not> ch_closed c" by (rule owns_lane [OF assms(1) k])
    then have "i \<in> ours s" using k by (auto simp: ours_def)
    with assms(2) i show ?thesis by (auto simp: rely_def lane_chan_def)
  qed
  show "owns (s\<lparr>pp := p\<rparr>)" using assms lane by (simp add: owns_def rely_def)
  have "lane_buf (s\<lparr>pp := p\<rparr>) = lane_buf s" using lane by (auto simp: lane_buf_def)
  then show "seen (s\<lparr>pp := p\<rparr>) = seen s" by (simp add: seen_def)
qed (simp add: ours_def)

lemma pool_ok_others:
  assumes "pool_ok client hr s" "rely (ours s) (pp s) p"
  shows "pool_ok client hr (s\<lparr>pp := p\<rparr>) \<and> seen (s\<lparr>pp := p\<rparr>) = seen s"
  using owns_others [of s p] assms by (simp add: pool_ok_def holds_lanes_def begun_def unsettled_def)

text \<open>Once an error was reported, or \<open>getRange\<close> has returned, it stays so.\<close>

lemma lifted_coll: "lifted m s = Ret (Some t) \<Longrightarrow> (\<And>x. m = Some x \<Longrightarrow> coll x = c) \<Longrightarrow> coll (pl t) = c"
  by (auto simp: lifted_def)

lemma quiet_coll:
  "populate_send hr x = Some y \<Longrightarrow> coll y = coll x" "populate_interrupt x = Some y \<Longrightarrow> coll y = coll x"
  "worker_take client w x = Some y \<Longrightarrow> coll y = coll x" "deliver x = Some y \<Longrightarrow> coll y = coll x"
  using others_settled(1) [of client hr Publish x y] others_settled(1) [of client hr Interrupt x y]
    others_settled(1) [of client hr "Take w" x y] others_settled(1) [of client hr Deliver x y] by simp_all

lemma publish_coll: "pool_publish hr s = Ret (Some t) \<Longrightarrow> coll (pl t) = coll (pl s)"
  by (auto simp: pool_publish_def split: publisher.splits if_splits intro: lifted_coll quiet_coll)

lemma interrupt_coll: "pool_interrupt s = Ret (Some t) \<Longrightarrow> coll (pl t) = coll (pl s)"
  by (auto simp: pool_interrupt_def split: publisher.splits if_splits intro: lifted_coll quiet_coll)

lemma produce_coll: "pool_produce w s = Ret (Some t) \<Longrightarrow> coll (pl t) = coll (pl s)"
  by (auto simp: pool_produce_def bind_blocking_def go_simps split: if_splits worker.splits list.splits option.splits)

lemma collect_settled:
  assumes "pool_collect s = Ret (Some t)" "\<not> unsettled s"
  shows "\<not> unsettled t"
  using assms
  by (cases "coll (pl s)")
    (auto simp: pool_collect_def unsettled_def lifted_def collect_def go_simps split: list.splits hBTx.splits option.splits if_splits)

lemma settled_stays:
  assumes "pool_act client hr a s = Ret (Some t)" "\<not> unsettled s"
  shows "\<not> unsettled t"
proof (cases "a = Collect")
  case True
  with assms collect_settled show ?thesis by simp
next
  case False
  then have "coll (pl t) = coll (pl s)"
    using assms(1) by (cases a) (auto intro: publish_coll interrupt_coll produce_coll lifted_coll quiet_coll)
  with assms(2) show ?thesis by (simp add: unsettled_def)
qed

lemma pool_init_ok:
  assumes "pool_inv p" "all_caps p" "proper_range hr"
  shows "pool_ok client hr (pooled_init hr p) \<and> seen (pooled_init hr p) = pipe_init hr"
proof -
  have seen: "seen (pooled_init hr p) = pipe_init hr"
    by (simp add: seen_def pooled_init_def pipe_init_def lane_buf_def fun_eq_iff)
  moreover have "pipe_inv client hr (pipe_init hr)" by (rule reachable_pipe_inv [OF assms(3) rtranclp.rtrancl_refl])
  moreover have "owns (pooled_init hr p)" "holds_lanes (pooled_init hr p)" "unsettled (pooled_init hr p)"
    using assms(1,2)
    by (simp_all add: owns_def holds_lanes_def unsettled_def pooled_init_def pipe_init_def first_lane_def begun_def pushed_def queued_lanes_def)
  ultimately show ?thesis by (simp add: pool_ok_def)
qed

lemma pool_reachable:
  assumes "proper_range hr" "pool_inv p" "all_caps p" "(pool_step client hr)\<^sup>*\<^sup>* (pooled_init hr p) s" "unsettled s"
  shows "pool_ok client hr s \<and> (getRange client hr)\<^sup>*\<^sup>* (pipe_init hr) (seen s)"
  using assms(4,5)
proof (induction rule: rtranclp_induct)
  case base
  with pool_init_ok [OF assms(2,3,1)] show ?case by simp
next
  case (step s t)
  from step(2) show ?case
  proof (cases rule: pool_step.cases)
    case (own_step a)
    with step.prems settled_stays have "unsettled s" by blast
    with step.IH have s: "pool_ok client hr s" "(getRange client hr)\<^sup>*\<^sup>* (pipe_init hr) (seen s)" by simp_all
    from pool_ok_step [OF s(1) assms(1) own_step] step.prems s(2) show ?thesis
      by (metis getRange_step rtranclp.rtrancl_into_rtrancl)
  next
    case (others_step p')
    with step.prems have "unsettled s" by (simp add: unsettled_def)
    with step.IH pool_ok_others [of client hr s p'] others_step show ?thesis by simp
  qed
qed

text \<open>What the machine with lanes can do, the machine with the pool can do, after it took a channel when it needs one.\<close>

lemma pool_can_follow:
  assumes "pool_ok client hr s" "proper_range hr" "act client hr a (seen s) = Some x"
  shows "\<exists>t. (pool_step client hr)\<^sup>*\<^sup>* s t \<and> seen t = x"
proof -
  have now: "\<exists>t. (pool_step client hr)\<^sup>*\<^sup>* u t \<and> seen t = x"
    if u: "pool_ok client hr u" "\<not> (a = Publish \<and> awaits_channel u)" "act client hr a (seen u) = Some x" for u
  proof -
    from act_follows [OF u(1,2)] u(3) obtain t where "pool_act client hr a u = Ret (Some t)" "seen t = x" by (auto simp: follows_def)
    then show ?thesis by (blast intro: own_step)
  qed
  show ?thesis
  proof (cases "a = Publish \<and> awaits_channel s")
    case False
    with assms now show ?thesis by blast
  next
    case True
    with publish_follows [OF assms(1)] obtain u where u: "pool_publish hr s = Ret (Some u)" "seen u = seen s" by (auto simp: follows_def)
    then have step: "pool_act client hr Publish s = Ret (Some u)" by simp
    have "unsettled u" using u(2) assms(1) by (metis pool_ok_def seen_fields(1) unsettled_def)
    with pool_ok_step [OF assms(1,2) step] have "pool_ok client hr u" by simp
    moreover have "\<not> awaits_channel u"
      using u(1) True by (auto simp: pool_publish_def awaits_channel_def)
    ultimately obtain t where "(pool_step client hr)\<^sup>*\<^sup>* u t" "seen t = x" using now [of u] assms(3) u(2) by auto
    moreover have "pool_step client hr s u" using step by (rule own_step)
    ultimately show ?thesis by (blast intro: converse_rtranclp_into_rtranclp)
  qed
qed

text \<open>Claim C4: up to the first error of a range, the pool adds nothing to its \<open>getRange\<close> and takes nothing away, provided that
  the others keep the pool in order: it holds only open channels that are not \<open>nil\<close>, each once and of the capacity they are
  made with, and the channels that this range holds are left alone. Ranges without an error keep to this; a range that failed
  does not, see \<^verbatim>\<open>Pool_Failure\<close>. What is seen of a reachable state is reachable in the machine where every height has a channel
  of its own; no operation on a channel or the pool panics; a step is one of that machine, or the taking of a channel, and
  itself keeps the pool in order for the others; and every step of that machine can be followed.\<close>

theorem pool_refines_lanes:
  assumes "proper_range hr" and "pool_inv p" and "all_caps p"
    and "(pool_step client hr)\<^sup>*\<^sup>* (pooled_init hr p) s" and "unsettled s"
  shows "(getRange client hr)\<^sup>*\<^sup>* (pipe_init hr) (seen s) \<and> returns (pool_act client hr a s)
    \<and> (\<forall>t. pool_act client hr a s = Ret (Some t) \<longrightarrow>
          (a = Publish \<and> seen t = seen s \<or> act client hr a (seen s) = Some (seen t)) \<and> guarantee s t)
    \<and> (\<forall>x. act client hr a (seen s) = Some x \<longrightarrow> (\<exists>t. (pool_step client hr)\<^sup>*\<^sup>* s t \<and> seen t = x))"
proof (intro conjI allI impI)
  from pool_reachable [OF assms] have ok: "pool_ok client hr s" by simp
  show "(getRange client hr)\<^sup>*\<^sup>* (pipe_init hr) (seen s)" using pool_reachable [OF assms] by simp
  show "returns (pool_act client hr a s)"
    using act_follows [OF ok, of a] publish_follows [OF ok] by (cases "a = Publish \<and> awaits_channel s") (auto simp: follows_def)
  show "a = Publish \<and> seen t = seen s \<or> act client hr a (seen s) = Some (seen t)" "guarantee s t"
    if "pool_act client hr a s = Ret (Some t)" for t using pool_ok_step [OF ok assms(1) that] by auto
  show "\<exists>t. (pool_step client hr)\<^sup>*\<^sup>* s t \<and> seen t = x" if "act client hr a (seen s) = Some x" for x
    by (rule pool_can_follow [OF ok assms(1) that])
qed

lemma sample_pool_caps: "all_caps sample_pool"
  by (simp add: all_caps_def sample_pool_def)

theorem pool_refines_lanes_witness:
  "\<exists>t. (pool_step (sample_client {}) \<lparr>hr_StartHeight = 5, hr_EndHeight = 6\<rparr>)\<^sup>*\<^sup>* (pooled_init \<lparr>hr_StartHeight = 5, hr_EndHeight = 6\<rparr> sample_pool) t
     \<and> chOut (pl t) = [Lane 0 5]"
proof -
  let ?hr = "\<lparr>hr_StartHeight = 5, hr_EndHeight = 6\<rparr>" and ?s = "pooled_init \<lparr>hr_StartHeight = 5, hr_EndHeight = 6\<rparr> sample_pool"
  have hr: "proper_range ?hr" by (simp add: proper_range_def)
  have s: "seen ?s = pipe_init ?hr" "unsettled ?s"
    using pool_init_ok [OF sample_pool_inv sample_pool_caps hr] by (simp_all add: pool_ok_def)
  have "act (sample_client {}) ?hr Publish (seen ?s) = Some ((pipe_init ?hr)\<lparr>chOut := [Lane 0 5], pub := PubIn 5\<rparr>)"
    by (simp add: s(1) populate_send_def pipe_init_def hbtx_cap_def)
  with pool_refines_lanes [OF hr sample_pool_inv sample_pool_caps rtranclp.rtrancl_refl s(2)]
  obtain t where t: "(pool_step (sample_client {}) ?hr)\<^sup>*\<^sup>* ?s t" "seen t = (pipe_init ?hr)\<lparr>chOut := [Lane 0 5], pub := PubIn 5\<rparr>"
    by blast
  from t(2) have "chOut (seen t) = [Lane 0 5]" by simp
  with t(1) show ?thesis by auto
qed

end
