(* ===== verification/Shared_Pool.thy ===== *)
theory Shared_Pool
  imports Pool_Refinement
begin

text \<open>
  Several ranges over one pool: the composition of the machines of \<open>Pipeline_Pool\<close>, each of which guarantees what
  the others rely on.
\<close>

subsection \<open>Several ranges over one pool\<close>

text \<open>The goroutines that \<open>RegisterStream\<close> starts serve several ranges at a time, all with the pool of the package. A range
  goes on after its return: its publisher and its workers still run.\<close>

inductive ranges_step :: "(nat \<Rightarrow> GRPC) \<Rightarrow> (nat \<Rightarrow> HeightRange) \<Rightarrow> (nat \<Rightarrow> pooled) \<Rightarrow> (nat \<Rightarrow> pooled) \<Rightarrow> bool" for clients hrs where
  range_acts: "pool_act (clients i) (hrs i) a (ss i) = Ret (Some t)
    \<Longrightarrow> ranges_step clients hrs ss (\<lambda>j. if j = i then t else (ss j)\<lparr>pp := pp t\<rparr>)"

text \<open>A range has failed once \<open>getRange\<close> received an error; it has finished when it returned without one.\<close>

primrec error_of :: "collector \<Rightarrow> go_error option" where
  "error_of Collecting = None"
| "error_of (Reading k) = None"
| "error_of (Forwarding k r) = None"
| "error_of (Signalling r) = or_Error r"
| "error_of (Reporting r) = or_Error r"
| "error_of (Waiting e) = e"
| "error_of (Purifying e) = e"
| "error_of (Returned e) = e"

definition has_failed :: "pooled \<Rightarrow> bool" where
  "has_failed s \<longleftrightarrow> error_of (coll (pl s)) \<noteq> None"

definition finished :: "pooled \<Rightarrow> bool" where
  "finished s \<longleftrightarrow>
     coll (pl s) = Returned None \<and> (pub (pl s) = PubClose \<or> pub (pl s) = PubDone) \<and> chIn (pl s) = [] \<and> held s = {} \<and>
     (\<forall>w < num_workers. \<forall>k. workers (pl s) w \<noteq> Sending k)"

lemma failed_stays:
  assumes "pool_act client hr a s = Ret (Some t)" "has_failed s"
  shows "has_failed t"
proof (cases "a = Collect")
  case True
  with assms show ?thesis
    by (cases "coll (pl s)")
      (auto simp: pool_collect_def has_failed_def lifted_def collect_def go_simps give_back_def
        split: list.splits hBTx.splits option.splits if_splits)
next
  case False
  then have "coll (pl t) = coll (pl s)"
    using assms(1) by (cases a) (auto intro: publish_coll interrupt_coll produce_coll lifted_coll quiet_coll)
  with assms(2) show ?thesis by (simp add: has_failed_def)
qed

lemma not_failed:
  assumes "pipe_inv client hr (seen s)" "\<not> has_failed s"
  shows "unsettled s \<or> coll (pl s) = Returned None"
  using assms failed_at_error [of client hr]
  by (cases "coll (pl s)") (fastforce simp: has_failed_def unsettled_def pipe_inv_def outcome_def split: option.splits)+

text \<open>A range that returned without an error has no channel left, and what its goroutines still do touches none.\<close>

lemma finished_acts:
  assumes "finished s"
  shows "returns (pool_act client hr a s)"
    and "pool_act client hr a s = Ret (Some t) \<Longrightarrow> finished t \<and> pp t = pp s \<and> act client hr a (seen s) = Some (seen t)"
proof -
  note f = assms [unfolded finished_def]
  have buf: "lane_buf s = (\<lambda>_. [])" using f by (simp add: lane_buf_def fun_eq_iff)
  have idle: "worker_produce w (pl s) = None" "pool_produce w s = Ret None" "populate_interrupt (pl s) = None" "collect (pl s) = None" for w
    using f by (auto simp: worker_produce_def pool_produce_def populate_interrupt_def collect_def split: worker.split)
  have lifts: "pool_act client hr a s = lifted (case a of Produce w \<Rightarrow> None | Publish \<Rightarrow> populate_send hr (pl s) | Interrupt \<Rightarrow> None
      | Take w \<Rightarrow> worker_take client w (pl s) | Collect \<Rightarrow> None | Deliver \<Rightarrow> deliver (pl s)) s"
    using f idle by (cases a) (auto simp: pool_publish_def pool_interrupt_def pool_collect_def lifted_def)
  then show "returns (pool_act client hr a s)" by (simp add: lifted_def)
  assume t: "pool_act client hr a s = Ret (Some t)"
  with lifts obtain x where x: "t = s\<lparr>pl := x\<rparr>" "(a = Publish \<and> populate_send hr (pl s) = Some x)
      \<or> (\<exists>w. a = Take w \<and> worker_take client w (pl s) = Some x) \<or> (a = Deliver \<and> deliver (pl s) = Some x)"
    by (cases a) (auto simp: lifted_def)
  then have "act client hr a (seen s) = Some (seen t)" by (auto simp: seen_act)
  moreover have "finished t"
    using x f by (auto simp: finished_def populate_send_def worker_take_def deliver_def split: if_splits list.splits)
  ultimately show "finished t \<and> pp t = pp s \<and> act client hr a (seen s) = Some (seen t)" using x(1) by simp
qed

lemma last_lane_finishes:
  assumes "pool_ok client hr s" "pool_act client hr a s = Ret (Some t)" "coll (pl t) = Returned None"
  shows "finished t"
proof -
  have un: "unsettled s" and inv: "pipe_inv client hr (seen s)" and held: "held s = {first_lane (pl s)..<begun s}"
    using assms(1) by (simp_all add: pool_ok_def holds_lanes_def)
  have "a = Collect"
  proof (rule ccontr)
    assume "a \<noteq> Collect"
    then have "coll (pl t) = coll (pl s)"
      using assms(2) by (cases a) (auto intro: publish_coll interrupt_coll produce_coll lifted_coll quiet_coll)
    with un assms(3) show False by (simp add: unsettled_def)
  qed
  with assms(2,3) un have co: "coll (pl s) = Collecting"
    by (cases "coll (pl s)")
      (auto simp: pool_collect_def unsettled_def lifted_def collect_def finish_round_def go_simps split: list.splits option.splits if_splits)
  obtain c u where l: "live client hr c c u [] (seen s)" "first_lane (pl s) = c" "c \<le> pushed (pl s)"
    by (rule collecting_lane [OF inv co])
  from \<open>a = Collect\<close> co assms(2,3) obtain rest where t: "chOut (pl s) = LastHeight # rest" "t = s\<lparr>pl := (pl s)\<lparr>chOut := rest, coll := Returned None\<rparr>\<rparr>"
    by (auto simp: pool_collect_def lifted_def collect_def split: list.splits hBTx.splits)
  from l(1) have out: "chOut (pl s) = map (\<lambda>k. Lane k (lane_height hr k)) [c..<pushed (pl s)]
      @ (if pub (pl s) = PubClose \<or> pub (pl s) = PubDone then [LastHeight] else [])"
    and chin: "chIn (seen s) = map (\<lambda>k. (k, lane_height hr k)) [u..<offered (pl s)]" and cu: "c \<le> u" "u \<le> offered (pl s)"
    by (simp_all add: live_def queues_ok_def lanes_ok_def)
  have c: "c = pushed (pl s)"
  proof (rule ccontr)
    assume "c \<noteq> pushed (pl s)"
    with l(3) have "[c..<pushed (pl s)] = c # [Suc c..<pushed (pl s)]" by (simp add: upt_conv_Cons)
    with out t(1) show False by simp
  qed
  with out t(1) have pub: "pub (pl s) = PubClose \<or> pub (pl s) = PubDone" by (auto split: if_splits)
  then have eq: "offered (pl s) = pushed (pl s)" "begun s = pushed (pl s)" by (auto simp: offered_def pushed_def begun_def)
  have "workers (pl s) w \<noteq> Sending k" if "w < num_workers" for w k
  proof
    assume "workers (pl s) w = Sending k"
    with l(1) that have "k < u" "todo (pl s) k \<noteq> []" by (auto simp: live_def workers_ok_def busy_sound_def)
    with l(1) cu c eq show False by (simp add: live_def lanes_ok_def)
  qed
  moreover have "chIn (pl s) = []" using chin cu c eq by (simp add: seen_def)
  ultimately show ?thesis using pub held l(2) c eq(2) by (simp add: finished_def t(2))
qed

definition range_ok :: "GRPC \<Rightarrow> HeightRange \<Rightarrow> pooled \<Rightarrow> bool" where
  "range_ok client hr s \<longleftrightarrow>
     owns s \<and> (getRange client hr)\<^sup>*\<^sup>* (pipe_init hr) (seen s) \<and> (pool_ok client hr s \<or> finished s)"

definition ranges_ok :: "(nat \<Rightarrow> GRPC) \<Rightarrow> (nat \<Rightarrow> HeightRange) \<Rightarrow> (nat \<Rightarrow> pooled) \<Rightarrow> bool" where
  "ranges_ok clients hrs ss \<longleftrightarrow>
     (\<forall>i. range_ok (clients i) (hrs i) (ss i))
     \<and> (\<forall>i j. pp (ss i) = pp (ss j) \<and> (i \<noteq> j \<longrightarrow> ours (ss i) \<inter> ours (ss j) = {}))"

lemma range_ok_returns:
  assumes "range_ok client hr s"
  shows "returns (pool_act client hr a s)"
proof (cases "finished s")
  case True
  then show ?thesis by (rule finished_acts)
next
  case False
  with assms have ok: "pool_ok client hr s" by (simp add: range_ok_def)
  then show ?thesis
    using act_follows [OF ok, of a] publish_follows [OF ok] by (cases "a = Publish \<and> awaits_channel s") (auto simp: follows_def)
qed

lemma range_ok_step:
  assumes "range_ok client hr s" "proper_range hr" "pool_act client hr a s = Ret (Some t)" "\<not> has_failed t"
  shows "range_ok client hr t \<and> guarantee s t"
proof (cases "finished s")
  case True
  from finished_acts(2) [OF True assms(3)] have t: "finished t" "pp t = pp s" "act client hr a (seen s) = Some (seen t)" by simp_all
  from True t(1) have "held s = {}" "held t = {}" by (simp_all add: finished_def)
  then have "owns t" "ours t = ours s" using assms(1) t(2) by (simp_all add: range_ok_def owns_def ours_def)
  moreover have "(getRange client hr)\<^sup>*\<^sup>* (pipe_init hr) (seen t)"
    using assms(1) getRange_step [OF t(3)] by (auto simp: range_ok_def intro: rtranclp.rtrancl_into_rtrancl)
  ultimately show ?thesis using t guarantee_same [of s t] assms(1) by (simp add: range_ok_def)
next
  case False
  with assms(1) have ok: "pool_ok client hr s" by (simp add: range_ok_def)
  from pool_ok_step [OF ok assms(2,3)] have t: "guarantee s t" "owns t" "unsettled t \<longrightarrow> pool_ok client hr t"
    "seen t = seen s \<or> act client hr a (seen s) = Some (seen t)" by auto
  from t(4) have "(getRange client hr)\<^sup>*\<^sup>* (pipe_init hr) (seen t)"
    using assms(1) by (auto simp: range_ok_def intro: rtranclp.rtrancl_into_rtrancl getRange_step)
  moreover have "pool_ok client hr t \<or> finished t"
    using t(3) not_failed [OF reachable_pipe_inv [OF assms(2) calculation] assms(4)] last_lane_finishes [OF ok assms(3)] by blast
  ultimately show ?thesis using t(1,2) by (simp add: range_ok_def)
qed

lemma range_ok_others:
  assumes "range_ok client hr s" "rely (ours s) (pp s) p"
  shows "range_ok client hr (s\<lparr>pp := p\<rparr>) \<and> ours (s\<lparr>pp := p\<rparr>) = ours s"
proof -
  have "owns s" using assms(1) by (simp add: range_ok_def)
  from owns_others [OF this assms(2)] pool_ok_others [OF _ assms(2)] assms(1) show ?thesis
    by (auto simp: range_ok_def finished_def)
qed

lemma range_step_others:
  assumes "owns s'" "pp s' = pp s" "ours s' \<inter> ours s = {}" "guarantee s t"
  shows "rely (ours s') (pp s') (pp t) \<and> ours s' \<inter> ours t = {}"
proof -
  have "ours s' \<inter> idle (pp s) = {} \<and> ours s' \<subseteq> dom (chan_at (pp s))"
    using assms(1,2) by (fastforce simp: owns_def ours_def)
  with assms show ?thesis by (simp add: guarantee_def)
qed

lemma ranges_ok_step:
  assumes "ranges_ok clients hrs ss" "\<And>i. proper_range (hrs i)" "ranges_step clients hrs ss ss'" "\<And>i. \<not> has_failed (ss' i)"
  shows "ranges_ok clients hrs ss'"
  using assms(3)
proof cases
  case (range_acts i a t)
  from assms(1) have ok: "range_ok (clients j) (hrs j) (ss j)" and same: "pp (ss j) = pp (ss i)" for j
    unfolding ranges_ok_def by blast+
  have apart: "ours (ss j) \<inter> ours (ss k) = {}" if "j \<noteq> k" for j k using assms(1) that unfolding ranges_ok_def by blast
  have "\<not> has_failed t" using assms(4) [of i] by (simp add: range_acts(1))
  from range_ok_step [OF ok assms(2) range_acts(2) this] have t: "range_ok (clients i) (hrs i) t" "guarantee (ss i) t" by simp_all
  have other: "rely (ours (ss j)) (pp (ss j)) (pp t) \<and> ours (ss j) \<inter> ours t = {}" if "j \<noteq> i" for j
    using range_step_others [OF _ same apart [OF that] t(2)] ok [of j] by (simp add: range_ok_def)
  have kept: "range_ok (clients j) (hrs j) ((ss j)\<lparr>pp := pp t\<rparr>)" "ours ((ss j)\<lparr>pp := pp t\<rparr>) = ours (ss j)" if "j \<noteq> i" for j
    using range_ok_others [OF ok conjunct1 [OF other [OF that]]] by simp_all
  have "range_ok (clients j) (hrs j) (ss' j)" for j using t(1) kept(1) [of j] by (cases "j = i") (simp_all add: range_acts(1))
  moreover have "pp (ss' j) = pp t" for j by (simp add: range_acts(1))
  moreover have "ours (ss' j) \<inter> ours (ss' k) = {}" if "j \<noteq> k" for j k
    using that apart [OF that] other [of j] other [of k] kept(2) [of j] kept(2) [of k]
    by (cases "j = i"; cases "k = i") (auto simp: range_acts(1))
  ultimately show ?thesis unfolding ranges_ok_def by simp
qed

lemma failed_before:
  assumes "ranges_step clients hrs ss ss'" "has_failed (ss i)"
  shows "has_failed (ss' i)"
  using assms(1)
proof cases
  case (range_acts j a t)
  with assms(2) failed_stays [OF range_acts(2)] show ?thesis by (cases "i = j") (simp_all add: has_failed_def)
qed

lemma ranges_reachable:
  assumes "\<And>i. proper_range (hrs i)" "pool_inv p" "all_caps p" "(ranges_step clients hrs)\<^sup>*\<^sup>* (\<lambda>i. pooled_init (hrs i) p) ss"
    and "\<And>i. \<not> has_failed (ss i)"
  shows "ranges_ok clients hrs ss"
  using assms(4,5)
proof (induction rule: rtranclp_induct)
  case base
  have ok: "pool_ok (clients i) (hrs i) (pooled_init (hrs i) p)" and "seen (pooled_init (hrs i) p) = pipe_init (hrs i)" for i
    using pool_init_ok [OF assms(2,3,1)] by blast+
  moreover from ok have "owns (pooled_init (hrs i) p)" for i unfolding pool_ok_def by blast
  moreover have "pp (pooled_init (hrs i) p) = p" "ours (pooled_init (hrs i) p) = {}" for i by (simp_all add: pooled_init_def ours_def)
  ultimately show ?case by (simp add: ranges_ok_def range_ok_def)
next
  case (step ss ss')
  from failed_before [OF step(2)] step.prems have "\<not> has_failed (ss i)" for i by blast
  with step.IH have "ranges_ok clients hrs ss" .
  from ranges_ok_step [OF this assms(1) step(2) step.prems] show ?case .
qed

text \<open>Claim C5: ranges that are fetched at the same time, by any number of \<open>Run\<close> goroutines and in any interleaving, do not
  disturb each other through the pool as long as none of them has received an error, also after some of them have
  returned: each is at every moment in a state that it could be in alone, with a channel of its own for every height, and
  so forwards only the responses of its own range, in order; and none of its goroutines panics on a channel. A range that
  failed does disturb the others: see \<^verbatim>\<open>Pool_Failure\<close>.\<close>

theorem ranges_share_pool:
  assumes "\<And>i. proper_range (hrs i)" and "pool_inv p" and "all_caps p"
    and "(ranges_step clients hrs)\<^sup>*\<^sup>* (\<lambda>i. pooled_init (hrs i) p) ss" and "\<And>i. \<not> has_failed (ss i)"
  shows "(getRange (clients i) (hrs i))\<^sup>*\<^sup>* (pipe_init (hrs i)) (seen (ss i))
    \<and> prefix (sent (pl (ss i)) @ outp (pl (ss i))) (in_order (clients i) (hrs i) (Suc (last_lane (hrs i))))
    \<and> returns (pool_act (clients i) (hrs i) a (ss i))"
proof -
  have ok: "range_ok (clients i) (hrs i) (ss i)" using ranges_reachable [OF assms] by (simp add: ranges_ok_def)
  then have reach: "(getRange (clients i) (hrs i))\<^sup>*\<^sup>* (pipe_init (hrs i)) (seen (ss i))" by (simp add: range_ok_def)
  from pipe_inv_prefix [OF reachable_pipe_inv [OF assms(1) reach]] reach range_ok_returns [OF ok] show ?thesis by simp
qed

theorem ranges_share_pool_witness:
  "\<exists>ss. ranges_step (\<lambda>_. sample_client {}) (\<lambda>_. \<lparr>hr_StartHeight = 5, hr_EndHeight = 6\<rparr>)
       (\<lambda>_. pooled_init \<lparr>hr_StartHeight = 5, hr_EndHeight = 6\<rparr> sample_pool) ss
     \<and> ours (ss 0) = {0} \<and> (getRange (sample_client {}) \<lparr>hr_StartHeight = 5, hr_EndHeight = 6\<rparr>)\<^sup>*\<^sup>*
          (pipe_init \<lparr>hr_StartHeight = 5, hr_EndHeight = 6\<rparr>) (seen (ss 1))"
proof -
  let ?hr = "\<lparr>hr_StartHeight = 5, hr_EndHeight = 6\<rparr>" and ?C = "\<lambda>_::nat. sample_client {}"
  let ?s = "pooled_init ?hr sample_pool"
  have hr: "proper_range ?hr" by (simp add: proper_range_def)
  obtain t where t: "pool_act (sample_client {}) ?hr Publish ?s = Ret (Some t)" "ours t = {0}"
    by (simp add: pool_publish_def pooled_init_def pipe_init_def outRespPool_Get_def pool_Get_def chan_recv_def sample_pool_def
        fresh_chan_def ours_def)
  let ?ss = "\<lambda>j. if j = 0 then t else ?s\<lparr>pp := pp t\<rparr>"
  have step: "ranges_step ?C (\<lambda>_. ?hr) (\<lambda>_. ?s) ?ss"
    by (rule range_acts [where ss = "\<lambda>_. ?s" and i = 0 and a = Publish and t = t]) (use t(1) in simp)
  then have steps: "(ranges_step ?C (\<lambda>_. ?hr))\<^sup>*\<^sup>* (\<lambda>_. ?s) ?ss"
    by (rule r_into_rtranclp [where r = "ranges_step ?C (\<lambda>_. ?hr)"])
  have "coll (pl t) = Collecting" using publish_coll [of ?hr ?s t] t(1) by (simp add: pooled_init_def pipe_init_def)
  then have "\<not> has_failed (?ss i)" for i by (simp add: has_failed_def pooled_init_def pipe_init_def)
  from ranges_share_pool [where i = 1 and ss = ?ss and a = Publish, OF hr sample_pool_inv sample_pool_caps steps this] step t(2)
  show ?thesis by (intro exI [of _ ?ss]) simp
qed

end
