(* ===== verification/Pool_Failure.thy ===== *)
theory Pool_Failure
  imports Shared_Pool
begin

text \<open>
  What a range that failed does to the others: when it discards what is left on \<open>chOut\<close>, it puts the channel of the marker
  of the last height, which is \<open>nil\<close>, into the pool that all ranges share. The range that takes it out waits forever.
\<close>

subsection \<open>Schedules of one range\<close>

primrec pool_run :: "GRPC \<Rightarrow> HeightRange \<Rightarrow> action list \<Rightarrow> pooled \<Rightarrow> pooled option" where
  "pool_run client hr [] s = Some s"
| "pool_run client hr (a # as) s = (case pool_act client hr a s of Ret (Some t) \<Rightarrow> pool_run client hr as t | _ \<Rightarrow> None)"

lemma pool_run_Cons:
  "pool_run client hr (a # as) s = Some u \<longleftrightarrow> (\<exists>t. pool_act client hr a s = Ret (Some t) \<and> pool_run client hr as t = Some u)"
  by (auto split: go.splits option.splits)

lemma pool_run_ranges:
  assumes "pool_run (clients i) (hrs i) as (ss i) = Some t" "\<And>j. pp (ss j) = pp (ss i)"
  shows "(ranges_step clients hrs)\<^sup>*\<^sup>* ss (\<lambda>j. if j = i then t else (ss j)\<lparr>pp := pp t\<rparr>)"
  using assms
proof (induction as arbitrary: ss)
  case Nil
  have "(\<lambda>j. if j = i then t else (ss j)\<lparr>pp := pp t\<rparr>) = ss"
  proof
    fix j
    show "(if j = i then t else (ss j)\<lparr>pp := pp t\<rparr>) = ss j" using Nil.prems(1) Nil.prems(2) [of j] by auto
  qed
  then show ?case by simp
next
  case (Cons a as)
  then obtain u where u: "pool_act (clients i) (hrs i) a (ss i) = Ret (Some u)" "pool_run (clients i) (hrs i) as u = Some t"
    unfolding pool_run_Cons by blast
  let ?ss = "\<lambda>j. if j = i then u else (ss j)\<lparr>pp := pp u\<rparr>"
  have "(ranges_step clients hrs)\<^sup>*\<^sup>* ?ss (\<lambda>j. if j = i then t else (?ss j)\<lparr>pp := pp t\<rparr>)"
    by (rule Cons.IH) (use u(2) in simp_all)
  moreover have "(\<lambda>j. if j = i then t else (?ss j)\<lparr>pp := pp t\<rparr>) = (\<lambda>j. if j = i then t else (ss j)\<lparr>pp := pp t\<rparr>)"
    by (simp add: fun_eq_iff)
  moreover have "ranges_step clients hrs ss ?ss" using u(1) by (rule range_acts)
  ultimately show ?case by (simp only: converse_rtranclp_into_rtranclp [where r = "ranges_step clients hrs"])
qed

subsection \<open>A range with a channel that is \<open>nil\<close>\<close>

text \<open>\<open>getRange\<close> ranges over a \<open>nil\<close> channel, on which nothing can be sent: it stays there.\<close>

definition on_nil :: "pooled \<Rightarrow> bool" where
  "on_nil s \<longleftrightarrow>
     coll (pl s) = Reading 0 \<and> ref s 0 = None \<and> sent (pl s) @ outp (pl s) = [] \<and>
     ((\<exists>h. pub (pl s) = PubOut h) \<longrightarrow> got s \<or> 0 < lanes (pl s))"

lemma pool_produce_same:
  assumes "pool_produce w s = Ret (Some t)"
  obtains k c td ws where "t = (set_chan k c s)\<lparr>pl := (pl s)\<lparr>todo := td, workers := ws\<rparr>\<rparr>"
proof -
  from assms obtain k where k: "w < num_workers" "workers (pl s) w = Sending k"
    by (auto simp: pool_produce_def split: if_splits worker.splits)
  with assms obtain r rs c where rs: "todo (pl s) k = r # rs" "lane_chan s k = Some c"
    by (auto simp: pool_produce_def split: list.splits option.splits)
  with assms k obtain c' where "chan_send r c = Ret (Some c')"
    by (cases "chan_send r c" rule: go.exhaust) (auto simp: pool_produce_def bind_blocking_def go_simps split: option.splits)
  with assms k rs that show thesis by (simp add: pool_produce_def) blast
qed

lemma set_chan_same [simp]: "ref (set_chan k c s) = ref s" "got (set_chan k c s) = got s" "held (set_chan k c s) = held s"
  by (simp_all add: set_chan_def split: option.split)

lemma on_nil_stays:
  assumes "pool_act client hr a s = Ret (Some t)" "on_nil s"
  shows "on_nil t"
proof (cases a)
  case Publish
  with assms show ?thesis
    by (auto simp: pool_publish_def on_nil_def lifted_def populate_send_def with_lane_def split: publisher.splits if_splits)
next
  case Interrupt
  with assms show ?thesis
    by (auto simp: pool_interrupt_def on_nil_def lifted_def populate_interrupt_def recv_errored_def split: publisher.splits if_splits)
next
  case (Take w)
  with assms show ?thesis by (auto simp: lifted_def on_nil_def worker_take_def split: list.splits if_splits)
next
  case (Produce w)
  with assms(1) have "pool_produce w s = Ret (Some t)" by simp
  then show ?thesis by (rule pool_produce_same) (use assms(2) in \<open>simp add: on_nil_def\<close>)
next
  case Collect
  with assms show ?thesis by (simp add: pool_collect_def on_nil_def lane_chan_def)
next
  case Deliver
  with assms show ?thesis by (auto simp: lifted_def on_nil_def deliver_def split: list.splits)
qed

lemma on_nil_forever:
  assumes "(ranges_step clients hrs)\<^sup>*\<^sup>* ss ss'" "on_nil (ss i)"
  shows "on_nil (ss' i)"
  using assms
proof (induction rule: rtranclp_induct)
  case (step ss' ss'')
  from step(2) show ?case
  proof cases
    case (range_acts j a t)
    with step.IH [OF step.prems] on_nil_stays [OF range_acts(2)] show ?thesis
      by (cases "i = j") (simp_all add: on_nil_def)
  qed
qed simp

subsection \<open>The schedule\<close>

definition failing_schedule :: "action list" where
  "failing_schedule =
     [Publish, Publish, Publish, Publish, Publish, Publish, Take 0, Produce 0, Take 1, Take 2, Take 3, Take 4,
      Collect, Collect, Collect, Collect, Collect, Collect, Collect]"

lemmas pool_simps = pool_publish_def pool_produce_def pool_collect_def lifted_def with_lane_def lane_chan_def set_chan_def
  finish_round_def give_back_def outRespPool_Get_def outRespPool_Put_def pool_Get_def pool_Put_def fresh_chan_def outRespDrain_def
  drain_ref_def chan_recv_def chan_send_def go_simps populate_send_def worker_take_def collect_def hbtx_cap_def errored_cap_def
  out_cap_def num_workers_def

lemma failing_range_run:
  assumes "proper_range hr" "last_lane hr = 0" "lane_responses client hr 0 = [r]" "is_error r"
    and "\<not> ch_closed (stor p)" "ch_buf (stor p) = []" "0 < ch_cap (stor p)"
  shows "\<exists>t. pool_run client hr failing_schedule (pooled_init hr p) = Some t \<and> coll (pl t) = Returned (or_Error r)
    \<and> stor (pp t) = (stor p)\<lparr>ch_buf := [None]\<rparr>"
proof -
  have h: "hr_EndHeight hr < hr_StartHeight hr + 1" using last_lane_reached [OF assms(1), of 0] assms(2) by (simp add: lane_height_def)
  have rs: "height_responses client (hr_StartHeight hr) = [r]" using assms(3) by (simp add: lane_responses_def lane_height_def)
  have "\<not> is_partial r" using assms(4) by (simp add: is_error_def is_partial_def)
  with h rs assms(4-7) show ?thesis
    by (simp add: failing_schedule_def pool_simps pooled_init_def pipe_init_def)
qed

lemma next_range_run:
  assumes "\<not> ch_closed (stor p)" "ch_buf (stor p) = [None]"
  shows "\<exists>t. pool_run client hr [Publish, Publish, Collect] (pooled_init hr p) = Some t \<and> on_nil t"
  using assms by (simp add: pool_simps pooled_init_def pipe_init_def on_nil_def)

text \<open>Claim C7: a range that fails can block another range for good. Let the range 0 have one height, which fails, and the pool
  be empty. There is a schedule after which \<open>getRange\<close> has returned the error of range 0, and \<open>getRange\<close> of range 1 never
  returns, whatever is done from then on, and forwards nothing, although none of its heights need fail: range 0 put the
  \<open>nil\<close> channel of the marker of its last height into the pool, and range 1 took it for its first height.\<close>

theorem failed_range_blocks_next:
  assumes "proper_range (hrs 0)" and "last_lane (hrs 0) = 0" and "lane_responses (clients 0) (hrs 0) 0 = [r]" and "is_error r"
    and "pool_inv p" and "ch_buf (stor p) = []" and "0 < ch_cap (stor p)"
  shows "\<exists>ss. (ranges_step clients hrs)\<^sup>*\<^sup>* (\<lambda>i. pooled_init (hrs i) p) ss \<and> coll (pl (ss 0)) = Returned (or_Error r)
    \<and> (\<forall>ss'. (ranges_step clients hrs)\<^sup>*\<^sup>* ss ss' \<longrightarrow> \<not> returned (pl (ss' 1)) \<and> sent (pl (ss' 1)) @ outp (pl (ss' 1)) = [])"
proof -
  let ?init = "\<lambda>i. pooled_init (hrs i) p"
  have shared: "pp (?init j) = pp (?init i)" for i j by (simp add: pooled_init_def)
  have open_p: "\<not> ch_closed (stor p)" using assms(5) by (simp add: pool_inv_def chan_ready_def)
  from failing_range_run [OF assms(1-4) open_p assms(6,7)] obtain t where
    t: "pool_run (clients 0) (hrs 0) failing_schedule (?init 0) = Some t" "coll (pl t) = Returned (or_Error r)"
      "stor (pp t) = (stor p)\<lparr>ch_buf := [None]\<rparr>" by blast
  let ?ss = "\<lambda>j. if j = 0 then t else (?init j)\<lparr>pp := pp t\<rparr>"
  have first: "(ranges_step clients hrs)\<^sup>*\<^sup>* ?init ?ss" using t(1) shared by (rule pool_run_ranges)
  have one: "?ss 1 = pooled_init (hrs 1) (pp t)" by (simp add: pooled_init_def)
  obtain u where u: "pool_run (clients 1) (hrs 1) [Publish, Publish, Collect] (?ss 1) = Some u" "on_nil u"
    using next_range_run [of "pp t" "clients 1" "hrs 1"] open_p t(3) unfolding one by auto
  let ?ss2 = "\<lambda>j. if j = 1 then u else (?ss j)\<lparr>pp := pp u\<rparr>"
  have "(ranges_step clients hrs)\<^sup>*\<^sup>* ?ss ?ss2" 
    by (rule pool_run_ranges [where ss = ?ss and i = 1]) (rule u(1), simp)
  with first have "(ranges_step clients hrs)\<^sup>*\<^sup>* ?init ?ss2" by (rule rtranclp_trans)
  moreover have "coll (pl (?ss2 0)) = Returned (or_Error r)" using t(2) by simp
  moreover have "\<not> returned (pl (ss' 1)) \<and> sent (pl (ss' 1)) @ outp (pl (ss' 1)) = []" if "(ranges_step clients hrs)\<^sup>*\<^sup>* ?ss2 ss'" for ss'
  proof -
    have "on_nil (ss' 1)" by (rule on_nil_forever [OF that]) (simp add: u(2))
    then show ?thesis by (simp add: on_nil_def returned_def)
  qed
  ultimately show ?thesis by blast
qed

definition failing_hrs :: "nat \<Rightarrow> HeightRange" where
  "failing_hrs i = (if i = 0 then \<lparr>hr_StartHeight = 5, hr_EndHeight = 5\<rparr> else \<lparr>hr_StartHeight = 6, hr_EndHeight = 7\<rparr>)"

theorem failed_range_blocks_next_witness:
  "\<exists>ss. (ranges_step (\<lambda>_. sample_client {5}) failing_hrs)\<^sup>*\<^sup>* (\<lambda>i. pooled_init (failing_hrs i) sample_pool) ss
    \<and> coll (pl (ss 0)) \<noteq> Returned None
    \<and> {ss'. (ranges_step (\<lambda>_. sample_client {5}) failing_hrs)\<^sup>*\<^sup>* ss ss' \<and> returned (pl (ss' 1))} = {}"
proof -
  let ?r = "error_resp Block0 (Errorf_w (''error fetching block: '' @ FormatUint 5 @ '' '') (ExtError ''unavailable'') '' '')"
  have "lane_responses (sample_client {5}) (failing_hrs 0) 0 = [?r]"
    by (simp add: lane_responses_def lane_height_def sample_responses failing_hrs_def)
  from failed_range_blocks_next [where hrs = failing_hrs and clients = "\<lambda>_. sample_client {5}" and p = sample_pool, OF _ _ this]
  obtain ss where "(ranges_step (\<lambda>_. sample_client {5}) failing_hrs)\<^sup>*\<^sup>* (\<lambda>i. pooled_init (failing_hrs i) sample_pool) ss"
      "coll (pl (ss 0)) = Returned (or_Error ?r)"
      "\<forall>ss'. (ranges_step (\<lambda>_. sample_client {5}) failing_hrs)\<^sup>*\<^sup>* ss ss'
         \<longrightarrow> \<not> returned (pl (ss' 1)) \<and> sent (pl (ss' 1)) @ outp (pl (ss' 1)) = []"
    using sample_pool_inv by (auto simp: proper_range_def last_lane_def sample_pool_def failing_hrs_def)
  then show ?thesis by (intro exI [of _ ss]) (simp add: error_resp_Error)
qed

end
