(* ===== verification/Log_Format.thy ===== *)
theory Log_Format
  imports Go_Strings
begin

text \<open>
  \<^verbatim>\<open>src/api/types/log_format.go\<close>: \<open>UnmarshalJSON\<close> turns a sequence of JSON objects with the fields \<open>key\<close> and
  \<open>value\<close> into one record that holds the values by key. The decoder is represented by what its calls give: for each
  object the two fields, \<open>None\<close> where the object does not have the field, or the error the call returns. A field that
  an object does not have keeps its old content in the holder, which all calls share.
\<close>

record LogEventsAttributes =
  lea_Module :: string
  lea_Action :: string
  lea_Amount :: "string list"
  lea_Sender :: "string list"
  lea_Validator :: "string \<rightharpoonup> string list"
  lea_Withdraw :: "string \<rightharpoonup> string list"
  lea_Recipient :: "string list"
  lea_CompletionTime :: string
  lea_Commission :: "string list"
  lea_Others :: "(string \<rightharpoonup> string list) option"

definition LogEventsAttributes0 :: LogEventsAttributes where
  "LogEventsAttributes0 =
     \<lparr>lea_Module = [], lea_Action = [], lea_Amount = [], lea_Sender = [], lea_Validator = Map.empty, lea_Withdraw = Map.empty,
      lea_Recipient = [], lea_CompletionTime = [], lea_Commission = [], lea_Others = None\<rparr>"

record kvHolder =
  kv_Key :: string
  kv_Value :: string

type_synonym kv_object = "string option \<times> string option"

text \<open>\<open>dec.Decode(kc)\<close> on one object.\<close>

definition decode_kv :: "kv_object \<Rightarrow> kvHolder \<Rightarrow> kvHolder" where
  "decode_kv obj kc =
     kc\<lparr>kv_Key := (case fst obj of Some k \<Rightarrow> k | None \<Rightarrow> kv_Key kc),
        kv_Value := (case snd obj of Some v \<Rightarrow> v | None \<Rightarrow> kv_Value kc)\<rparr>"

text \<open>The \<open>switch\<close> on \<open>kc.Key\<close>.\<close>

definition put_kv :: "kvHolder \<Rightarrow> LogEventsAttributes \<Rightarrow> LogEventsAttributes" where
  "put_kv kc lea =
     (if kv_Key kc = ''sender'' then lea\<lparr>lea_Sender := lea_Sender lea @ [kv_Value kc]\<rparr>
      else if kv_Key kc = ''recipient'' then lea\<lparr>lea_Recipient := lea_Recipient lea @ [kv_Value kc]\<rparr>
      else if kv_Key kc = ''module'' then lea\<lparr>lea_Module := kv_Value kc\<rparr>
      else if kv_Key kc = ''action'' then lea\<lparr>lea_Action := kv_Value kc\<rparr>
      else if kv_Key kc = ''amount'' then lea\<lparr>lea_Amount := lea_Amount lea @ [kv_Value kc]\<rparr>
      else
        let others = (case lea_Others lea of None \<Rightarrow> Map.empty | Some m \<Rightarrow> m);
            k = (case others (kv_Key kc) of None \<Rightarrow> [] | Some vs \<Rightarrow> vs)
        in lea\<lparr>lea_Others := Some (others(kv_Key kc \<mapsto> k @ [kv_Value kc]))\<rparr>)"

primrec unmarshal_loop ::
  "(string + kv_object) list \<Rightarrow> kvHolder \<Rightarrow> LogEventsAttributes \<Rightarrow> LogEventsAttributes \<times> string option" where
  "unmarshal_loop [] kc lea = (lea, None)"
| "unmarshal_loop (d # ds) kc lea =
     (case d of
        Inl err \<Rightarrow> (lea, Some err)
      | Inr obj \<Rightarrow> let kc = decode_kv obj kc in unmarshal_loop ds kc (put_kv kc lea))"

definition UnmarshalJSON :: "(string + kv_object) list \<Rightarrow> LogEventsAttributes \<Rightarrow> LogEventsAttributes \<times> string option" where
  "UnmarshalJSON ds lea = unmarshal_loop ds \<lparr>kv_Key = [], kv_Value = []\<rparr> lea"

subsection \<open>Values by key\<close>

text \<open>The key and the value that an object stands for: a field it does not have is that of the object before it.\<close>

definition own_or :: "string option \<Rightarrow> string \<Rightarrow> string" where
  "own_or x old = (case x of Some s \<Rightarrow> s | None \<Rightarrow> old)"

primrec carried :: "kv_object list \<Rightarrow> string \<Rightarrow> string \<Rightarrow> (string \<times> string) list" where
  "carried [] k v = []"
| "carried (obj # objs) k v =
     (own_or (fst obj) k, own_or (snd obj) v) # carried objs (own_or (fst obj) k) (own_or (snd obj) v)"

lemma carried_complete: "carried (map (\<lambda>(k, v). (Some k, Some v)) kvs) k0 v0 = kvs"
  by (induction kvs arbitrary: k0 v0) (auto simp: own_or_def)

definition values_of :: "string \<Rightarrow> (string \<times> string) list \<Rightarrow> string list" where
  "values_of key kvs = map snd (filter (\<lambda>(k, v). k = key) kvs)"

definition last_of :: "string \<Rightarrow> (string \<times> string) list \<Rightarrow> string \<Rightarrow> string" where
  "last_of key kvs old = last (old # values_of key kvs)"

text \<open>What is stored under a key: the lists, the single values, and \<open>Others\<close> for every other key.\<close>

definition stored :: "string \<Rightarrow> LogEventsAttributes \<Rightarrow> string list" where
  "stored key lea =
     (if key = ''sender'' then lea_Sender lea else if key = ''recipient'' then lea_Recipient lea
      else if key = ''amount'' then lea_Amount lea
      else case lea_Others lea of None \<Rightarrow> [] | Some m \<Rightarrow> (case m key of None \<Rightarrow> [] | Some vs \<Rightarrow> vs))"

lemma values_of_simps [simp]:
  "values_of key [] = []"
  "values_of key ((k, v) # kvs) = (if k = key then [v] else []) @ values_of key kvs"
  by (auto simp: values_of_def)

lemma decode_carried: "decode_kv obj \<lparr>kv_Key = k, kv_Value = v\<rparr> = \<lparr>kv_Key = own_or (fst obj) k, kv_Value = own_or (snd obj) v\<rparr>"
  by (simp add: decode_kv_def own_or_def split: option.split)

lemma put_kv_stored:
  "key \<noteq> ''module'' \<Longrightarrow> key \<noteq> ''action'' \<Longrightarrow>
     stored key (put_kv \<lparr>kv_Key = k, kv_Value = v\<rparr> lea) = stored key lea @ (if k = key then [v] else [])"
  by (simp add: stored_def put_kv_def Let_def split: option.splits)

lemma put_kv_frame:
  "lea_Validator (put_kv kc lea) = lea_Validator lea" "lea_Withdraw (put_kv kc lea) = lea_Withdraw lea"
  "lea_CompletionTime (put_kv kc lea) = lea_CompletionTime lea" "lea_Commission (put_kv kc lea) = lea_Commission lea"
  by (simp_all add: put_kv_def Let_def)

lemma put_kv_single:
  "lea_Module (put_kv kc lea) = (if kv_Key kc = ''module'' then kv_Value kc else lea_Module lea)"
  "lea_Action (put_kv kc lea) = (if kv_Key kc = ''action'' then kv_Value kc else lea_Action lea)"
  by (simp_all add: put_kv_def Let_def)

lemma last_of_Cons [simp]:
  "last_of key ((k, v) # kvs) old = last_of key kvs (if k = key then v else old)"
  by (simp add: last_of_def)

lemma last_of_Nil [simp]: "last_of key [] old = old"
  by (simp add: last_of_def)

text \<open>How \<open>lea'\<close> extends \<open>lea\<close> by the values of \<open>kvs\<close>.\<close>

definition grouped :: "(string \<times> string) list \<Rightarrow> LogEventsAttributes \<Rightarrow> LogEventsAttributes \<Rightarrow> bool" where
  "grouped kvs lea lea' \<longleftrightarrow>
     (\<forall>key. key \<noteq> ''module'' \<longrightarrow> key \<noteq> ''action'' \<longrightarrow> stored key lea' = stored key lea @ values_of key kvs)
     \<and> lea_Module lea' = last_of ''module'' kvs (lea_Module lea) \<and> lea_Action lea' = last_of ''action'' kvs (lea_Action lea)
     \<and> lea_Validator lea' = lea_Validator lea \<and> lea_Withdraw lea' = lea_Withdraw lea
     \<and> lea_CompletionTime lea' = lea_CompletionTime lea \<and> lea_Commission lea' = lea_Commission lea"

lemma grouped_Cons:
  assumes "grouped kvs (put_kv \<lparr>kv_Key = k, kv_Value = v\<rparr> lea) lea'"
  shows "grouped ((k, v) # kvs) lea lea'"
proof -
  have "stored key lea' = stored key lea @ values_of key ((k, v) # kvs)" if "key \<noteq> ''module''" "key \<noteq> ''action''" for key
    using assms that unfolding grouped_def by (simp only: put_kv_stored values_of_simps append_assoc simp_thms)
  with assms show ?thesis unfolding grouped_def put_kv_frame put_kv_single last_of_Cons by simp
qed

lemma unmarshal_objects:
  "\<exists>lea' kc'. unmarshal_loop (map Inr objs @ ds) \<lparr>kv_Key = k, kv_Value = v\<rparr> lea = unmarshal_loop ds kc' lea'
     \<and> grouped (carried objs k v) lea lea'"
proof (induction objs arbitrary: k v lea)
  case Nil
  then show ?case by (auto simp: grouped_def)
next
  case (Cons obj objs)
  let ?k = "own_or (fst obj) k" and ?v = "own_or (snd obj) v"
  from Cons.IH [of ?k ?v "put_kv \<lparr>kv_Key = ?k, kv_Value = ?v\<rparr> lea"] show ?case
    by (simp add: decode_carried Let_def) (blast intro: grouped_Cons)
qed

text \<open>Claim C35: how attributes are grouped by key, for any objects. Each object stands for its key and its value, a field it does not
  have being that of the object before it. For every key but \<open>module\<close> and \<open>action\<close> the record holds, after the values it
  already had, all values the objects stand for under the key, in their order, and no others; of \<open>module\<close> and \<open>action\<close>
  the last value alone is kept; the fields no key stands for do not change. An object that cannot be decoded ends the call
  with its error, and the record holds what came before it.\<close>

theorem UnmarshalJSON_groups_values:
  "(\<exists>lea'. UnmarshalJSON (map Inr objs) lea = (lea', None) \<and> grouped (carried objs [] []) lea lea')
   \<and> (\<exists>lea'. UnmarshalJSON (map Inr objs @ Inl e # ds) lea = (lea', Some e) \<and> grouped (carried objs [] []) lea lea')"
  using unmarshal_objects [of objs "[]" "[]" "[]" lea] unmarshal_objects [of objs "Inl e # ds" "[]" "[]" lea]
  by (auto simp: UnmarshalJSON_def)

text \<open>The holder is shared by all objects, so an object without a value is given the value of the object before it.\<close>

lemma UnmarshalJSON_stale_value:
  "lea_Recipient (fst (UnmarshalJSON [Inr (Some ''sender'', Some ''a''), Inr (Some ''recipient'', None)] LogEventsAttributes0)) = [''a'']"
  by (simp add: UnmarshalJSON_def decode_kv_def put_kv_def LogEventsAttributes0_def)

end
