(* ===== verification/Logger.thy ===== *)
theory Logger
  imports Go_Strings
begin

text \<open>
  \<^verbatim>\<open>src/cmd/common/logger/logger.go\<close>, which keeps the process-wide logger and its level, and the handler of
  \<^verbatim>\<open>src/cmd/worker-cosmos/dynamic.go\<close> that changes the level over HTTP. Building a logger is zap's work: whether
  it succeeds for a configuration is a parameter. The rollbar client is a global of its package; what \<open>Init\<close> sets
  there is part of the state.
\<close>

datatype Level = DebugLevel | InfoLevel | WarnLevel | ErrorLevel | PanicLevel | FatalLevel

text \<open>zap orders its levels by severity.\<close>

primrec severity :: "Level \<Rightarrow> nat" where
  "severity DebugLevel = 0"
| "severity InfoLevel = 1"
| "severity WarnLevel = 2"
| "severity ErrorLevel = 3"
| "severity PanicLevel = 4"
| "severity FatalLevel = 5"

lemma severity_inject: "severity a = severity b \<longleftrightarrow> a = b"
  by (cases a; cases b) simp_all

instantiation Level :: linorder
begin

definition less_eq_Level :: "Level \<Rightarrow> Level \<Rightarrow> bool" where
  "less_eq_Level a b \<longleftrightarrow> severity a \<le> severity b"

definition less_Level :: "Level \<Rightarrow> Level \<Rightarrow> bool" where
  "less_Level a b \<longleftrightarrow> severity a < severity b"

instance
  by standard (auto simp: less_eq_Level_def less_Level_def severity_inject)

end

text \<open>\<open>strings.ToLower\<close> on bytes, as far as its result is ASCII: besides the capital letters, two characters have an
  ASCII letter as their lower case, U+0130 and U+212A. The bytes of other characters stay outside ASCII, and are kept.\<close>

definition lower_char :: "char \<Rightarrow> char" where
  "lower_char c = (if 65 \<le> (of_char c :: nat) \<and> (of_char c :: nat) \<le> 90 then char_of ((of_char c :: nat) + 32) else c)"

fun ToLower :: "string \<Rightarrow> string" where
  "ToLower [] = []"
| "ToLower [c] = [lower_char c]"
| "ToLower [c, d] = (if c = CHR 0xC4 \<and> d = CHR 0xB0 then [CHR ''i''] else lower_char c # ToLower [d])"
| "ToLower (c # d # e # s) =
     (if c = CHR 0xC4 \<and> d = CHR 0xB0 then CHR ''i'' # ToLower (e # s)
      else if c = CHR 0xE2 \<and> d = CHR 0x84 \<and> e = CHR 0xAA then CHR ''k'' # ToLower s
      else lower_char c # ToLower (d # e # s))"

definition getLevel :: "string \<Rightarrow> Level" where
  "getLevel level =
     (let l = ToLower level
      in if l = ''panic'' then PanicLevel
         else if l = ''fatal'' then FatalLevel
         else if l = ''error'' then ErrorLevel
         else if l = ''warn'' \<or> l = ''warning'' then WarnLevel
         else if l = ''info'' then InfoLevel
         else if l = ''debug'' then DebugLevel
         else InfoLevel)"

record RollbarConfig =
  rb_AccessToken :: string
  rb_ServerRoot :: string
  rb_AppEnv :: string
  rb_Version :: string
  rb_ChainIDs :: "string list"

record zap_config =
  zc_OutputPaths :: "string list"
  zc_Encoding :: string
  zc_Level :: Level

text \<open>The logger: how it was built and whether errors also go to rollbar.\<close>

record zap_logger =
  zl_config :: zap_config
  zl_tee :: bool

text \<open>\<open>Log\<close>, with \<open>None\<close> for the nil logger and for the zero \<open>AtomicLevel\<close>, a nil pointer, that it has before
  \<open>Init\<close>, and the settings of the rollbar package.\<close>

record Logger =
  lg_Logger :: "zap_logger option"
  lg_Level :: "Level option"
  lg_rollbar :: "RollbarConfig option"

definition SetLevel :: "string \<Rightarrow> Logger \<Rightarrow> Logger go" where
  "SetLevel logLevel st =
     (case lg_Level st of
        None \<Rightarrow> Panic NilDereference
      | Some _ \<Rightarrow> Ret (st\<lparr>lg_Level := Some (getLevel logLevel)\<rparr>))"

definition Init ::
  "(zap_config \<Rightarrow> string option) \<Rightarrow> string \<Rightarrow> string \<Rightarrow> string list \<Rightarrow> RollbarConfig option \<Rightarrow> Logger
     \<Rightarrow> (Logger \<times> go_error option) go" where
  "Init build encoding logLevel logOutputs rollbarConfig st =
     (let lLev = getLevel logLevel;
          logConfig = \<lparr>zc_OutputPaths = logOutputs, zc_Encoding = ''json'', zc_Level = lLev\<rparr>
      in case build logConfig of
           Some e \<Rightarrow> Ret (st, Some (ExtError e))
         | None \<Rightarrow>
             (case rollbarConfig of
                Some rc \<Rightarrow>
                  if rb_AccessToken rc \<noteq> [] then
                    if length (rb_AccessToken rc) < 5 then Panic IndexOutOfRange
                    else Ret (st\<lparr>lg_rollbar := Some rc, lg_Logger := Some \<lparr>zl_config = logConfig, zl_tee = True\<rparr>, lg_Level := Some lLev\<rparr>, None)
                  else Ret (st\<lparr>lg_Logger := Some \<lparr>zl_config = logConfig, zl_tee = False\<rparr>, lg_Level := Some lLev\<rparr>, None)
              | None \<Rightarrow> Ret (st\<lparr>lg_Logger := Some \<lparr>zl_config = logConfig, zl_tee = False\<rparr>, lg_Level := Some lLev\<rparr>, None)))"

subsection \<open>Log lines\<close>

text \<open>A wrapper hands its line to zap's logger, at its level. The logger made by \<open>Init\<close> has the level that \<open>SetLevel\<close>
  changes; without it there is no logger either. The method of a nil logger dereferences it; so does \<open>Error\<close> of a nil error. Fields are left out.\<close>

record log_line =
  ln_logger :: zap_logger
  ln_level :: Level
  ln_msg :: string

definition log_at :: "Level \<Rightarrow> string \<Rightarrow> Logger \<Rightarrow> log_line go" where
  "log_at lev msg st =
     (case lg_Logger st of
        None \<Rightarrow> Panic NilDereference
      | Some l \<Rightarrow> Ret \<lparr>ln_logger = l, ln_level = lev, ln_msg = msg\<rparr>)"

definition GetLogger :: "Logger \<Rightarrow> zap_logger option" where
  "GetLogger st = lg_Logger st"

definition log_Debug :: "string \<Rightarrow> Logger \<Rightarrow> log_line go" where
  "log_Debug msg st = log_at DebugLevel msg st"

definition log_Info :: "string \<Rightarrow> Logger \<Rightarrow> log_line go" where
  "log_Info msg st = log_at InfoLevel msg st"

definition log_Warn :: "string \<Rightarrow> Logger \<Rightarrow> log_line go" where
  "log_Warn msg st = log_at WarnLevel msg st"

definition log_Error :: "go_error option \<Rightarrow> Logger \<Rightarrow> log_line go" where
  "log_Error err st =
     (case err of None \<Rightarrow> Panic NilDereference | Some e \<Rightarrow> log_at ErrorLevel (Error e) st)"

definition log_Fatal :: "string \<Rightarrow> Logger \<Rightarrow> log_line go" where
  "log_Fatal msg st = log_at FatalLevel msg st"

text \<open>Where a line goes is zap's decision: \<open>enabled\<close> says whether a core with the first level writes a line of the second,
  and is a parameter. The rollbar core is made with the error level, the outputs have the level of the logger.\<close>

definition written :: "(Level \<Rightarrow> Level \<Rightarrow> bool) \<Rightarrow> Logger \<Rightarrow> log_line \<Rightarrow> string list" where
  "written enabled st ln =
     (case lg_Level st of
        None \<Rightarrow> []
      | Some lev \<Rightarrow> if enabled lev (ln_level ln) then zc_OutputPaths (zl_config (ln_logger ln)) else [])"

definition to_rollbar :: "(Level \<Rightarrow> Level \<Rightarrow> bool) \<Rightarrow> log_line \<Rightarrow> bool" where
  "to_rollbar enabled ln \<longleftrightarrow> zl_tee (ln_logger ln) \<and> enabled ErrorLevel (ln_level ln)"

subsection \<open>The level over HTTP\<close>

record http_response =
  hs_status :: nat
  hs_body :: string

definition StatusOK :: nat where "StatusOK = 200"
definition StatusBadRequest :: nat where "StatusBadRequest = 400"

text \<open>The handler of \<open>/loglevel\<close>; its argument is \<open>q.Get("level")\<close>, empty when the parameter is absent.\<close>

definition attachDynamic :: "string \<Rightarrow> Logger \<Rightarrow> (http_response \<times> Logger) go" where
  "attachDynamic l st =
     (if l = [] then Ret (\<lparr>hs_status = StatusBadRequest, hs_body = ''{\"error\":\"level parameter has to be set\"}''\<rparr>, st)
      else if l \<noteq> ''panic'' \<and> l \<noteq> ''fatal'' \<and> l \<noteq> ''error'' \<and> l \<noteq> ''warn'' \<and> l \<noteq> ''info'' \<and> l \<noteq> ''debug'' then
        Ret (\<lparr>hs_status = StatusBadRequest,
          hs_body = ''{\"error\":\"level parameter has to be one of:  panic,fatal,error,warn,info,debug\"}''\<rparr>, st)
      else bind_go (SetLevel l st) (\<lambda>st. Ret (\<lparr>hs_status = StatusOK, hs_body = []\<rparr>, st)))"

definition level_name :: "Level \<Rightarrow> string" where
  "level_name l =
     (case l of DebugLevel \<Rightarrow> ''debug'' | InfoLevel \<Rightarrow> ''info'' | WarnLevel \<Rightarrow> ''warn'' | ErrorLevel \<Rightarrow> ''error''
      | PanicLevel \<Rightarrow> ''panic'' | FatalLevel \<Rightarrow> ''fatal'')"

lemma getLevel_name: "getLevel (level_name l) = l"
  by (cases l) (simp_all add: getLevel_def level_name_def lower_char_def)

definition named_level :: "string \<Rightarrow> Level option" where
  "named_level l = find (\<lambda>lev. level_name lev = l) [PanicLevel, FatalLevel, ErrorLevel, WarnLevel, InfoLevel, DebugLevel]"

text \<open>A request to \<open>/loglevel\<close> sets the level that it names and answers 200; any other value, also \<open>warning\<close>, which
  \<open>getLevel\<close> would take, a name in capitals and the empty one, is answered 400 and changes nothing. Before \<open>Init\<close> a
  request that names a level dereferences the nil pointer of the zero \<open>AtomicLevel\<close>.\<close>

lemma attachDynamic_named: "attachDynamic (level_name lev) st = bind_go (SetLevel (level_name lev) st) (\<lambda>st. Ret (\<lparr>hs_status = StatusOK, hs_body = []\<rparr>, st))"
  by (cases lev) (simp_all add: attachDynamic_def level_name_def)

lemma loglevel_before_Init_panics: "lg_Level st = None \<Longrightarrow> attachDynamic (level_name lev) st = Panic NilDereference"
  by (simp add: attachDynamic_named SetLevel_def go_simps)

lemma loglevel_sets_named_level:
  assumes "lg_Level st = Some cur"
  shows "\<exists>resp. attachDynamic l st = Ret (resp, case named_level l of Some lev \<Rightarrow> st\<lparr>lg_Level := Some lev\<rparr> | None \<Rightarrow> st)
   \<and> hs_status resp = (case named_level l of Some lev \<Rightarrow> StatusOK | None \<Rightarrow> StatusBadRequest)
   \<and> (case named_level l of Some lev \<Rightarrow> l = level_name lev | None \<Rightarrow> l \<notin> range level_name)"
proof (cases "l \<in> range level_name")
  case True
  then obtain lev where "l = level_name lev" by blast
  moreover from this have "named_level l = Some lev" by (cases lev) (simp_all add: named_level_def level_name_def)
  ultimately show ?thesis using assms by (simp add: attachDynamic_named SetLevel_def getLevel_name go_simps)
next
  case False
  then have ne: "\<And>lev. level_name lev \<noteq> l" by blast
  then have "named_level l = None" by (simp add: named_level_def)
  moreover have "\<exists>body. attachDynamic l st = Ret (\<lparr>hs_status = StatusBadRequest, hs_body = body\<rparr>, st)"
    using ne [of PanicLevel] ne [of FatalLevel] ne [of ErrorLevel] ne [of WarnLevel] ne [of InfoLevel] ne [of DebugLevel]
    by (simp add: attachDynamic_def level_name_def del: list.inject)
  ultimately show ?thesis using False by auto
qed

text \<open>An access token shorter than five bytes stops the process: the log line takes its first five.\<close>

lemma Init_short_token_panics:
  assumes "build \<lparr>zc_OutputPaths = outs, zc_Encoding = ''json'', zc_Level = getLevel level\<rparr> = None"
    and "rb_AccessToken rc \<noteq> []" and "length (rb_AccessToken rc) < 5"
  shows "Init build encoding level outs (Some rc) st = Panic IndexOutOfRange"
  using assms by (simp add: Init_def)

text \<open>The encoding that is asked for has no effect.\<close>

lemma Init_ignores_encoding: "Init build ''console'' level outs rc st = Init build ''json'' level outs rc st"
  by (simp add: Init_def)

end
