(* ===== verification/Http_Mux.thy ===== *)
theory Http_Mux
  imports Logger "HOL-Library.Sublist"
begin

text \<open>
  The HTTP side of the worker: the routes that \<open>main\<close> registers (\<^verbatim>\<open>src/cmd/worker-cosmos/main.go\<close>, \<^verbatim>\<open>profiling.go\<close>
  and \<^verbatim>\<open>profiling_disabled.go\<close>, of which the build chooses one) on a \<open>ServeMux\<close> of Go's library, and how a
  request finds its handler. The routes of the health monitor are a parameter, as are the answers of all handlers but that
  of \<^verbatim>\<open>dynamic.go\<close>. Paths are clean, as a client sends them, and patterns have no host.
\<close>

datatype handler =
    PprofIndex
  | PprofCmdline
  | PprofProfile
  | PprofSymbol
  | PprofTrace
  | HealthHandler string
  | LogLevelHandler
  | MetricsHandler

type_synonym mux = "(string \<times> handler) list"

text \<open>\<open>ServeMux.Handle\<close> panics on an empty pattern and on one that is registered.\<close>

definition Handle :: "string \<Rightarrow> handler \<Rightarrow> mux \<Rightarrow> mux go" where
  "Handle pattern h m = (if pattern = [] \<or> pattern \<in> fst ` set m then Panic InvalidPattern else Ret (m @ [(pattern, h)]))"

fun Handle_all :: "(string \<times> handler) list \<Rightarrow> mux \<Rightarrow> mux go" where
  "Handle_all [] m = Ret m"
| "Handle_all ((pattern, h) # rs) m = bind_go (Handle pattern h m) (Handle_all rs)"

definition pprof_routes :: "(string \<times> handler) list" where
  "pprof_routes = [(''/debug/pprof/'', PprofIndex), (''/debug/pprof/cmdline'', PprofCmdline), (''/debug/pprof/profile'', PprofProfile),
     (''/debug/pprof/symbol'', PprofSymbol), (''/debug/pprof/trace'', PprofTrace)]"

text \<open>The flag is the build tag.\<close>

definition attachProfiling :: "bool \<Rightarrow> mux \<Rightarrow> mux go" where
  "attachProfiling profiling m = (if profiling then Handle_all pprof_routes m else Ret m)"

definition worker_mux :: "bool \<Rightarrow> string list \<Rightarrow> mux go" where
  "worker_mux profiling health =
     bind_go (attachProfiling profiling []) (\<lambda>m.
     bind_go (Handle_all (map (\<lambda>p. (p, HealthHandler p)) health) m) (\<lambda>m.
     bind_go (Handle ''/loglevel'' LogLevelHandler m) (\<lambda>m.
     Handle ''/metrics'' MetricsHandler m)))"

subsection \<open>Finding the handler\<close>

datatype route = Served handler | Redirected | NotFound

definition subtree :: "string \<Rightarrow> string \<Rightarrow> bool" where
  "subtree pattern path \<longleftrightarrow> pattern \<noteq> [] \<and> last pattern = CHR ''/'' \<and> prefix pattern path"

text \<open>The longest pattern that ends in a slash and begins the path.\<close>

fun longest_subtree :: "string \<Rightarrow> mux \<Rightarrow> (string \<times> handler) option" where
  "longest_subtree path [] = None"
| "longest_subtree path ((p, h) # m) =
     (case longest_subtree path m of
        None \<Rightarrow> if subtree p path then Some (p, h) else None
      | Some (q, g) \<Rightarrow> if subtree p path \<and> length q < length p then Some (p, h) else Some (q, g))"

definition route_of :: "mux \<Rightarrow> string \<Rightarrow> route" where
  "route_of m path =
     (case map_of m path of
        Some h \<Rightarrow> Served h
      | None \<Rightarrow>
          if path \<noteq> [] \<and> last path \<noteq> CHR ''/'' \<and> map_of m (path @ ''/'') \<noteq> None then Redirected
          else (case longest_subtree path m of Some (p, h) \<Rightarrow> Served h | None \<Rightarrow> NotFound))"

text \<open>A request with the value of its parameter \<open>level\<close>; \<open>other\<close> gives the answers of the library, to a route it has no
  handler for as well. A \<open>Panic\<close> is that of the handler, which the server of Go's library recovers for the connection.\<close>

definition serve_http :: "(route \<Rightarrow> string \<Rightarrow> http_response) \<Rightarrow> mux \<Rightarrow> string \<Rightarrow> string \<Rightarrow> Logger \<Rightarrow> (http_response \<times> Logger) go" where
  "serve_http other m path level st =
     (if route_of m path = Served LogLevelHandler then attachDynamic level st else Ret (other (route_of m path) path, st))"

subsection \<open>The routes of the worker\<close>

text \<open>What the health monitor may register beside the worker's own routes.\<close>

definition free_routes :: "string list \<Rightarrow> bool" where
  "free_routes health \<longleftrightarrow> distinct health
     \<and> list_all (\<lambda>p. p \<noteq> [] \<and> p \<notin> fst ` set pprof_routes \<and> p \<noteq> ''/loglevel'' \<and> p \<noteq> ''/metrics'') health"

definition worker_routes :: "bool \<Rightarrow> string list \<Rightarrow> mux" where
  "worker_routes profiling health =
     (if profiling then pprof_routes else []) @ map (\<lambda>p. (p, HealthHandler p)) health
       @ [(''/loglevel'', LogLevelHandler), (''/metrics'', MetricsHandler)]"

lemma Handle_all_ok:
  assumes "distinct (map fst rs)" "list_all (\<lambda>(p, h). p \<noteq> [] \<and> p \<notin> fst ` set m) rs"
  shows "Handle_all rs m = Ret (m @ rs)"
  using assms
proof (induction rs arbitrary: m)
  case (Cons r rs)
  obtain p h where r: "r = (p, h)" by (cases r)
  have "list_all (\<lambda>(p', h). p' \<noteq> [] \<and> p' \<notin> fst ` set (m @ [(p, h)])) rs"
    using Cons.prems r by (auto simp: list_all_iff image_iff)
  with Cons r show ?case by (simp add: Handle_def)
qed simp

lemma pprof_patterns: "distinct (map fst pprof_routes)" "[] \<notin> fst ` set pprof_routes"
  "''/loglevel'' \<notin> fst ` set pprof_routes" "''/metrics'' \<notin> fst ` set pprof_routes"
  by (simp_all add: pprof_routes_def)

lemma attachProfiling_routes: "attachProfiling profiling [] = Ret (if profiling then pprof_routes else [])"
  by (simp add: attachProfiling_def pprof_routes_def Handle_def)

lemma worker_mux_routes:
  assumes "free_routes health"
  shows "worker_mux profiling health = Ret (worker_routes profiling health)"
proof -
  let ?pp = "if profiling then pprof_routes else []" and ?hr = "map (\<lambda>p. (p, HealthHandler p)) health"
  have "Handle_all ?hr ?pp = Ret (?pp @ ?hr)"
    using assms by (intro Handle_all_ok) (auto simp: free_routes_def list_all_iff comp_def)
  moreover have "''/loglevel'' \<notin> fst ` set (?pp @ ?hr)" "''/metrics'' \<notin> fst ` set (?pp @ ?hr)"
    using assms pprof_patterns by (auto simp: free_routes_def list_all_iff)
  ultimately show ?thesis by (simp add: worker_mux_def worker_routes_def attachProfiling_routes Handle_def image_Un)
qed

text \<open>The patterns of \<open>pprof\<close> are distinct, and no route of the monitor is among them, so each has its own handler.\<close>

lemma worker_routes_pprof:
  assumes "(q, h) \<in> set pprof_routes"
  shows "map_of (worker_routes True health) q = Some h"
proof -
  have "map_of pprof_routes q = Some h" using assms pprof_patterns(1) by simp
  then show ?thesis using assms
    by (simp add: worker_routes_def map_add_def)
qed

lemma worker_routes_map:
  assumes "free_routes health"
  shows "map_of (worker_routes profiling health) ''/loglevel'' = Some LogLevelHandler"
    and "map_of (worker_routes profiling health) ''/metrics'' = Some MetricsHandler"
    and "p \<in> set health \<Longrightarrow> map_of (worker_routes profiling health) p = Some (HealthHandler p)"
proof -
  have health: "map_of (map (\<lambda>p. (p, HealthHandler p)) health) q = (if q \<in> set health then Some (HealthHandler q) else None)" for q
    by (induction health) auto
  have pp: "map_of pprof_routes q = None" if "q \<notin> fst ` set pprof_routes" for q using that by (simp add: map_of_eq_None_iff)
  have own: "''/loglevel'' \<notin> set health" "''/metrics'' \<notin> set health" and q: "\<And>q. q \<in> set health \<Longrightarrow> q \<notin> fst ` set pprof_routes"
    using assms by (auto simp: free_routes_def list_all_iff)
  show "map_of (worker_routes profiling health) ''/loglevel'' = Some LogLevelHandler"
    "map_of (worker_routes profiling health) ''/metrics'' = Some MetricsHandler"
    using own pp [OF pprof_patterns(3)] pp [OF pprof_patterns(4)]
    by (simp_all add: worker_routes_def map_add_def health split: option.splits)
  show "map_of (worker_routes profiling health) p = Some (HealthHandler p)" if "p \<in> set health"
    using that own pp [OF q [OF that]] by (auto simp: worker_routes_def map_add_def health split: option.splits)
qed

lemma longest_subtree_in: "longest_subtree path m = Some (p, h) \<Longrightarrow> (p, h) \<in> set m \<and> subtree p path"
  by (induction path m arbitrary: p h rule: longest_subtree.induct) (fastforce split: option.splits if_splits)+

lemma route_in_mux: "route_of m path = Served h \<Longrightarrow> \<exists>p. (p, h) \<in> set m \<and> prefix p path"
  by (auto simp: route_of_def subtree_def split: option.splits if_splits dest!: map_of_SomeD longest_subtree_in)

text \<open>Claim C39: the routes of the worker. Unless the health monitor takes one of them, registering them does not panic, and then
  \<open>/loglevel\<close>, \<open>/metrics\<close> and the monitor's own routes reach their handlers; in a build with profiling so do the five
  routes of \<open>pprof\<close>, each its own; a profiling handler is reached only in such a build, and there only below
  \<open>/debug/pprof/\<close>.\<close>

theorem worker_mux_serves:
  assumes "free_routes health"
  shows "\<exists>m. worker_mux profiling health = Ret m
    \<and> route_of m ''/loglevel'' = Served LogLevelHandler \<and> route_of m ''/metrics'' = Served MetricsHandler
    \<and> list_all (\<lambda>p. route_of m p = Served (HealthHandler p)) health
    \<and> (profiling \<longrightarrow> route_of m ''/debug/pprof/'' = Served PprofIndex \<and> route_of m ''/debug/pprof/cmdline'' = Served PprofCmdline
         \<and> route_of m ''/debug/pprof/profile'' = Served PprofProfile \<and> route_of m ''/debug/pprof/symbol'' = Served PprofSymbol
         \<and> route_of m ''/debug/pprof/trace'' = Served PprofTrace)
    \<and> (\<forall>path h. route_of m path = Served h \<and> h \<in> {PprofIndex, PprofCmdline, PprofProfile, PprofSymbol, PprofTrace}
         \<longrightarrow> profiling \<and> prefix ''/debug/pprof/'' path)"
proof (intro exI [of _ "worker_routes profiling health"] conjI allI impI)
  let ?m = "worker_routes profiling health"
  show "worker_mux profiling health = Ret ?m" by (rule worker_mux_routes [OF assms])
  show "route_of ?m ''/loglevel'' = Served LogLevelHandler" "route_of ?m ''/metrics'' = Served MetricsHandler"
    "list_all (\<lambda>p. route_of ?m p = Served (HealthHandler p)) health"
    using worker_routes_map [OF assms] by (simp_all add: route_of_def list_all_iff)
  show "route_of ?m ''/debug/pprof/'' = Served PprofIndex" "route_of ?m ''/debug/pprof/cmdline'' = Served PprofCmdline"
    "route_of ?m ''/debug/pprof/profile'' = Served PprofProfile" "route_of ?m ''/debug/pprof/symbol'' = Served PprofSymbol"
    "route_of ?m ''/debug/pprof/trace'' = Served PprofTrace" if profiling
    using that by (simp_all add: route_of_def worker_routes_pprof pprof_routes_def)
  fix path h
  assume r: "route_of ?m path = Served h \<and> h \<in> {PprofIndex, PprofCmdline, PprofProfile, PprofSymbol, PprofTrace}"
  then obtain p where p: "(p, h) \<in> set ?m" "prefix p path" using route_in_mux by blast
  have "(p, h) \<in> set (if profiling then pprof_routes else [])"
    using p(1) r by (auto simp: worker_routes_def)
  then have "profiling" "(p, h) \<in> set pprof_routes" by (simp_all split: if_splits)
  moreover from this(2) have "prefix ''/debug/pprof/'' p" by (auto simp: pprof_routes_def)
  ultimately show "profiling" "prefix ''/debug/pprof/'' path" using p(2) by (auto intro: prefix_order.trans)
qed

theorem worker_mux_serves_witness:
  "\<exists>m. worker_mux True [''/health'', ''/readiness''] = Ret m \<and> route_of m ''/readiness'' = Served (HealthHandler ''/readiness'')
     \<and> route_of m ''/loglevel'' = Served LogLevelHandler \<and> route_of m ''/debug/pprof/trace'' = Served PprofTrace"
  using worker_mux_serves [of "[''/health'', ''/readiness'']" True] by (auto simp: free_routes_def pprof_routes_def)

text \<open>A monitor that registers a route of the worker stops it at start.\<close>

lemma taken_route_panics: "worker_mux profiling [''/metrics''] = Panic InvalidPattern"
  using pprof_patterns(4) by (auto simp: worker_mux_def attachProfiling_routes Handle_def)

text \<open>With profiling, a path below the index goes to the index, and the path without its slash is redirected.\<close>

lemma pprof_subtree:
  "route_of (worker_routes True []) ''/debug/pprof/heap'' = Served PprofIndex"
  "route_of (worker_routes True []) ''/debug/pprof'' = Redirected"
  "route_of (worker_routes True []) ''/debug/pprof/trace'' = Served PprofTrace"
  by (simp_all add: route_of_def worker_routes_def pprof_routes_def subtree_def)

subsection \<open>The level of the log\<close>

lemma named_level_name: "named_level (level_name lev) = Some lev"
  by (cases lev) (simp_all add: named_level_def level_name_def)

text \<open>Claim C38: changing the level from outside. When cores write a line exactly if it is not below their level, as zap
  documents, then a request to \<open>/loglevel\<close> that names a level, through the routes of the worker, is answered 200, and from
  then on the wrappers write exactly the lines at that level and above to the outputs of the logger; errors go to rollbar,
  when that is enabled, whatever the level. A request with any other value is answered 400 and changes nothing.\<close>

theorem loglevel_filters_lines:
  assumes "free_routes health" and "\<And>core ln. enabled core ln \<longleftrightarrow> core \<le> ln" and "lg_Logger st = Some l"
    and "lg_Level st = Some cur" and "worker_mux profiling health = Ret m"
  shows "\<exists>resp st'. serve_http other m ''/loglevel'' level st = Ret (resp, st') \<and> (case named_level level of
      None \<Rightarrow> hs_status resp = StatusBadRequest \<and> st' = st
    | Some lev \<Rightarrow> hs_status resp = StatusOK
        \<and> list_all (\<lambda>(call, v). \<exists>ln. call st' = Ret ln
              \<and> written enabled st' ln = (if lev \<le> v then zc_OutputPaths (zl_config l) else [])
              \<and> (to_rollbar enabled ln \<longleftrightarrow> zl_tee l \<and> ErrorLevel \<le> v))
            [(log_Debug msg, DebugLevel), (log_Info msg, InfoLevel), (log_Warn msg, WarnLevel), (log_Error (Some e), ErrorLevel),
             (log_Fatal msg, FatalLevel)])"
proof -
  from assms(1,5) worker_mux_routes have "m = worker_routes profiling health" by simp
  with worker_routes_map [OF assms(1)] have "serve_http other m ''/loglevel'' level st = attachDynamic level st"
    by (simp add: serve_http_def route_of_def)
  with loglevel_sets_named_level [OF assms(4), of level] obtain resp where
    resp: "serve_http other m ''/loglevel'' level st
        = Ret (resp, case named_level level of Some lev \<Rightarrow> st\<lparr>lg_Level := Some lev\<rparr> | None \<Rightarrow> st)"
      "hs_status resp = (case named_level level of Some lev \<Rightarrow> StatusOK | None \<Rightarrow> StatusBadRequest)"
    by auto
  show ?thesis
    by (rule exI [of _ resp], rule exI [of _ "case named_level level of Some lev \<Rightarrow> st\<lparr>lg_Level := Some lev\<rparr> | None \<Rightarrow> st"])
      (use resp assms(2,3) in \<open>simp add: log_Debug_def log_Info_def log_Warn_def log_Error_def log_Fatal_def log_at_def written_def
        to_rollbar_def split: option.split\<close>)
qed

definition sample_logging :: Logger where
  "sample_logging =
     \<lparr>lg_Logger = Some \<lparr>zl_config = \<lparr>zc_OutputPaths = [''stderr''], zc_Encoding = ''json'', zc_Level = InfoLevel\<rparr>, zl_tee = True\<rparr>,
      lg_Level = Some InfoLevel, lg_rollbar = None\<rparr>"

theorem loglevel_filters_lines_witness:
  "\<exists>m resp st' ln. worker_mux False [''/health''] = Ret m
     \<and> serve_http (\<lambda>_ _. \<lparr>hs_status = 200, hs_body = []\<rparr>) m ''/loglevel'' ''warn'' sample_logging = Ret (resp, st')
     \<and> hs_status resp = StatusOK \<and> log_Info ''x'' st' = Ret ln \<and> written (\<le>) st' ln = []"
proof -
  have free: "free_routes [''/health'']" by (simp add: free_routes_def pprof_routes_def)
  have "named_level ''warn'' = Some WarnLevel" using named_level_name [of WarnLevel] by (simp add: level_name_def)
  moreover have "\<not> WarnLevel \<le> InfoLevel" by (simp add: less_eq_Level_def)
  ultimately show ?thesis
    using loglevel_filters_lines [OF free _ _ _ worker_mux_routes [OF free], where enabled = "(\<le>)" and msg = "''x''"
        and st = sample_logging and level = "''warn''" and other = "\<lambda>_ _. \<lparr>hs_status = 200, hs_body = []\<rparr>" and profiling = False]
      worker_mux_routes [OF free, of False]
    by (fastforce simp: sample_logging_def)
qed

end
