(* ===== verification/Worker.thy ===== *)
theory Worker
  imports Complex_Main Http_Mux Indexer Block_Cache
begin

text \<open>
  \<^verbatim>\<open>src/cmd/worker-cosmos/main.go\<close> with \<^verbatim>\<open>config/config.go\<close> and \<^verbatim>\<open>config/version.go\<close>, and \<open>NewClient\<close> of
  \<^verbatim>\<open>src/api/client.go\<close>: how the configuration is found, how the parts are put together and how the process stops. What
  \<open>main\<close> does to the outside is a list of effects. Reading a file, decoding it, envconfig, the generation of the run id,
  dialling, zap, the build tag and the routes of the health monitor are parameters; a \<open>float64\<close> of the configuration is a rational number, and the value of a conversion
  that Go leaves to the implementation is a parameter, too.
\<close>

subsection \<open>Configuration\<close>

record Config =
  cfg_AppEnv :: string
  cfg_Address :: string
  cfg_Port :: string
  cfg_HTTPPort :: string
  cfg_CosmosGRPCAddr :: string
  cfg_ChainID :: string
  cfg_Managers :: string
  cfg_ManagerInterval :: int64
  cfg_Hostname :: string
  cfg_MaximumHeightsToGet :: rat
  cfg_RequestsPerSecond :: int64
  cfg_RollbarAccessToken :: string
  cfg_RollbarServerRoot :: string
  cfg_HealthCheckInterval :: int64
  cfg_TimeoutBlockCall :: int64
  cfg_TimeoutTransactionCall :: int64

definition Config0 :: Config where
  "Config0 =
     \<lparr>cfg_AppEnv = [], cfg_Address = [], cfg_Port = [], cfg_HTTPPort = [], cfg_CosmosGRPCAddr = [], cfg_ChainID = [], cfg_Managers = [],
      cfg_ManagerInterval = 0, cfg_Hostname = [], cfg_MaximumHeightsToGet = 0, cfg_RequestsPerSecond = 0, cfg_RollbarAccessToken = [],
      cfg_RollbarServerRoot = [], cfg_HealthCheckInterval = 0, cfg_TimeoutBlockCall = 0, cfg_TimeoutTransactionCall = 0\<rparr>"

record outside =
  ReadFile :: "string \<Rightarrow> ext_error + bytes"
  json_Config :: "bytes \<Rightarrow> Config \<Rightarrow> Config \<times> ext_error option"
  envconfig_Process :: "Config \<Rightarrow> Config \<times> ext_error option"
  uuid_NewRandom :: "ext_error + string"
  DialContext :: "string \<Rightarrow> ext_error option"
  zap_Build :: "zap_config \<Rightarrow> ext_error option"
  float_outside_uint64 :: "rat \<Rightarrow> uint64"
  profiling_build :: bool
  health_routes :: "string list"

definition FromFile :: "outside \<Rightarrow> string \<Rightarrow> Config \<Rightarrow> Config \<times> go_error option" where
  "FromFile os path config =
     (case ReadFile os path of
        Inl e \<Rightarrow> (config, Some (ExtError e))
      | Inr data \<Rightarrow> (case json_Config os data config of (c, err) \<Rightarrow> (c, map_option ExtError err)))"

definition FromEnv :: "outside \<Rightarrow> Config \<Rightarrow> Config \<times> go_error option" where
  "FromEnv os config = (case envconfig_Process os config of (c, err) \<Rightarrow> (c, map_option ExtError err))"

definition initConfig :: "outside \<Rightarrow> string \<Rightarrow> Config option \<times> go_error option" where
  "initConfig os path =
     (case (if path \<noteq> [] then FromFile os path Config0 else (Config0, None)) of
        (cfg, Some e) \<Rightarrow> (None, Some e)
      | (cfg, None) \<Rightarrow>
          if cfg_CosmosGRPCAddr cfg \<noteq> [] then (Some cfg, None)
          else (case FromEnv os cfg of (cfg, Some e) \<Rightarrow> (None, Some e) | (cfg, None) \<Rightarrow> (Some cfg, None)))"

text \<open>\<open>IdentityString\<close>; the text of a time depends on the time zone. \<open>strconv.Atoi\<close> accepts what fits 64 bits.\<close>

definition Atoi :: "string \<Rightarrow> int option" where
  "Atoi s = (case SetString10 s of Some i \<Rightarrow> if - (2 ^ 63) \<le> i \<and> i < 2 ^ 63 then Some i else None | None \<Rightarrow> None)"

definition IdentityString :: "(int \<Rightarrow> string) \<Rightarrow> string \<Rightarrow> string \<Rightarrow> string \<Rightarrow> string" where
  "IdentityString unix_text Version GitSHA Timestamp =
     (let timestamp = (case Atoi Timestamp of Some t \<Rightarrow> unix_text t | None \<Rightarrow> Timestamp)
      in ''cosmos-worker'' @ '' '' @ Version @ '' (git: '' @ GitSHA @ '') - built at '' @ timestamp)"

subsection \<open>The API client\<close>

record ClientConfig =
  cc_ReqPerSecond :: int64
  cc_TimeoutBlockCall :: int64
  cc_TimeoutSearchTxCall :: int64

record Client =
  cl_Sbc :: SimpleBlockCache
  cl_limit :: int64
  cl_burst :: int64
  cl_cfg :: ClientConfig

definition NewClient :: "ClientConfig \<Rightarrow> Client go" where
  "NewClient cfg =
     bind_go (NewSimpleBlockCache 400) (\<lambda>sbc.
       Ret \<lparr>cl_Sbc = sbc, cl_limit = cc_ReqPerSecond cfg, cl_burst = cc_ReqPerSecond cfg, cl_cfg = cfg\<rparr>)"

subsection \<open>Start\<close>

datatype effect =
    Fatalf string
  | LogError string
  | LogInfo string
  | Connect string string string string string "string list"
  | Dialled string
  | ServeGRPC string
  | ServeHTTP string mux
  | Cancel
  | StopGRPC
  | ShutdownHTTP
  | CloseConn

text \<open>\<open>uint64(f)\<close> drops the fraction; it is not determined by Go for a number without a place in \<open>uint64\<close>.\<close>

definition uint64_of_float :: "outside \<Rightarrow> rat \<Rightarrow> uint64" where
  "uint64_of_float os r =
     (if - 1 < r \<and> r < 2 ^ 64 then (if r < 0 then 0 else word_of_int \<lfloor>r\<rfloor>) else float_outside_uint64 os r)"

definition with_server_root :: "Config \<Rightarrow> Config" where
  "with_server_root cfg =
     (if cfg_RollbarServerRoot cfg = [] then cfg\<lparr>cfg_RollbarServerRoot := ''github.com/figment-networks/cosmos-worker''\<rparr> else cfg)"

definition init_logger :: "outside \<Rightarrow> string \<Rightarrow> Config \<Rightarrow> Logger \<Rightarrow> (Logger \<times> go_error option) go" where
  "init_logger os GitSHA cfg lg =
     (let rcfg = \<lparr>rb_AccessToken = cfg_RollbarAccessToken cfg, rb_ServerRoot = cfg_RollbarServerRoot cfg, rb_AppEnv = cfg_AppEnv cfg,
                  rb_Version = GitSHA, rb_ChainIDs = [cfg_ChainID cfg]\<rparr>
      in if cfg_AppEnv cfg = ''development'' \<or> cfg_AppEnv cfg = ''local''
         then Init (zap_Build os) ''console'' ''debug'' [''stderr''] (Some rcfg) lg
         else Init (zap_Build os) ''json'' ''info'' [''stderr''] (Some rcfg) lg)"

definition connections :: "string \<Rightarrow> Config \<Rightarrow> effect" where
  "connections workerRunID cfg =
     (let managers = Split (cfg_Managers cfg) CHR '','';
          hostname = (if cfg_Hostname cfg = [] then cfg_Address cfg else cfg_Hostname cfg)
      in Connect workerRunID (hostname @ '':'' @ cfg_Port cfg) ''cosmos'' (cfg_ChainID cfg) ''0.0.1''
           (map (\<lambda>m. m @ ''/client_ping'') managers))"

text \<open>From the run id to \<open>RunLoop\<close>. \<open>methods\<close> gives the methods of the API client as the interface the handlers call. The
  last result is the worker that serves requests, \<open>None\<close> when \<open>main\<close> returns before.\<close>

definition start_worker ::
  "outside \<Rightarrow> (Client \<Rightarrow> GRPC) \<Rightarrow> Config \<Rightarrow> (effect list \<times> IndexerClient option) go" where
  "start_worker os methods cfg =
     (case uuid_NewRandom os of
        Inl e \<Rightarrow> Ret ([LogError (''error generating UUID: '' @ e)], None)
      | Inr workerRunID \<Rightarrow>
          let first = connections workerRunID cfg
          in if cfg_CosmosGRPCAddr cfg = [] then Ret ([first, LogError ''cosmos grpc address is not set''], None)
             else case DialContext os (cfg_CosmosGRPCAddr cfg) of
               Some e \<Rightarrow> Ret ([first, LogError (''error dialing grpc: '' @ e)], None)
             | None \<Rightarrow>
                 bind_go (NewClient \<lparr>cc_ReqPerSecond = cfg_RequestsPerSecond cfg, cc_TimeoutBlockCall = cfg_TimeoutBlockCall cfg,
                                     cc_TimeoutSearchTxCall = cfg_TimeoutTransactionCall cfg\<rparr>) (\<lambda>apiClient.
                 bind_go (worker_mux (profiling_build os) (health_routes os)) (\<lambda>m.
                   Ret ([first, Dialled (cfg_CosmosGRPCAddr cfg), ServeGRPC (cfg_Port cfg), ServeHTTP (cfg_HTTPPort cfg) m],
                        Some (NewIndexerClient (methods apiClient) (uint64_of_float os (cfg_MaximumHeightsToGet cfg)))))))"

text \<open>\<open>main\<close> up to \<open>RunLoop\<close>. zap's methods read the logger they are called on, so the first log line fails without one.\<close>

definition main_start ::
  "outside \<Rightarrow> (Client \<Rightarrow> GRPC) \<Rightarrow> string \<Rightarrow> string \<Rightarrow> string \<Rightarrow> Logger \<Rightarrow> (effect list \<times> Logger \<times> IndexerClient option) go" where
  "main_start os methods identity GitSHA configPath lg =
     (case initConfig os configPath of
        (_, Some e) \<Rightarrow> Ret ([Fatalf (''error initializing config [ERR: '' @ Error e @ '']'')], lg, None)
      | (None, None) \<Rightarrow> Panic NilDereference
      | (Some cfg, None) \<Rightarrow>
          bind_go (init_logger os GitSHA (with_server_root cfg) lg) (\<lambda>(lg, _).
            if lg_Logger lg = None then Panic NilDereference
            else bind_go (start_worker os methods (with_server_root cfg)) (\<lambda>(effs, w). Ret (LogInfo identity # effs, lg, w))))"

subsection \<open>Stop\<close>

datatype server = Running | ListenFailed | Ended

text \<open>\<open>runGRPC\<close> and \<open>runHTTP\<close>: \<open>Running\<close> is a server that has not ended, so the call has not returned.\<close>

definition runGRPC :: "server \<Rightarrow> string chan \<Rightarrow> string chan blocking" where
  "runGRPC sv exits =
     (case sv of Running \<Rightarrow> Ret None | ListenFailed \<Rightarrow> chan_send ''grpc'' exits | Ended \<Rightarrow> chan_send ''grpc'' exits)"

definition runHTTP :: "server \<Rightarrow> string chan \<Rightarrow> string chan blocking" where
  "runHTTP sv exits =
     (case sv of Running \<Rightarrow> Ret None | ListenFailed \<Rightarrow> chan_send ''http'' exits | Ended \<Rightarrow> chan_send ''http'' exits)"

text \<open>\<open>RunLoop\<close>: the events its \<open>select\<close> sees; \<open>None\<close> while it waits. \<open>CloseConn\<close> is the deferred call.\<close>

datatype loop_event = OsSig string | Exit string

fun RunLoop :: "loop_event list \<Rightarrow> effect list option" where
  "RunLoop [] = None"
| "RunLoop (OsSig sig # es) = Some [Cancel, StopGRPC, ShutdownHTTP, CloseConn]"
| "RunLoop (Exit k # es) = Some ((if k = ''grpc'' then [Cancel, ShutdownHTTP] else [Cancel, StopGRPC]) @ [CloseConn])"

subsection \<open>Theorems\<close>

fun is_server :: "effect \<Rightarrow> bool" where
  "is_server (ServeGRPC port) = True"
| "is_server (ServeHTTP port m) = True"
| "is_server _ = False"

lemma with_server_root_simps [simp]:
  "cfg_CosmosGRPCAddr (with_server_root cfg) = cfg_CosmosGRPCAddr cfg" "cfg_Port (with_server_root cfg) = cfg_Port cfg"
  "cfg_HTTPPort (with_server_root cfg) = cfg_HTTPPort cfg" "cfg_ChainID (with_server_root cfg) = cfg_ChainID cfg"
  "cfg_Managers (with_server_root cfg) = cfg_Managers cfg" "cfg_Hostname (with_server_root cfg) = cfg_Hostname cfg"
  "cfg_Address (with_server_root cfg) = cfg_Address cfg"
  "cfg_MaximumHeightsToGet (with_server_root cfg) = cfg_MaximumHeightsToGet cfg"
  by (simp_all add: with_server_root_def)

fun is_info :: "effect \<Rightarrow> bool" where
  "is_info (LogInfo msg) = True"
| "is_info _ = False"

text \<open>How a started worker is made of the configuration, and what a failed start reports. A list of names without commas whose
  concatenation with commas is the configured value can only be its parts.\<close>

definition started :: "outside \<Rightarrow> Config \<Rightarrow> effect list \<Rightarrow> IndexerClient option \<Rightarrow> bool" where
  "started os cfg effs w =
     (case w of
        Some ic \<Rightarrow> cfg_CosmosGRPCAddr cfg \<noteq> [] \<and> DialContext os (cfg_CosmosGRPCAddr cfg) = None
          \<and> (\<exists>rid ms m. uuid_NewRandom os = Inr rid
               \<and> ms \<noteq> [] \<and> (\<forall>name\<in>set ms. CHR '','' \<notin> set name) \<and> Join ms CHR '','' = cfg_Managers cfg
               \<and> worker_mux (profiling_build os) (health_routes os) = Ret m
               \<and> filter (\<lambda>e. \<not> is_info e) effs =
                   [Connect rid ((if cfg_Hostname cfg = [] then cfg_Address cfg else cfg_Hostname cfg) @ '':'' @ cfg_Port cfg)
                      ''cosmos'' (cfg_ChainID cfg) ''0.0.1'' (map (\<lambda>name. name @ ''/client_ping'') ms),
                    Dialled (cfg_CosmosGRPCAddr cfg), ServeGRPC (cfg_Port cfg), ServeHTTP (cfg_HTTPPort cfg) m])
          \<and> ic_maximumHeightsToGet ic = uint64_of_float os (cfg_MaximumHeightsToGet cfg) \<and> ic_streams ic = {}
      | None \<Rightarrow> filter is_server effs = [] \<and> (\<exists>msg. last effs = LogError msg))"

lemma connections_managers:
  "\<exists>ms. ms \<noteq> [] \<and> (\<forall>name\<in>set ms. CHR '','' \<notin> set name) \<and> Join ms CHR '','' = cfg_Managers cfg
     \<and> connections rid cfg = Connect rid ((if cfg_Hostname cfg = [] then cfg_Address cfg else cfg_Hostname cfg) @ '':'' @ cfg_Port cfg)
         ''cosmos'' (cfg_ChainID cfg) ''0.0.1'' (map (\<lambda>name. name @ ''/client_ping'') ms)"
  using Join_Split [of "cfg_Managers cfg" "CHR '',''"] Split_no_sep [of _ "cfg_Managers cfg" "CHR '',''"]
  by (intro exI [of _ "Split (cfg_Managers cfg) CHR '',''"]) (simp add: connections_def Let_def)

lemma connections_serves [simp]: "\<not> is_server (connections rid cfg)"
  by (simp add: connections_def Let_def)

lemma start_worker_started:
  assumes "start_worker os methods cfg = Ret (effs, w)"
  shows "effs \<noteq> [] \<and> started os cfg effs w"
proof (cases w)
  case None
  with assms show ?thesis
    by (auto simp: start_worker_def started_def Let_def go_simps split: sum.splits if_splits option.splits)
next
  case (Some ic)
  with assms obtain rid c m where r: "uuid_NewRandom os = Inr rid" "cfg_CosmosGRPCAddr cfg \<noteq> []" "DialContext os (cfg_CosmosGRPCAddr cfg) = None"
    "effs = [connections rid cfg, Dialled (cfg_CosmosGRPCAddr cfg), ServeGRPC (cfg_Port cfg), ServeHTTP (cfg_HTTPPort cfg) m]"
    "worker_mux (profiling_build os) (health_routes os) = Ret m" "ic = NewIndexerClient (methods c) (uint64_of_float os (cfg_MaximumHeightsToGet cfg))"
    by (auto simp: start_worker_def Let_def go_simps split: sum.splits if_splits option.splits)
  from connections_managers [of cfg rid] obtain ms where ms: "ms \<noteq> []" "\<forall>name\<in>set ms. CHR '','' \<notin> set name"
    "Join ms CHR '','' = cfg_Managers cfg" "connections rid cfg = Connect rid
       ((if cfg_Hostname cfg = [] then cfg_Address cfg else cfg_Hostname cfg) @ '':'' @ cfg_Port cfg)
         ''cosmos'' (cfg_ChainID cfg) ''0.0.1'' (map (\<lambda>name. name @ ''/client_ping'') ms)"
    by blast
  with r Some show ?thesis by (auto simp: started_def NewIndexerClient_def)
qed

lemma main_started:
  assumes "main_start os methods identity GitSHA path lg = Ret (effs, lg', w)" and "initConfig os path = (Some cfg, None)"
  shows "started os cfg effs w"
proof -
  from assms obtain es where "start_worker os methods (with_server_root cfg) = Ret (es, w)" "effs = LogInfo identity # es"
    by (auto simp: main_start_def go_simps split: if_splits)
  with start_worker_started [OF this(1)] show ?thesis by (simp add: started_def split: option.splits if_splits)
qed

text \<open>Claim C37: the worker serves requests only when its node was reached: then, beside log lines, it did exactly this and in this
  order: it announced itself, with the address of its configuration, to every manager of the comma-separated list and to no
  other, it dialled the configured address, which is not empty, and it started both servers, the HTTP server with the worker's
  routes. In every other case in which the configuration was read and \<open>main\<close> does not panic, no server is started, and the
  last thing \<open>main\<close> does is to report why.\<close>

theorem main_serves_only_when_dialled:
  assumes "main_start os methods identity GitSHA path lg = Ret (effs, lg', w)" and "initConfig os path = (Some cfg, None)"
  shows "started os cfg effs w"
  by (rule main_started [OF assms])

text \<open>An environment in which a file \<open>f\<close> names the node and nothing else.\<close>

definition sample_outside :: outside where
  "sample_outside =
     \<lparr>ReadFile = (\<lambda>path. if path = ''f'' then Inr ''{}'' else Inl ''no such file''),
      json_Config = (\<lambda>data cfg. (cfg\<lparr>cfg_CosmosGRPCAddr := ''node:9090'', cfg_Managers := ''m1,m2''\<rparr>, None)),
      envconfig_Process = (\<lambda>cfg. (cfg, None)), uuid_NewRandom = Inr ''id'', DialContext = (\<lambda>_. None), zap_Build = (\<lambda>_. None),
      float_outside_uint64 = (\<lambda>_. 0), profiling_build = False, health_routes = [''/health'', ''/readiness'']\<rparr>"

definition sample_logger :: Logger where
  "sample_logger = \<lparr>lg_Logger = None, lg_Level = None, lg_rollbar = None\<rparr>"

lemma sample_start:
  "\<exists>effs lg ic. main_start sample_outside (\<lambda>_. sample_client {}) ''v'' ''sha'' ''f'' sample_logger = Ret (effs, lg, Some ic)"
  by (simp add: main_start_def initConfig_def FromFile_def sample_outside_def sample_logger_def Config0_def with_server_root_def
      init_logger_def Init_def start_worker_def NewClient_def NewSimpleBlockCache_def make_chan_def
      worker_mux_def attachProfiling_def Handle_def Let_def)

theorem main_serves_only_when_dialled_witness:
  "\<exists>effs lg w. main_start sample_outside (\<lambda>_. sample_client {}) ''v'' ''sha'' ''f'' sample_logger = Ret (effs, lg, w)
     \<and> started sample_outside (Config0\<lparr>cfg_CosmosGRPCAddr := ''node:9090'', cfg_Managers := ''m1,m2''\<rparr>) effs w"
proof -
  from sample_start obtain effs lg w where
    "main_start sample_outside (\<lambda>_. sample_client {}) ''v'' ''sha'' ''f'' sample_logger = Ret (effs, lg, w)" by blast
  with main_serves_only_when_dialled [OF this, of "Config0\<lparr>cfg_CosmosGRPCAddr := ''node:9090'', cfg_Managers := ''m1,m2''\<rparr>"]
  show ?thesis by (simp add: initConfig_def FromFile_def sample_outside_def)
qed

text \<open>Claim C36: a configuration file that sets the node's address but not the maximum number of heights leaves it 0, since the
  environment and its defaults are not consulted then. Whatever was the last known height, the range of \<open>GetLatest\<close> is
  the newest block alone: the blocks between are never fetched.\<close>

theorem file_config_skips_heights:
  assumes "path \<noteq> []" and "ReadFile os path = Inr data" and "json_Config os data Config0 = (cfg, None)"
    and "cfg_CosmosGRPCAddr cfg \<noteq> []" and "cfg_MaximumHeightsToGet cfg = 0"
    and "main_start os methods identity GitSHA path lg = Ret (effs, lg', Some ic)"
  shows "getLastHeightRange known (ic_maximumHeightsToGet ic) last_block = \<lparr>hr_StartHeight = last_block, hr_EndHeight = last_block\<rparr>"
proof -
  have "initConfig os path = (Some cfg, None)" using assms(1-4) by (simp add: initConfig_def FromFile_def)
  from main_started [OF assms(6) this] assms(5) have "ic_maximumHeightsToGet ic = 0"
    by (simp add: started_def uint64_of_float_def)
  then show ?thesis by (auto simp: getLastHeightRange_def Let_def word_greater_zero_iff)
qed

theorem file_config_skips_heights_witness:
  "\<exists>effs lg ic. main_start sample_outside (\<lambda>_. sample_client {}) ''v'' ''sha'' ''f'' sample_logger = Ret (effs, lg, Some ic)
     \<and> getLastHeightRange 10 (ic_maximumHeightsToGet ic) 100 = \<lparr>hr_StartHeight = 100, hr_EndHeight = 100\<rparr>"
proof -
  from sample_start obtain effs lg ic where
    s: "main_start sample_outside (\<lambda>_. sample_client {}) ''v'' ''sha'' ''f'' sample_logger = Ret (effs, lg, Some ic)" by blast
  have "ReadFile sample_outside ''f'' = Inr ''{}''"
    "json_Config sample_outside ''{}'' Config0 = (Config0\<lparr>cfg_CosmosGRPCAddr := ''node:9090'', cfg_Managers := ''m1,m2''\<rparr>, None)"
    by (simp_all add: sample_outside_def)
  from file_config_skips_heights [OF _ this _ _ s, of 10 100] s show ?thesis by (simp add: Config0_def)
qed

text \<open>Neither server can hang on the report of its end: \<open>exit\<close> has room for both, so they end in any order, whether
  or not \<open>main\<close> still listens; and whatever ends first, \<open>main\<close> cancels the context before anything else and stops
  every server that has not ended.\<close>

lemma servers_stop:
  assumes "g \<noteq> Running" and "h \<noteq> Running" and "make_chan 2 = Ret exits"
  shows "(\<exists>ex. bind_blocking (runGRPC g exits) (runHTTP h) = Ret (Some ex) \<and> ch_buf ex = [''grpc'', ''http''])
    \<and> (\<exists>ex. bind_blocking (runHTTP h exits) (runGRPC g) = Ret (Some ex) \<and> ch_buf ex = [''http'', ''grpc''])
    \<and> (\<exists>effs. RunLoop [Exit ''grpc''] = Some (Cancel # effs) \<and> ShutdownHTTP \<in> set effs)
    \<and> (\<exists>effs. RunLoop [Exit ''http''] = Some (Cancel # effs) \<and> StopGRPC \<in> set effs)
    \<and> (\<exists>effs. RunLoop [OsSig sig] = Some (Cancel # effs) \<and> {StopGRPC, ShutdownHTTP} \<subseteq> set effs)"
  using assms by (auto simp: runGRPC_def runHTTP_def make_chan_def chan_send_def split: server.splits)

lemma servers_stop_witness:
  "\<exists>ex. bind_blocking (runGRPC Ended \<lparr>ch_cap = 2, ch_buf = [], ch_closed = False\<rparr>) (runHTTP ListenFailed) = Ret (Some ex)
     \<and> ch_buf ex = [''grpc'', ''http'']"
  using servers_stop [of Ended ListenFailed "\<lparr>ch_cap = 2, ch_buf = [], ch_closed = False\<rparr>"] by (simp add: make_chan_def)

end
