(* ===== verification/Spec2Isabelle.thy ===== *)
theory Spec2Isabelle
  imports Currency_Scan Conversion_Safety Metrics Blocks Pipeline_Cancel Pool_Failure Indexer Log_Format Worker
begin

text \<open>
  Verification of the Cosmos worker, a Go program that reads blocks and transactions of a Cosmos chain from a node over
  gRPC, converts them to the format of an indexer, and streams them to a manager that sends it tasks.

  \<^bold>\<open>The program.\<close> The manager opens a stream; \<open>RegisterStream\<close> starts goroutines that run \<open>Run\<close>, which
  dispatches each task to a handler (\<^verbatim>\<open>src/client/client.go\<close>). The handlers for a range of heights call \<open>getRange\<close>: a
  publisher (\<open>populateRange\<close>) hands heights to five workers (\<open>asyncBlockAndTx\<close>), each height with a response channel from
  a pool (\<^verbatim>\<open>src/client/pool.go\<close>); \<open>getRange\<close> reads the channels in the order of the heights and forwards what it reads to
  \<open>sendResp\<close>, which numbers, encodes and sends it. A worker asks the API client for the block and its transactions:
  \<open>GetBlock\<close> (\<^verbatim>\<open>src/api/block.go\<close>) through a cache (\<^verbatim>\<open>src/api/block_cache.go\<close>), \<open>SearchTx\<close>
  (\<^verbatim>\<open>src/api/transaction.go\<close>) page by page. \<open>rawToTransaction\<close> converts a transaction message by message with the mappers of
  \<^verbatim>\<open>src/api/mapper\<close>, which read transfers out of the logs and amounts out of texts (\<^verbatim>\<open>src/api/util/currency.go\<close>).
  \<^verbatim>\<open>src/cmd/worker-cosmos\<close> configures, starts and stops all this.

  \<^bold>\<open>Theories\<close>, each a component, in the order of their imports:

  \<^item> \<open>Prelude\<close>: words, results and panics of Go calls, errors, loops over slices, the contracts \<open>transition_system\<close> and
    \<open>terminating_system\<close>.
    \<open>Go_Strings\<close>: the functions of \<open>strings\<close>, \<open>strconv\<close>, \<open>math/big\<close> and \<open>regexp\<close> that the program uses.
  \<^item> \<open>Structs\<close>: the data of the manager's package and of the Cosmos SDK messages, and \<open>env\<close>, the operations of the SDK
    that the mappers call.
  \<^item> \<open>Currency\<close> (\<^verbatim>\<open>currency.go\<close>): \<open>GetCoin\<close>, \<open>GetCurrency\<close>. Reading a printed coin gives it back; the value of a decimal text.
    \<open>Currency_Scan\<close>: the pattern with its backtracking is equivalent to one scan from the left.
  \<^item> \<open>Transfers\<close> (\<^verbatim>\<open>mapper/transfers.go\<close>): \<open>produceTransfers\<close>. A well-formed log is read completely and in order.
  \<^item> \<open>Mapper_Contract\<close>, \<open>Mapper_Cosmos\<close>, \<open>Mapper_IBC\<close> (\<^verbatim>\<open>mapper/*.go\<close>): one definition per mapper; the contract of a mapper
    is a locale that every mapper interprets. No coin, sender or recipient is lost; the mappers that panic, and on what.
  \<^item> \<open>Transaction\<close>, \<open>Search_Tx\<close> (\<^verbatim>\<open>api/transaction.go\<close>): the dispatch on type URLs, \<open>rawToTransaction\<close>, \<open>SearchTx\<close>. What a
    converted transaction consists of, what a failure counts; all pages are read, and when the loop does not end.
    \<open>Conversion_Safety\<close>: which transactions are converted without a panic.
  \<^item> \<open>Channels\<close>: Go's buffered channels and the contract \<open>bounded_queue\<close>. \<open>Block_Cache\<close>, \<open>Blocks\<close>: the cache is a sliding
    window, which its reader never consults; blocks by height, asynchronously and in ranges.
  \<^item> \<open>Accounts\<close> (\<^verbatim>\<open>api/reward.go\<close>, \<^verbatim>\<open>delegations.go\<close>, \<^verbatim>\<open>account_balance.go\<close>): nothing of the node's answer is lost.
  \<^item> \<open>Client_Fetch\<close>: \<open>blockAndTx\<close>, the responses of a height, \<open>getLastHeightRange\<close> on 64-bit integers.
  \<^item> \<open>Pipeline\<close>: \<open>getRange\<close> with its goroutines as a state machine, one action per channel operation. \<open>Pipeline_Order\<close>: its
    invariant, so that nothing is reordered, lost or mixed. \<open>Pipeline_Progress\<close>: it does not get stuck without errors, and
    can deadlock with one. \<open>Pipeline_Termination\<close>: every schedule ends; without errors it ends with everything delivered.
    \<open>Pipeline_Cancel\<close>: the context ends and the sender stops; \<open>getRange\<close> never returns when more is left than fits into \<open>out\<close>.
  \<^item> \<open>Pools\<close> (\<^verbatim>\<open>client/pool.go\<close>): a channel handed out is private. \<open>Pipeline_Pool\<close>: \<open>getRange\<close> with its channels from the
    pool; \<open>Pool_Refinement\<close>: it does what \<open>Pipeline\<close> does, where every height has a channel of its own; \<open>Shared_Pool\<close>:
    ranges that are fetched at the same time do not disturb each other as long as none fails; \<open>Pool_Failure\<close>: one that
    failed can block another for good.
  \<^item> \<open>Stream\<close>: \<open>sendResp\<close>. \<open>Indexer\<close>: the handlers, \<open>Run\<close> and the registry of streams; the pipeline refines a sequential fetch,
    and what the manager receives for a range, for a query and for every request of a stream.
  \<^item> \<open>Log_Format\<close> (\<^verbatim>\<open>api/types/log_format.go\<close>): grouping of event attributes.
  \<^item> \<open>Metrics\<close> (\<^verbatim>\<open>api/metrics.go\<close>, \<^verbatim>\<open>client/metrics.go\<close>): the metrics and what the operations record on them. Labels fit the
    declarations, and a successful search is counted right.
  \<^item> \<open>Logger\<close> (\<^verbatim>\<open>cmd/common/logger\<close>, \<^verbatim>\<open>dynamic.go\<close>): the logger, its level and the wrappers. \<open>Http_Mux\<close> (\<^verbatim>\<open>profiling.go\<close>,
    \<^verbatim>\<open>profiling_disabled.go\<close>): the routes of the worker, and changing the level through them.
    \<open>Worker\<close> (\<^verbatim>\<open>main.go\<close>, \<^verbatim>\<open>config\<close>, \<^verbatim>\<open>api/client.go\<close>): configuration, start and stop.
  \<^item> This theory: the node, the API client and the pipeline together.

  \<^bold>\<open>How code becomes definitions.\<close> Go integers are words and wrap around; a Go call returns a value together with an error, or
  panics (\<open>Ret\<close>, \<open>Panic\<close>). A slice access out of range, a nil dereference, a close of a nil channel are panics of
  the model. A call that may not return gives an option: \<open>partial_function (option)\<close> for the loops of \<open>SearchTx\<close>
  and of the pools' drains, \<open>blocking\<close> for channel operations; no fuel is used. State that the code shares (the cache, the
  pools, the streams, the logger) is passed explicitly; operations under a lock are atomic. Concurrency that matters is
  either a step relation with all interleavings (\<open>Pipeline\<close> and the theories above it) or an explicit schedule argument (\<open>Stream\<close>, \<open>Indexer\<close>).
  In the step relations a step does one operation on one channel: \<open>getRange\<close> takes a response in one step, and then is
  \<open>Forwarding\<close> or \<open>Signalling\<close> it, which takes a step of its own when the channel it sends on has room.

  \<^bold>\<open>Parameters\<close> stand for code outside the repository: the node's services and the rate limiter, whose answers depend on the
  number of the call, the Cosmos SDK's protobuf decoding, integers and address texts, JSON, envconfig, zap, the
  metrics library and the manager's transport. That \<open>GetContent\<close> and \<open>GetEvidence\<close> of the SDK panic on a message without
  the field is part of what the decoding gives. The methods of the API client are pure functions of their arguments for the
  handlers: a height is fetched at most once in a range; that their answers change when the context ends is in
  \<open>cancel_step\<close>, which has a second client for that time. What theorems assume of them is stated in the theorems by name:
  \<open>serves\<close> is documented paging, \<open>node_block\<close> a block with the height that was asked for, \<open>empty_pages\<close> a node
  that counts transactions and serves none.

  \<^bold>\<open>Bounds.\<close> The capacities of channels are those of the source (10 heights, 1000 responses, 201 outgoing, 7 errors), as are
  the five workers and the cache of 400. A range is \<open>proper_range\<close> when its end is not before its start and is not the
  largest 64-bit number, for which the publisher's counter wraps around. The number of steps of a range is bounded by a weight
  of its state, in which a height weighs four times its responses: a response is produced, taken, forwarded and delivered.

  \<^bold>\<open>Not modelled.\<close> Log lines of the operations and durations: they do not affect results. Timeouts of contexts appear as the
  end of the context, which stops the sender and from which on fetches may fail. The handlers of libraries behind the HTTP
  routes, the metrics library and the health monitor; of \<open>ServeMux\<close> the model has the documented matching of clean paths.
  The structs of \<^verbatim>\<open>api/types/responses.go\<close>, which no code uses, and the converter plugin, which no longer compiles. The two
  channels of heights are not shared between ranges in the model; that a publisher can still send on such a channel after it
  was put back is \<open>publisher_outlives_range\<close>.
\<close>

section \<open>The node, the API client and the range pipeline together\<close>

text \<open>What it means that a client answers for a height from a node that has block \<open>b\<close> with the transactions \<open>txs\<close> there:
  its methods are those of the API client, called in a state that can arise, against services that behave as documented.\<close>

definition height_served ::
  "('i, 'd) env \<Rightarrow> ('i Tx \<times> TxResponse \<Rightarrow> Transaction) \<Rightarrow> GRPC \<Rightarrow> uint64 \<Rightarrow> Block \<Rightarrow> ('i Tx \<times> TxResponse) list \<Rightarrow> bool" where
  "height_served E conv client h b txs \<longleftrightarrow>
     (\<exists>svc s s'. api_inv s \<and> node_block svc (calls s) h b
        \<and> GetBlock svc (HeightHash_Height h) s = Ret (Some (g_GetBlock client (HeightHash_Height h), s')))
     \<and> blk_NumberOfTransactions b = word_of_nat (length txs) \<and> length txs + unat page_size < 2 ^ 64
     \<and> (\<exists>svc metrics. serves svc h page_size txs
          \<and> SearchTx E svc (HeightHash_Height h) b page_size
            = Some (Ret ((fst (g_SearchTx client (HeightHash_Height h) b page_size), metrics),
                         snd (g_SearchTx client (HeightHash_Height h) b page_size))))
     \<and> convertible E conv txs"

text \<open>What is to be delivered for a height: its block, then its transactions.\<close>

definition chain_responses :: "('i Tx \<times> TxResponse \<Rightarrow> Transaction) \<Rightarrow> Block \<Rightarrow> ('i Tx \<times> TxResponse) list \<Rightarrow> OutResp list" where
  "chain_responses conv b txs =
     \<lparr>or_ID = blk_ID b, or_Type = ''Block'', or_Payload = PBlock b, or_Error = None\<rparr>
     # map (\<lambda>t. let tx = (conv t)\<lparr>tx_BlockHash := blk_Hash b, tx_ChainID := blk_ChainID b, tx_Time := blk_Time b\<rparr>
              in \<lparr>or_ID = tx_ID tx, or_Type = ''Transaction'', or_Payload = PTransaction tx, or_Error = None\<rparr>) txs"

lemma served_blockAndTx:
  assumes "height_served E conv client h b txs" "h \<noteq> 0"
  shows "blockAndTx client h = (b, map (stamp_block b \<circ> conv) txs, None)"
proof -
  from assms(1) obtain svc s s' where s: "api_inv s" "node_block svc (calls s) h b"
    "GetBlock svc (HeightHash_Height h) s = Ret (Some (g_GetBlock client (HeightHash_Height h), s'))"
    unfolding height_served_def by blast
  from GetBlock_from_node [OF s(1,2) assms(2)] s(3) have b: "g_GetBlock client (HeightHash_Height h) = (b, None)" by auto
  from assms(1) have n: "blk_NumberOfTransactions b = word_of_nat (length txs)" "length txs + unat page_size < 2 ^ 64"
    "convertible E conv txs" by (simp_all add: height_served_def)
  from assms(1) obtain svc' ms where t: "serves svc' h page_size txs" "SearchTx E svc' (HeightHash_Height h) b page_size
      = Some (Ret ((fst (g_SearchTx client (HeightHash_Height h) b page_size), ms), snd (g_SearchTx client (HeightHash_Height h) b page_size)))"
    unfolding height_served_def by blast
  have "serves svc' (hh_Height (HeightHash_Height h)) page_size txs" using t(1) by (simp add: HeightHash_Height_def)
  from SearchTx_served [OF this n(3,2), of b] t(2)
  have "g_SearchTx client (HeightHash_Height h) b page_size = (map (stamp_block b \<circ> conv) txs, None)"
    by (simp add: page_size_def prod_eq_iff)
  moreover have "blk_NumberOfTransactions b > 0 \<longleftrightarrow> txs \<noteq> []"
    using n(1,2) by (auto simp: word_greater_zero_iff word_eq_iff_unsigned unat_eq_0 [symmetric] unat_of_nat)
  ultimately show ?thesis using b by (auto simp: blockAndTx_def Let_def)
qed

lemma served_lane:
  assumes "height_served E conv client h b txs" "h \<noteq> 0"
  shows "content (height_responses client h) = chain_responses conv b txs \<and> \<not> fails (height_responses client h)"
  using content_ok [OF served_blockAndTx [OF assms]] 
  by (simp add: chain_responses_def comp_def block_resp_def transaction_resp_def stamp_block_def Let_def)

lemma lane_height_nonzero:
  assumes "proper_range hr" "hr_StartHeight hr \<noteq> 0" "k \<le> last_lane hr"
  shows "lane_height hr k \<noteq> 0"
proof -
  have "unat (hr_StartHeight hr) + k < 2 ^ 64" using assms(1,3) by (auto simp: proper_range_def last_lane_def word_le_nat_alt)
  then have "unat (lane_height hr k) = unat (hr_StartHeight hr) + k" by (simp add: lane_height_def unat_word_ariths unat_of_nat)
  moreover have "unat (hr_StartHeight hr) \<noteq> 0" using assms(2) by (simp add: unat_eq_0)
  ultimately show ?thesis by (metis add_is_0 unat_0)
qed

lemma served_range:
  assumes "proper_range hr" "hr_StartHeight hr \<noteq> 0"
    and "\<And>k. k \<le> last_lane hr \<Longrightarrow> height_served E conv client (lane_height hr k) (block k) (txs k)"
  shows "in_order client hr (Suc (last_lane hr)) = concat (map (\<lambda>k. chain_responses conv (block k) (txs k)) [0..<Suc (last_lane hr)])"
    and "k \<le> last_lane hr \<Longrightarrow> \<not> fails (lane_responses client hr k)"
proof -
  have lane: "content (lane_responses client hr k) = chain_responses conv (block k) (txs k) \<and> \<not> fails (lane_responses client hr k)"
    if "k \<le> last_lane hr" for k
    using served_lane [OF assms(3) [OF that] lane_height_nonzero [OF assms(1,2) that]] by (simp add: lane_responses_def)
  then show "k \<le> last_lane hr \<Longrightarrow> \<not> fails (lane_responses client hr k)" by blast
  show "in_order client hr (Suc (last_lane hr)) = concat (map (\<lambda>k. chain_responses conv (block k) (txs k)) [0..<Suc (last_lane hr)])"
    unfolding in_order_def using lane by (intro arg_cong [of _ _ concat] map_cong) (auto simp: less_Suc_eq_le)
qed

text \<open>Claim C2: from the node to the stream. The node has for every height of the range a block and its transactions, of which
  every one can be converted, and answers as documented. Then \<open>getRange\<close>, in every one of its schedules, can go on
  until it has returned without an error and handed to the sender exactly, for every height in order, the block and
  after it each of its transactions once, converted and stamped with the block; and it cannot end in any other way.\<close>

theorem range_delivers_chain:
  assumes "proper_range hr" and "hr_StartHeight hr \<noteq> 0"
    and "\<And>k. k \<le> last_lane hr \<Longrightarrow> height_served E conv client (lane_height hr k) (block k) (txs k)"
    and "(getRange client hr)\<^sup>*\<^sup>* (pipe_init hr) s"
  shows "(\<exists>t. (getRange client hr)\<^sup>*\<^sup>* s t \<and> coll t = Returned None
            \<and> sent t = concat (map (\<lambda>k. chain_responses conv (block k) (txs k)) [0..<Suc (last_lane hr)]))
    \<and> ((\<exists>t. getRange client hr s t) \<or> coll s = Returned None
            \<and> sent s = concat (map (\<lambda>k. chain_responses conv (block k) (txs k)) [0..<Suc (last_lane hr)]))"
proof -
  have ok: "\<And>k. k \<le> last_lane hr \<Longrightarrow> \<not> fails (lane_responses client hr k)"
    and eq: "in_order client hr (Suc (last_lane hr)) = concat (map (\<lambda>k. chain_responses conv (block k) (txs k)) [0..<Suc (last_lane hr)])"
    using served_range [OF assms(1,2), of E conv client block txs, OF assms(3)] by blast+
  from range_completes [OF assms(1,4) ok] show ?thesis unfolding eq .
qed

text \<open>A node whose blocks all hold the same three transactions.\<close>

definition sample_block :: "uint64 \<Rightarrow> Block" where
  "sample_block h = Block0\<lparr>blk_Height := h, blk_NumberOfTransactions := 3\<rparr>"

definition three_tx_node :: block_service where
  "three_tx_node =
     \<lparr>bs_Wait = (\<lambda>_. None), bs_GetLatestBlock = (\<lambda>_. Inl ''unavailable''),
      bs_GetBlockByHeight = (\<lambda>_ h. Inr \<lparr>br_BlockId = Some [], br_Block = Some
        \<lparr>tb_Header = \<lparr>th_Height = h, th_Time = blk_Time Block0, th_ChainID = blk_ChainID Block0\<rparr>, tb_Txs = [[], [], []]\<rparr>\<rparr>),
      bs_HexString = (\<lambda>_. blk_Hash Block0)\<rparr>"

definition sample_api :: GRPC where
  "sample_api = (sample_client {})\<lparr>
     g_GetBlock := (\<lambda>hh. (sample_block (hh_Height hh), None)),
     g_SearchTx := (\<lambda>hh b p. (map (stamp_block b \<circ> sample_conv) sample_chain, None))\<rparr>"

lemma three_tx_node_block: "node_block three_tx_node n h (sample_block h)"
  by (simp add: node_block_def three_tx_node_def response_block_def sample_block_def Block0_def)

lemma sample_served:
  assumes "h \<noteq> 0"
  shows "height_served sample_env sample_conv sample_api h (sample_block h) sample_chain"
proof -
  obtain s' where "api_inv new_api_state" "GetBlock three_tx_node (HeightHash_Height h) new_api_state = Ret (Some ((sample_block h, None), s'))"
    using GetBlock_from_node [OF api_inv_new three_tx_node_block assms] api_inv_new by metis
  moreover have "g_GetBlock sample_api (HeightHash_Height h) = (sample_block h, None)" by (simp add: sample_api_def HeightHash_Height_def)
  moreover have "SearchTx sample_env (paging_service sample_chain) (HeightHash_Height h) (sample_block h) page_size
      = Some (Ret ((map (stamp_block (sample_block h) \<circ> sample_conv) sample_chain, []), None))"
    by (rule SearchTx_served [OF serves_paging_service sample_chain_convertible]) (simp_all add: sample_chain_def page_size_def)
  ultimately show ?thesis
    using serves_paging_service sample_chain_convertible three_tx_node_block
    unfolding height_served_def by (fastforce simp: sample_api_def sample_block_def sample_chain_def page_size_def)
qed

theorem range_delivers_chain_witness:
  "\<exists>t. (getRange sample_api \<lparr>hr_StartHeight = 5, hr_EndHeight = 6\<rparr>)\<^sup>*\<^sup>* (pipe_init \<lparr>hr_StartHeight = 5, hr_EndHeight = 6\<rparr>) t
     \<and> coll t = Returned None
     \<and> sent t = chain_responses sample_conv (sample_block 5) sample_chain @ chain_responses sample_conv (sample_block 6) sample_chain"
proof -
  let ?hr = "\<lparr>hr_StartHeight = 5, hr_EndHeight = 6\<rparr>"
  have hr: "proper_range ?hr" "hr_StartHeight ?hr \<noteq> 0" "last_lane ?hr = 1" by (simp_all add: proper_range_def last_lane_def)
  have "height_served sample_env sample_conv sample_api (lane_height ?hr k) (sample_block (lane_height ?hr k)) sample_chain"
    if "k \<le> last_lane ?hr" for k by (rule sample_served [OF lane_height_nonzero [OF hr(1,2) that]])
  from range_delivers_chain [OF hr(1,2) this rtranclp.rtrancl_refl] show ?thesis
    unfolding hr(3) by (auto simp: lane_height_def)
qed

end
